(* ===== verification/Prelude.thy ===== *)
theory Prelude
  imports Main "HOL-Library.Word" "HOL-Library.AList"
begin

text \<open>
  Shared vocabulary of the development: Rust's unsigned integers as words with the saturating
  operations the sources call, 64-bit signed integers as \<^typ>\<open>int\<close> with the wrap-around
  written out, hash maps as association lists, ASCII classes on the bytes of a string, and the
  generic lemmas on lists, runs of steps and counters that the component theories use.

  A Rust \<^verbatim>\<open>String\<close> is a \<^typ>\<open>string\<close> whose characters are the bytes of its UTF-8 encoding, so
  \<^term>\<open>length\<close> is \<^verbatim>\<open>str::len\<close>.  A fallible function returns \<open>'e + 'a\<close> with \<^term>\<open>Inl\<close> for
  \<^verbatim>\<open>Err\<close>.  An operation on shared state takes the state behind the lock and returns it
  together with the result.
\<close>

named_theorems u64_simps \<open>unsigned readings of the integer operations\<close>
named_theorems hmap_simps \<open>lookup after an update of a hash map\<close>

subsection \<open>Unsigned integers\<close>

type_synonym u8 = "8 word"
type_synonym u16 = "16 word"
type_synonym u32 = "32 word"
type_synonym u64 = "64 word"

text \<open>\<^verbatim>\<open>saturating_add\<close> and \<^verbatim>\<open>saturating_sub\<close>; \<^term>\<open>- 1\<close> is the largest word.\<close>

definition sat_add :: "'a::len word \<Rightarrow> 'a word \<Rightarrow> 'a word" where
  "sat_add a b = (if unat a + unat b < 2 ^ LENGTH('a) then a + b else - 1)"

definition sat_sub :: "'a::len word \<Rightarrow> 'a word \<Rightarrow> 'a word" where
  "sat_sub a b = (if a < b then 0 else a - b)"

lemma unat_max_u: "unat (- 1 :: 'a::len word) = 2 ^ LENGTH('a) - 1"
  by (simp add: unat_eq_nat_uint nat_diff_distrib nat_power_eq unsigned_minus_1_eq_mask
      mask_eq_exp_minus_1)

lemma unat_sat_add [u64_simps]:
  "unat (sat_add a b) = min (unat a + unat b) (2 ^ LENGTH('a) - 1)" for a b :: "'a::len word"
proof (cases "unat a + unat b < 2 ^ LENGTH('a)")
  case True
  then show ?thesis by (simp add: sat_add_def unat_word_ariths)
next
  case False
  then show ?thesis by (simp add: sat_add_def unat_max_u)
qed

lemma unat_sat_sub [u64_simps]: "unat (sat_sub a b) = unat a - unat b"
proof (cases "a < b")
  case True
  then show ?thesis by (simp add: sat_sub_def word_less_nat_alt)
next
  case False
  then show ?thesis by (simp add: sat_sub_def unat_sub not_less)
qed

lemma unat_Suc_nowrap [u64_simps]: "Suc (unat a) < 2 ^ LENGTH('a) \<Longrightarrow> unat (a + 1) = Suc (unat a)"
  for a :: "'a::len word"
  by (simp add: unat_word_ariths)

lemma u64_less_iff [u64_simps]: "a < b \<longleftrightarrow> unat a < unat b" for a b :: "'a::len word"
  by (rule word_less_nat_alt)

lemma u64_le_iff [u64_simps]: "a \<le> b \<longleftrightarrow> unat a \<le> unat b" for a b :: "'a::len word"
  by (rule word_le_nat_alt)

text \<open>\<^verbatim>\<open>i64\<close> values are \<^typ>\<open>int\<close>s between \<open>- 2 ^ 63\<close> and \<open>2 ^ 63 - 1\<close>; arithmetic wraps as in a
  release build.  The cast \<^verbatim>\<open>x as i64\<close> of a \<^verbatim>\<open>u64\<close> is \<^term>\<open>sint\<close>, the cast back of a
  non-negative value is \<^term>\<open>word_of_int\<close>.\<close>

definition i64_wrap :: "int \<Rightarrow> int" where
  "i64_wrap x = (x + 2 ^ 63) mod 2 ^ 64 - 2 ^ 63"

lemma i64_wrap_id: "- (2 ^ 63) \<le> x \<Longrightarrow> x < 2 ^ 63 \<Longrightarrow> i64_wrap x = x"
  by (simp add: i64_wrap_def)

lemma i64_wrap_bounds: "- (2 ^ 63) \<le> i64_wrap x \<and> i64_wrap x < 2 ^ 63"
  by (simp add: i64_wrap_def)

lemma sint_eq_unat_small: "sint a = int (unat a)" if "unat a < 2 ^ 63" for a :: u64
proof -
  have "uint a < 2 ^ 63" using that by (metis of_nat_less_iff of_nat_numeral of_nat_power uint_nat)
  then have "signed_take_bit 63 (uint a) = uint a"
    by (intro signed_take_bit_int_eq_self) (simp_all add: order_trans [OF _ uint_ge_0])
  then have "sint a = uint a" by (simp add: sint_uint)
  then show ?thesis by (simp only: uint_nat)
qed

lemma sint_greater_iff: "n < sint a \<longleftrightarrow> nat n < unat a" if "unat a < 2 ^ 63" and "0 \<le> n" for a :: u64
  using sint_eq_unat_small [OF that(1)] that(2) by linarith

lemma unat_add_of_nat: "unat a + i < 2 ^ LENGTH('a) \<Longrightarrow> unat (a + of_nat i) = unat a + i"
  for a :: "'a::len word"
  by (simp add: unat_word_ariths unat_of_nat)

lemma sat_add_1_less:
  assumes "0 \<le> n" and "n < 2 ^ 63"
  shows "sat_add (word_of_int n) 1 < (f :: u64) \<longleftrightarrow> Suc (nat n) < unat f"
proof -
  have "unat (word_of_int n :: u64) = nat n"
    using assms by (simp add: unat_eq_nat_uint uint_word_of_int)
  then have "unat (sat_add (word_of_int n :: u64) 1) = Suc (nat n)"
    using assms by (simp add: unat_sat_add min_def nat_less_iff)
  then show ?thesis by (simp add: u64_less_iff)
qed

lemma filter_greater_upt: "filter (\<lambda>x. m < x) [a..<b] = [max a (Suc m)..<b]"
  by (induction b) (auto simp: max_def)

subsection \<open>Hash maps\<close>

text \<open>
  A \<^verbatim>\<open>HashMap\<close> is an association list without repeated keys.  Lookup, \<^verbatim>\<open>insert\<close> and \<^verbatim>\<open>remove\<close>
  are those of \<open>AList\<close>; \<^verbatim>\<open>values()\<close> and \<^verbatim>\<open>retain\<close> walk the list.  The order of the list stands for
  the unspecified iteration order of the map, so no property below depends on it.
\<close>

type_synonym ('k, 'v) hmap = "('k \<times> 'v) list"

abbreviation hget :: "('k, 'v) hmap \<Rightarrow> 'k \<Rightarrow> 'v option" where
  "hget m k \<equiv> map_of m k"

abbreviation hput :: "'k \<Rightarrow> 'v \<Rightarrow> ('k, 'v) hmap \<Rightarrow> ('k, 'v) hmap" where
  "hput k v m \<equiv> AList.update k v m"

abbreviation hdel :: "'k \<Rightarrow> ('k, 'v) hmap \<Rightarrow> ('k, 'v) hmap" where
  "hdel k m \<equiv> AList.delete k m"

definition hwf :: "('k, 'v) hmap \<Rightarrow> bool" where
  "hwf m \<longleftrightarrow> distinct (map fst m)"

definition hvals :: "('k, 'v) hmap \<Rightarrow> 'v list" where
  "hvals m = map snd m"

definition hretain :: "('k \<Rightarrow> 'v \<Rightarrow> bool) \<Rightarrow> ('k, 'v) hmap \<Rightarrow> ('k, 'v) hmap" where
  "hretain P m = filter (\<lambda>(k, v). P k v) m"

declare AList.update_conv' [simp, hmap_simps] AList.delete_conv' [simp, hmap_simps]

lemma hwf_Nil [simp]: "hwf []"
  by (simp add: hwf_def)

lemma hwf_hput [simp]: "hwf m \<Longrightarrow> hwf (hput k v m)"
  by (simp add: hwf_def distinct_update)

lemma hwf_hdel [simp]: "hwf m \<Longrightarrow> hwf (hdel k m)"
  by (simp add: hwf_def AList.delete_keys distinct_removeAll)

lemma hwf_hretain [simp]: "hwf m \<Longrightarrow> hwf (hretain P m)"
  by (simp add: hwf_def hretain_def distinct_map_filter)

lemma in_hvals_iff: "hwf m \<Longrightarrow> v \<in> set (hvals m) \<longleftrightarrow> (\<exists>k. hget m k = Some v)"
  by (auto simp: hwf_def hvals_def map_of_is_SomeI dest: map_of_SomeD intro: rev_image_eqI)

lemma hget_hretain [hmap_simps]:
  "hwf m \<Longrightarrow> hget (hretain P m) k = (case hget m k of
     Some v \<Rightarrow> if P k v then Some v else None | None \<Rightarrow> None)"
  by (induction m) (auto simp: hwf_def hretain_def image_iff map_of_eq_None_iff split: option.splits)

lemma length_hput: "length (hput k v m) = (if hget m k = None then Suc (length m) else length m)"
  by (induction m) auto

lemma length_hdel_le: "length (hdel k m) \<le> length m"
  by (rule length_delete_le)

lemma length_hretain_le: "length (hretain P m) \<le> length m"
  by (simp add: hretain_def)

subsection \<open>ASCII classes of a byte\<close>

definition is_ascii_digit :: "char \<Rightarrow> bool" where
  "is_ascii_digit c \<longleftrightarrow> (let n = of_char c :: nat in 48 \<le> n \<and> n \<le> 57)"

definition is_ascii_lower :: "char \<Rightarrow> bool" where
  "is_ascii_lower c \<longleftrightarrow> (let n = of_char c :: nat in 97 \<le> n \<and> n \<le> 122)"

definition is_ascii_upper :: "char \<Rightarrow> bool" where
  "is_ascii_upper c \<longleftrightarrow> (let n = of_char c :: nat in 65 \<le> n \<and> n \<le> 90)"

definition is_ascii_alphanumeric :: "char \<Rightarrow> bool" where
  "is_ascii_alphanumeric c \<longleftrightarrow> is_ascii_digit c \<or> is_ascii_lower c \<or> is_ascii_upper c"

definition is_ascii_hexdigit :: "char \<Rightarrow> bool" where
  "is_ascii_hexdigit c \<longleftrightarrow> is_ascii_digit c \<or>
     (let n = of_char c :: nat in (97 \<le> n \<and> n \<le> 102) \<or> (65 \<le> n \<and> n \<le> 70))"

definition ascii_lower_char :: "char \<Rightarrow> char" where
  "ascii_lower_char c = (if is_ascii_upper c then char_of ((of_char c :: nat) + 32) else c)"

definition to_ascii_lowercase :: "string \<Rightarrow> string" where
  "to_ascii_lowercase = map ascii_lower_char"

lemmas ascii_defs = is_ascii_digit_def is_ascii_lower_def is_ascii_upper_def
  is_ascii_alphanumeric_def is_ascii_hexdigit_def ascii_lower_char_def to_ascii_lowercase_def

definition strip_prefix :: "string \<Rightarrow> string \<Rightarrow> string option" where
  "strip_prefix p s = (if take (length p) s = p then Some (drop (length p) s) else None)"

lemma strip_prefix_append [simp]: "strip_prefix p (p @ s) = Some s"
  by (simp add: strip_prefix_def)

lemma strip_prefix_Some: "strip_prefix p s = Some r \<longleftrightarrow> s = p @ r"
proof
  assume "strip_prefix p s = Some r"
  then show "s = p @ r"
    by (metis append_take_drop_id option.distinct(1) option.inject strip_prefix_def)
qed simp

subsection \<open>Queues that drop their oldest entries\<close>

definition keep_last :: "nat \<Rightarrow> 'a list \<Rightarrow> 'a list" where
  "keep_last n xs = drop (length xs - n) xs"

lemma length_keep_last: "length (keep_last n xs) = min n (length xs)"
  by (simp add: keep_last_def)

lemma keep_last_id: "length xs \<le> n \<Longrightarrow> keep_last n xs = xs"
  by (simp add: keep_last_def)

lemma keep_last_snoc: "keep_last (Suc n) (xs @ [x]) = keep_last n xs @ [x]"
  by (simp add: keep_last_def)

lemma last_keep_last_snoc: "0 < n \<Longrightarrow> last (keep_last n (xs @ [x])) = x"
  by (cases n) (simp_all add: keep_last_snoc)

lemma keep_last_snoc_neq: "0 < n \<Longrightarrow> keep_last n (xs @ [x]) \<noteq> []"
  by (cases n) (simp_all add: keep_last_snoc)

lemma keep_last_keep_last_snoc: "keep_last n (keep_last n xs @ [x]) = keep_last n (xs @ [x])"
proof (cases n)
  case 0
  then show ?thesis by (simp add: keep_last_def)
next
  case (Suc m)
  have "keep_last m (keep_last (Suc m) xs) = keep_last m xs"
    by (simp add: keep_last_def) (rule arg_cong [of _ _ "\<lambda>k. drop k xs"], arith)
  with Suc show ?thesis by (simp add: keep_last_snoc)
qed

lemma last_keep_last:
  assumes "0 < n" and "xs \<noteq> []"
  shows "keep_last n xs \<noteq> [] \<and> last (keep_last n xs) = last xs"
proof -
  have "length xs - n < length xs" using assms by (cases xs) auto
  then show ?thesis by (simp add: keep_last_def last_drop)
qed

lemma set_keep_last: "set (keep_last n xs) \<subseteq> set xs"
  by (simp add: keep_last_def set_drop_subset)

lemma set_butlast_last: "xs \<noteq> [] \<Longrightarrow> set xs = insert (last xs) (set (butlast xs))"
  by (induction xs) auto

lemma successively_drop: "successively P xs \<Longrightarrow> successively P (drop n xs)"
  by (induction xs arbitrary: n) (auto simp: drop_Cons' successively_Cons)

subsection \<open>Searching a list\<close>

lemma find_mem: "List.find P xs = Some x \<Longrightarrow> x \<in> set xs \<and> P x"
  by (auto simp: find_Some_iff)

lemma find_ex: "list_ex P xs \<longleftrightarrow> (\<exists>x. List.find P xs = Some x)"
  by (induction xs) auto

subsection \<open>Long decision chains\<close>

text \<open>Introduction rules that walk down a chain of conditions without splitting it at once.\<close>

lemma if_cases: "(c \<Longrightarrow> P a) \<Longrightarrow> (\<not> c \<Longrightarrow> P b) \<Longrightarrow> P (if c then a else b)"
  by simp

lemma option_cases: "(x = None \<Longrightarrow> P a) \<Longrightarrow> (\<And>y. x = Some y \<Longrightarrow> P (f y)) \<Longrightarrow> P (case x of None \<Rightarrow> a | Some y \<Rightarrow> f y)"
  by (cases x) simp_all

lemma sum_cases: "(\<And>y. x = Inl y \<Longrightarrow> P (f y)) \<Longrightarrow> (\<And>y. x = Inr y \<Longrightarrow> P (g y)) \<Longrightarrow> P (case x of Inl y \<Rightarrow> f y | Inr y \<Rightarrow> g y)"
  by (cases x) simp_all

subsection \<open>Runs of a step function\<close>

text \<open>The operator \<^verbatim>\<open>?\<close> on a result, and \<^verbatim>\<open>Option::ok_or\<close>.\<close>

definition bind_sum :: "'e + 'a \<Rightarrow> ('a \<Rightarrow> 'e + 'b) \<Rightarrow> 'e + 'b" where
  "bind_sum r f = (case r of Inl e \<Rightarrow> Inl e | Inr x \<Rightarrow> f x)"

lemma bind_sum_simps [simp]: "bind_sum (Inl e) f = Inl e" "bind_sum (Inr x) f = f x"
  by (simp_all add: bind_sum_def)

lemma bind_sum_Inr: "bind_sum r f = Inr y \<longleftrightarrow> (\<exists>x. r = Inr x \<and> f x = Inr y)"
  by (cases r) simp_all

definition ok_or :: "'a option \<Rightarrow> 'e \<Rightarrow> 'e + 'a" where
  "ok_or r e = (case r of Some x \<Rightarrow> Inr x | None \<Rightarrow> Inl e)"

lemma ok_or_simps [simp]: "ok_or (Some x) e = Inr x" "ok_or None e = Inl e"
  by (simp_all add: ok_or_def)

text \<open>A component whose operations are steps on a state keeps every invariant of single steps along a
  whole run, whatever the interleaving of the operations.\<close>

locale step_system =
  fixes step :: "'e \<Rightarrow> 's \<Rightarrow> 's"
    and inv :: "'s \<Rightarrow> bool"
  assumes step_inv: "inv s \<Longrightarrow> inv (step e s)"
begin

lemma run_inv: "inv s \<Longrightarrow> inv (fold step es s)"
  by (induction es arbitrary: s) (simp_all add: step_inv)

end

end
