(* ===== verification/Json.thy ===== *)
theory Json
  imports Complex_Main Prelude
begin

text \<open>
  JSON values as \<^verbatim>\<open>serde_json::Value\<close> holds them.  A number is a non-negative integer that fits
  \<^verbatim>\<open>u64\<close>, a negative integer that fits \<^verbatim>\<open>i64\<close>, or a finite float, kept here as the rational it
  denotes; the three kinds are never equal to each other, as in the library.  An object is its
  list of members, keys unique and in the map's own order.
\<close>

datatype json =
    JNull
  | JBool bool
  | JPos u64
  | JNeg int
  | JFloat rat
  | JStr string
  | JArr "json list"
  | JObj "(string \<times> json) list"

text \<open>The accessors the sources call: \<^verbatim>\<open>Value::get\<close> on an object key, the index \<^verbatim>\<open>value["key"]\<close>,
  which is \<^verbatim>\<open>Null\<close> where there is no such member, and the \<^verbatim>\<open>as_*\<close> conversions.\<close>

fun json_get :: "json \<Rightarrow> string \<Rightarrow> json option" where
  "json_get (JObj ms) k = map_of ms k"
| "json_get _ _ = None"

definition json_index :: "json \<Rightarrow> string \<Rightarrow> json" where
  "json_index v k = (case json_get v k of Some x \<Rightarrow> x | None \<Rightarrow> JNull)"

fun as_str :: "json \<Rightarrow> string option" where
  "as_str (JStr s) = Some s"
| "as_str _ = None"

fun as_bool :: "json \<Rightarrow> bool option" where
  "as_bool (JBool b) = Some b"
| "as_bool _ = None"

fun as_u64 :: "json \<Rightarrow> u64 option" where
  "as_u64 (JPos n) = Some n"
| "as_u64 _ = None"

fun as_i64 :: "json \<Rightarrow> int option" where
  "as_i64 (JPos n) = (if uint n < 2 ^ 63 then Some (uint n) else None)"
| "as_i64 (JNeg i) = Some i"
| "as_i64 _ = None"

fun as_array :: "json \<Rightarrow> json list option" where
  "as_array (JArr xs) = Some xs"
| "as_array _ = None"

fun as_object :: "json \<Rightarrow> (string \<times> json) list option" where
  "as_object (JObj ms) = Some ms"
| "as_object _ = None"

text \<open>\<^verbatim>\<open>value.get(key).and_then(Value::as_str)\<close> and its siblings.\<close>

definition get_str :: "json \<Rightarrow> string \<Rightarrow> string option" where
  "get_str v k = Option.bind (json_get v k) as_str"

definition get_bool :: "json \<Rightarrow> string \<Rightarrow> bool option" where
  "get_bool v k = Option.bind (json_get v k) as_bool"

definition get_u64 :: "json \<Rightarrow> string \<Rightarrow> u64 option" where
  "get_u64 v k = Option.bind (json_get v k) as_u64"

text \<open>A \<^verbatim>\<open>serde_json\<close> number made from an \<^verbatim>\<open>i64\<close>.\<close>

definition json_of_i64 :: "int \<Rightarrow> json" where
  "json_of_i64 i = (if 0 \<le> i then JPos (word_of_int i) else JNeg i)"

text \<open>\<^verbatim>\<open>option.unwrap_or(default)\<close>\<close>

definition unwrap_or :: "'a option \<Rightarrow> 'a \<Rightarrow> 'a" where
  "unwrap_or x d = (case x of Some v \<Rightarrow> v | None \<Rightarrow> d)"

lemma unwrap_or_simps [simp]: "unwrap_or (Some v) d = v" "unwrap_or None d = d"
  by (simp_all add: unwrap_or_def)

lemma json_index_not_object: "as_object v = None \<Longrightarrow> json_index v k = JNull"
  by (cases v) (simp_all add: json_index_def)

lemmas json_access = json_index_def get_str_def get_bool_def get_u64_def

end
