(* ===== verification/Text.thy ===== *)
theory Text
  imports Prelude
begin

text \<open>
  The string functions of the standard library that the sources use, on UTF-8 byte strings.
  \<^verbatim>\<open>str::trim\<close> removes the characters of the Unicode property \<^verbatim>\<open>White_Space\<close>: the list below has their
  encodings, so the functions are exact on every valid string.
\<close>

subsection \<open>Prefixes, suffixes, pieces\<close>

definition starts_with :: "string \<Rightarrow> string \<Rightarrow> bool" where
  "starts_with s p \<longleftrightarrow> take (length p) s = p"

definition ends_with :: "string \<Rightarrow> string \<Rightarrow> bool" where
  "ends_with s p \<longleftrightarrow> length p \<le> length s \<and> drop (length s - length p) s = p"

lemma starts_with_iff: "starts_with s p \<longleftrightarrow> (\<exists>r. s = p @ r)"
  by (metis append_eq_conv_conj starts_with_def)

lemma ends_with_iff: "ends_with s p \<longleftrightarrow> (\<exists>r. s = r @ p)"
proof
  assume "ends_with s p"
  then show "\<exists>r. s = r @ p" unfolding ends_with_def by (metis append_take_drop_id)
qed (auto simp: ends_with_def)

text \<open>\<^verbatim>\<open>s.split(c)\<close>: at least one piece, none containing the separator.\<close>

fun split_on :: "char \<Rightarrow> string \<Rightarrow> string list" where
  "split_on c [] = [[]]"
| "split_on c (x # xs) =
    (if x = c then [] # split_on c xs
     else case split_on c xs of p # ps \<Rightarrow> (x # p) # ps | [] \<Rightarrow> [[x]])"

lemma split_on_nonempty [simp]: "split_on c s \<noteq> []"
  by (induction s) (auto split: list.split)

lemma hd_split_on: "hd (split_on c s) = takeWhile (\<lambda>x. x \<noteq> c) s"
  by (induction s) (auto split: list.split)

fun join_with :: "string \<Rightarrow> string list \<Rightarrow> string" where
  "join_with sep [] = []"
| "join_with sep [p] = p"
| "join_with sep (p # ps) = p @ sep @ join_with sep ps"

lemma join_split: "join_with [c] (split_on c s) = s"
proof (induction s)
  case (Cons x xs)
  show ?case
  proof (cases "split_on c xs")
    case Nil
    then show ?thesis by simp
  next
    case (Cons p ps)
    with Cons.IH show ?thesis by (cases ps) auto
  qed
qed simp

lemma split_on_pieces: "p \<in> set (split_on c s) \<Longrightarrow> c \<notin> set p"
  by (induction s arbitrary: p) (auto split: list.splits if_splits)

subsection \<open>Trimming\<close>

definition whitespace :: "string list" where
  "whitespace = [[CHR 0x09], [CHR 0x0A], [CHR 0x0B], [CHR 0x0C], [CHR 0x0D], [CHR 0x20],
     [CHR 0xC2, CHR 0x85], [CHR 0xC2, CHR 0xA0], [CHR 0xE1, CHR 0x9A, CHR 0x80],
     [CHR 0xE2, CHR 0x80, CHR 0x80], [CHR 0xE2, CHR 0x80, CHR 0x81], [CHR 0xE2, CHR 0x80, CHR 0x82],
     [CHR 0xE2, CHR 0x80, CHR 0x83], [CHR 0xE2, CHR 0x80, CHR 0x84], [CHR 0xE2, CHR 0x80, CHR 0x85],
     [CHR 0xE2, CHR 0x80, CHR 0x86], [CHR 0xE2, CHR 0x80, CHR 0x87], [CHR 0xE2, CHR 0x80, CHR 0x88],
     [CHR 0xE2, CHR 0x80, CHR 0x89], [CHR 0xE2, CHR 0x80, CHR 0x8A], [CHR 0xE2, CHR 0x80, CHR 0xA8],
     [CHR 0xE2, CHR 0x80, CHR 0xA9], [CHR 0xE2, CHR 0x80, CHR 0xAF], [CHR 0xE2, CHR 0x81, CHR 0x9F],
     [CHR 0xE3, CHR 0x80, CHR 0x80]]"

function strip_tokens :: "string list \<Rightarrow> string \<Rightarrow> string" where
  "strip_tokens ts s =
    (case List.find (\<lambda>t. t \<noteq> [] \<and> starts_with s t) ts of
       None \<Rightarrow> s
     | Some t \<Rightarrow> strip_tokens ts (drop (length t) s))"
  by pat_completeness auto

termination
proof (relation "measure (\<lambda>(ts, s). length s)")
  fix ts s t
  assume "List.find (\<lambda>t. t \<noteq> [] \<and> starts_with s t) ts = Some t"
  then have "t \<noteq> []" "starts_with s t" by (auto simp: find_Some_iff)
  then show "((ts, drop (length t) s), ts, s) \<in> measure (\<lambda>(ts, s). length s)"
    by (auto simp: starts_with_iff)
qed simp

declare strip_tokens.simps [simp del]

definition trim_start :: "string \<Rightarrow> string" where
  "trim_start = strip_tokens whitespace"

definition trim_end :: "string \<Rightarrow> string" where
  "trim_end s = rev (strip_tokens (map rev whitespace) (rev s))"

definition trim :: "string \<Rightarrow> string" where
  "trim s = trim_end (trim_start s)"

text \<open>A string whose first and last bytes begin and end no whitespace is left alone.\<close>

lemma strip_tokens_id: "list_all (\<lambda>t. t = [] \<or> \<not> starts_with s t) ts \<Longrightarrow> strip_tokens ts s = s"
proof -
  assume "list_all (\<lambda>t. t = [] \<or> \<not> starts_with s t) ts"
  then have "List.find (\<lambda>t. t \<noteq> [] \<and> starts_with s t) ts = None"
    by (auto simp: find_None_iff list_all_iff)
  then show ?thesis by (simp add: strip_tokens.simps)
qed

lemma strip_tokens_stripped: "list_all (\<lambda>t. t = [] \<or> \<not> starts_with (strip_tokens ts s) t) ts"
proof (induction ts s rule: strip_tokens.induct)
  case (1 ts s)
  show ?case
  proof (cases "List.find (\<lambda>t. t \<noteq> [] \<and> starts_with s t) ts")
    case None
    then have "strip_tokens ts s = s" by (simp add: strip_tokens.simps)
    with None show ?thesis by (auto simp: find_None_iff list_all_iff)
  next
    case (Some t)
    with 1 [OF Some] show ?thesis by (subst strip_tokens.simps) simp
  qed
qed

definition trim_end_char :: "char \<Rightarrow> string \<Rightarrow> string" where
  "trim_end_char c s = rev (dropWhile (\<lambda>x. x = c) (rev s))"

definition trim_start_char :: "char \<Rightarrow> string \<Rightarrow> string" where
  "trim_start_char c s = dropWhile (\<lambda>x. x = c) s"

subsection \<open>Letters and numbers\<close>

definition eq_ignore_ascii_case :: "string \<Rightarrow> string \<Rightarrow> bool" where
  "eq_ignore_ascii_case a b \<longleftrightarrow> to_ascii_lowercase a = to_ascii_lowercase b"

definition digit_char :: "nat \<Rightarrow> char" where
  "digit_char d = char_of (48 + d)"

fun show_nat :: "nat \<Rightarrow> string" where
  "show_nat n = (if n < 10 then [digit_char n] else show_nat (n div 10) @ [digit_char (n mod 10)])"

declare show_nat.simps [simp del]

definition dec_value :: "string \<Rightarrow> nat" where
  "dec_value s = foldl (\<lambda>v c. v * 10 + (of_char c - 48)) 0 s"

text \<open>\<^verbatim>\<open>parse::<u64>()\<close> of a string of digits.\<close>

definition parse_u64_digits :: "string \<Rightarrow> nat option" where
  "parse_u64_digits s =
    (if s = [] \<or> \<not> list_all is_ascii_digit s then None
     else if dec_value s < 2 ^ 64 then Some (dec_value s) else None)"

lemma of_char_digit: "d < 10 \<Longrightarrow> (of_char (digit_char d) :: nat) = 48 + d"
  by (simp add: digit_char_def)

lemma dec_value_snoc: "dec_value (s @ [c]) = dec_value s * 10 + (of_char c - 48)"
  by (simp add: dec_value_def)

lemma dec_value_show: "dec_value (show_nat n) = n"
proof (induction n rule: show_nat.induct)
  case (1 n)
  show ?case
  proof (cases "n < 10")
    case True
    then show ?thesis by (subst show_nat.simps) (simp add: dec_value_def of_char_digit)
  next
    case False
    with 1 show ?thesis by (subst show_nat.simps) (simp add: dec_value_snoc of_char_digit)
  qed
qed

lemma show_nat_digits: "list_all is_ascii_digit (show_nat n) \<and> show_nat n \<noteq> []"
proof (induction n rule: show_nat.induct)
  case (1 n)
  have d: "is_ascii_digit (digit_char d)" if "d < 10" for d
    using that by (simp add: is_ascii_digit_def of_char_digit)
  show ?case
  proof (cases "n < 10")
    case True
    with d show ?thesis by (subst (1 2) show_nat.simps) simp
  next
    case False
    with 1 d show ?thesis by (subst (1 2) show_nat.simps) simp
  qed
qed

lemma parse_show: "n < 2 ^ 64 \<Longrightarrow> parse_u64_digits (show_nat n) = Some n"
  using show_nat_digits [of n] by (simp add: parse_u64_digits_def dec_value_show)

end
