(* ===== verification/Lifecycle.thy ===== *)
theory Lifecycle
  imports Json
begin

text \<open>
  The service-lifecycle profile of \<^verbatim>\<open>src/service_lifecycle.rs\<close>: events and records, the table of
  legal transitions, and the in-memory \<^verbatim>\<open>LifecycleStore\<close> with all of its operations.

  The store's mutex makes each operation one atomic step on the state behind it, so an operation
  is a function from the store to the new store and the result.  \<^verbatim>\<open>now_ms()\<close> is an argument, one
  for each call of the clock.  Sequence numbers are \<^verbatim>\<open>u64\<close> and wrap, as in a release build.

  The second half states what makes the store correct: \<open>store_wf\<close>, kept by every operation, and
  the behaviour of each operation on every branch.
\<close>

subsection \<open>Data\<close>

record lifecycle_event =
  ev_task_id :: string
  ev_sequence :: u64
  ev_state :: string
  ev_is_final :: bool
  ev_observed_at_ms :: u64
  ev_detail :: json

record lifecycle_record =
  rec_task_id :: string
  rec_idempotency_key :: string
  rec_request_digest :: string
  rec_state :: string
  rec_events :: "lifecycle_event list"
  rec_updated_at_ms :: u64

record lifecycle_snapshot =
  snap_profile :: string
  snap_records :: "lifecycle_record list"

datatype lifecycle_error =
    Conflict string
  | UnknownTask
  | ResumeUnavailable string u64
  | Storage string

record lifecycle_store =
  st_records :: "(string, lifecycle_record) hmap"
  st_max_events :: nat
  st_terminal_status_ttl_ms :: u64

definition PROFILE :: string where
  "PROFILE = ''urn:iicp:profile:service-lifecycle:v1''"

definition latest_sequence :: "lifecycle_record \<Rightarrow> u64" where
  "latest_sequence r = (if rec_events r = [] then 0 else ev_sequence (last (rec_events r)))"

subsection \<open>The transition table\<close>

definition terminal :: "string \<Rightarrow> bool" where
  "terminal state \<longleftrightarrow>
     state \<in> set [''rejected'', ''completed'', ''failed'', ''cancelled'', ''expired'']"

definition legal_transition :: "string \<Rightarrow> string \<Rightarrow> bool" where
  "legal_transition from to =
    (if from = ''submitted'' then to \<in> set [''accepted'', ''rejected'', ''expired'']
     else if from = ''accepted'' then
       to \<in> set [''queued'', ''running'', ''completed'', ''cancelled'', ''failed'', ''expired'']
     else if from = ''queued'' then
       to \<in> set [''running'', ''waiting'', ''cancelled'', ''failed'', ''expired'']
     else if from = ''running'' then
       to \<in> set [''waiting'', ''streaming'', ''completed'', ''cancelled'', ''failed'', ''expired'']
     else if from = ''waiting'' then
       to \<in> set [''queued'', ''running'', ''cancelled'', ''failed'', ''expired'']
     else if from = ''streaming'' then
       to \<in> set [''streaming'', ''waiting'', ''completed'', ''cancelled'', ''failed'', ''expired'']
     else False)"

definition canonical_state :: "string \<Rightarrow> string" where
  "canonical_state requested = (if requested = ''timed_out'' then ''expired'' else requested)"

subsection \<open>The in-memory store\<close>

definition new_store :: "nat \<Rightarrow> u64 \<Rightarrow> lifecycle_store" where
  "new_store max_events ttl =
     \<lparr>st_records = [], st_max_events = max max_events 2, st_terminal_status_ttl_ms = ttl\<rparr>"

definition accepted_record :: "string \<Rightarrow> string \<Rightarrow> string \<Rightarrow> json \<Rightarrow> u64 \<Rightarrow> lifecycle_record" where
  "accepted_record task key digest detail now =
     \<lparr>rec_task_id = task, rec_idempotency_key = key, rec_request_digest = digest,
      rec_state = ''accepted'',
      rec_events = [\<lparr>ev_task_id = task, ev_sequence = 0, ev_state = ''accepted'',
                     ev_is_final = False, ev_observed_at_ms = now, ev_detail = detail\<rparr>],
      rec_updated_at_ms = now\<rparr>"

definition submit ::
    "string \<Rightarrow> string \<Rightarrow> string \<Rightarrow> u64 \<Rightarrow> lifecycle_store
      \<Rightarrow> lifecycle_store \<times> (lifecycle_error + lifecycle_record \<times> bool)" where
  "submit task key digest now s =
    (case hget (st_records s) task of
       Some existing \<Rightarrow>
         (if rec_idempotency_key existing \<noteq> key \<or> rec_request_digest existing \<noteq> digest
          then (s, Inl (Conflict ''task or idempotency identifier reused for different content''))
          else (s, Inr (existing, False)))
     | None \<Rightarrow>
         (if \<exists>r \<in> set (hvals (st_records s)). rec_idempotency_key r = key
          then (s, Inl (Conflict ''idempotency identifier reused with a different task identifier''))
          else let r = accepted_record task key digest JNull now
               in (s\<lparr>st_records := hput task r (st_records s)\<rparr>, Inr (r, True))))"

definition record_expired :: "u64 \<Rightarrow> u64 \<Rightarrow> lifecycle_record \<Rightarrow> bool" where
  "record_expired now ttl r \<longleftrightarrow> terminal (rec_state r) \<and> sat_sub now (rec_updated_at_ms r) > ttl"

definition status ::
    "string \<Rightarrow> u64 \<Rightarrow> lifecycle_store \<Rightarrow> lifecycle_store \<times> (lifecycle_error + lifecycle_record)" where
  "status task now s =
    (let expired = (case hget (st_records s) task of
                      Some r \<Rightarrow> record_expired now (st_terminal_status_ttl_ms s) r
                    | None \<Rightarrow> False);
         s' = (if expired then s\<lparr>st_records := hdel task (st_records s)\<rparr> else s)
     in (s', case hget (st_records s') task of Some r \<Rightarrow> Inr r | None \<Rightarrow> Inl UnknownTask))"

definition next_event :: "string \<Rightarrow> u64 \<Rightarrow> string \<Rightarrow> u64 \<Rightarrow> json \<Rightarrow> lifecycle_event" where
  "next_event task latest state now detail =
     \<lparr>ev_task_id = task, ev_sequence = latest + 1, ev_state = state, ev_is_final = terminal state,
      ev_observed_at_ms = now, ev_detail = detail\<rparr>"

definition illegal_transition :: "string \<Rightarrow> string \<Rightarrow> lifecycle_error" where
  "illegal_transition from to = Conflict (''illegal transition '' @ from @ '' -> '' @ to)"

definition transition ::
    "string \<Rightarrow> string \<Rightarrow> json \<Rightarrow> u64 \<Rightarrow> lifecycle_store
      \<Rightarrow> lifecycle_store \<times> (lifecycle_error + lifecycle_event)" where
  "transition task requested detail now s =
    (case hget (st_records s) task of
       None \<Rightarrow> (s, Inl UnknownTask)
     | Some r \<Rightarrow>
         let state = canonical_state requested
         in if \<not> legal_transition (rec_state r) state
            then (s, Inl (illegal_transition (rec_state r) state))
            else
              let event = next_event task (latest_sequence r) state now detail;
                  pushed = rec_events r @ [event];
                  kept = (if length pushed > st_max_events s
                          then drop (length pushed - st_max_events s) pushed else pushed);
                  r' = r\<lparr>rec_events := kept, rec_state := state, rec_updated_at_ms := now\<rparr>
              in (s\<lparr>st_records := hput task r' (st_records s)\<rparr>, Inr event))"

definition cancel ::
    "string \<Rightarrow> u64 \<Rightarrow> u64 \<Rightarrow> u64 \<Rightarrow> lifecycle_store
      \<Rightarrow> lifecycle_store \<times> (lifecycle_error + lifecycle_record)" where
  "cancel task now1 now2 now3 s =
    (case status task now1 s of
       (s1, Inl e) \<Rightarrow> (s1, Inl e)
     | (s1, Inr current) \<Rightarrow>
         if terminal (rec_state current) then status task now3 s1
         else (case transition task ''cancelled'' (JObj [(''outcome'', JStr ''cancelled'')]) now2 s1 of
                 (s2, Inl e) \<Rightarrow> (s2, Inl e)
               | (s2, Inr _) \<Rightarrow> status task now3 s2))"

text \<open>The part of \<^verbatim>\<open>events_after\<close> below the status lookup; the SQLite adapter has the same lines.\<close>

definition first_sequence :: "lifecycle_record \<Rightarrow> u64" where
  "first_sequence r = (if rec_events r = [] then 0 else ev_sequence (hd (rec_events r)))"

definition replay_from :: "lifecycle_record \<Rightarrow> int \<Rightarrow> lifecycle_error + lifecycle_event list" where
  "replay_from r after =
    (if 0 \<le> after \<and> sat_add (word_of_int after) 1 < first_sequence r
     then Inl (ResumeUnavailable (rec_state r) (latest_sequence r))
     else Inr (filter (\<lambda>e. sint (ev_sequence e) > after) (rec_events r)))"

definition events_after ::
    "string \<Rightarrow> int \<Rightarrow> u64 \<Rightarrow> lifecycle_store
      \<Rightarrow> lifecycle_store \<times> (lifecycle_error + lifecycle_event list)" where
  "events_after task after now s =
    (case status task now s of
       (s', Inl e) \<Rightarrow> (s', Inl e)
     | (s', Inr r) \<Rightarrow> (s', replay_from r after))"

definition events_after_bounded ::
    "string \<Rightarrow> int \<Rightarrow> nat \<Rightarrow> u64 \<Rightarrow> lifecycle_store
      \<Rightarrow> lifecycle_store \<times> (lifecycle_error + lifecycle_event list)" where
  "events_after_bounded task after limit now s =
    (case events_after task after now s of
       (s', Inl e) \<Rightarrow> (s', Inl e)
     | (s', Inr evs) \<Rightarrow> (s', Inr (take (max limit 1) evs)))"

definition snapshot :: "lifecycle_store \<Rightarrow> lifecycle_snapshot" where
  "snapshot s = \<lparr>snap_profile = PROFILE, snap_records = hvals (st_records s)\<rparr>"

definition contiguous :: "lifecycle_event list \<Rightarrow> bool" where
  "contiguous evs \<longleftrightarrow> (\<forall>i < length evs. ev_sequence (evs ! i) = ev_sequence (hd evs) + of_nat i)"

fun restore_records ::
    "lifecycle_record list \<Rightarrow> (string, lifecycle_record) hmap
      \<Rightarrow> lifecycle_error + (string, lifecycle_record) hmap" where
  "restore_records [] m = Inr m"
| "restore_records (r # rs) m =
     (if rec_events r = [] \<or> \<not> contiguous (rec_events r)
      then Inl (Conflict ''invalid lifecycle snapshot sequence'')
      else restore_records rs (hput (rec_task_id r) r m))"

definition restore ::
    "lifecycle_snapshot \<Rightarrow> lifecycle_store \<Rightarrow> lifecycle_store \<times> (lifecycle_error + unit)" where
  "restore snap s =
    (if snap_profile snap \<noteq> PROFILE
     then (s, Inl (Conflict ''unsupported lifecycle snapshot profile''))
     else (case restore_records (snap_records snap) [] of
             Inl e \<Rightarrow> (s, Inl e)
           | Inr m \<Rightarrow> (s\<lparr>st_records := m\<rparr>, Inr ())))"


subsection \<open>Well-formed stores\<close>

text \<open>A record the store itself has built: it holds the newest events, at least one and at most
  \<open>max_events\<close>, numbered without a gap; the last one gives the record's state and is the only one
  that can be terminal; each step from one event to the next is in the transition table.\<close>

definition known_state :: "string \<Rightarrow> bool" where
  "known_state st \<longleftrightarrow> st \<in> set [''accepted'', ''queued'', ''running'', ''waiting'', ''streaming'',
     ''completed'', ''failed'', ''cancelled'', ''expired'']"

definition event_ok :: "string \<Rightarrow> lifecycle_event \<Rightarrow> bool" where
  "event_ok k e \<longleftrightarrow> ev_task_id e = k \<and> ev_is_final e = terminal (ev_state e) \<and> known_state (ev_state e)"

definition events_ok :: "string \<Rightarrow> lifecycle_event list \<Rightarrow> bool" where
  "events_ok k evs \<longleftrightarrow> contiguous evs \<and> (\<forall>e \<in> set evs. event_ok k e) \<and>
     (\<forall>e \<in> set (butlast evs). \<not> terminal (ev_state e)) \<and>
     successively (\<lambda>a b. legal_transition (ev_state a) (ev_state b)) evs"

definition record_wf :: "nat \<Rightarrow> string \<Rightarrow> lifecycle_record \<Rightarrow> bool" where
  "record_wf mx k r \<longleftrightarrow> rec_task_id r = k \<and> rec_events r \<noteq> [] \<and> length (rec_events r) \<le> mx \<and>
     events_ok k (rec_events r) \<and> ev_state (last (rec_events r)) = rec_state r"

definition keys_unique :: "(string, lifecycle_record) hmap \<Rightarrow> bool" where
  "keys_unique m \<longleftrightarrow> (\<forall>k k' r r'. hget m k = Some r \<longrightarrow> hget m k' = Some r' \<longrightarrow>
     rec_idempotency_key r = rec_idempotency_key r' \<longrightarrow> k = k')"

definition store_wf :: "lifecycle_store \<Rightarrow> bool" where
  "store_wf s \<longleftrightarrow> hwf (st_records s) \<and> 2 \<le> st_max_events s \<and> keys_unique (st_records s) \<and>
     (\<forall>k r. hget (st_records s) k = Some r \<longrightarrow> record_wf (st_max_events s) k r)"

lemma store_wf_record: "store_wf s \<Longrightarrow> hget (st_records s) k = Some r \<Longrightarrow> record_wf (st_max_events s) k r"
  by (simp add: store_wf_def)

lemma store_wf_hwf: "store_wf s \<Longrightarrow> hwf (st_records s)"
  by (simp add: store_wf_def)

lemma store_wf_keys: "store_wf s \<Longrightarrow> keys_unique (st_records s)"
  by (simp add: store_wf_def)

subsubsection \<open>The transition table\<close>

lemma terminal_no_transition: "terminal a \<Longrightarrow> \<not> legal_transition a b"
  by (auto simp: terminal_def legal_transition_def)

lemma legal_transition_known: "legal_transition a b \<Longrightarrow> known_state a \<Longrightarrow> known_state b"
  by (auto simp: legal_transition_def known_state_def split: if_splits)

lemma live_can_cancel: "known_state a \<Longrightarrow> \<not> terminal a \<Longrightarrow> legal_transition a ''cancelled''"
  by (auto simp: legal_transition_def known_state_def terminal_def)

lemma canonical_cancelled [simp]: "canonical_state ''cancelled'' = ''cancelled''"
  by (simp add: canonical_state_def)

lemma terminal_cancelled [simp]: "terminal ''cancelled''"
  by (simp add: terminal_def)

lemma accepted_state [simp]: "known_state ''accepted''" "\<not> terminal ''accepted''"
  by (simp_all add: known_state_def terminal_def)

subsubsection \<open>Event histories\<close>

lemma contiguousD: "contiguous evs \<Longrightarrow> i < length evs \<Longrightarrow>
    ev_sequence (evs ! i) = ev_sequence (hd evs) + of_nat i"
  by (simp add: contiguous_def)

lemma contiguous_drop:
  assumes "contiguous evs" shows "contiguous (drop n evs)"
  unfolding contiguous_def
proof (intro allI impI)
  fix i assume i: "i < length (drop n evs)"
  then have "ev_sequence (evs ! (n + i)) = ev_sequence (hd evs) + of_nat (n + i)"
    and "ev_sequence (evs ! n) = ev_sequence (hd evs) + of_nat n"
    using contiguousD [OF assms, of "n + i"] contiguousD [OF assms, of n] by simp_all
  with i show "ev_sequence (drop n evs ! i) = ev_sequence (hd (drop n evs)) + of_nat i"
    by (simp add: hd_drop_conv_nth)
qed

lemma contiguous_last:
  "contiguous evs \<Longrightarrow> evs \<noteq> [] \<Longrightarrow>
    ev_sequence (last evs) = ev_sequence (hd evs) + of_nat (length evs - 1)"
  by (simp add: contiguousD last_conv_nth)

lemma contiguous_snoc:
  assumes "contiguous evs" and "evs \<noteq> []" and "ev_sequence e = ev_sequence (last evs) + 1"
  shows "contiguous (evs @ [e])"
  unfolding contiguous_def
proof (intro allI impI)
  fix i assume "i < length (evs @ [e])"
  then consider "i < length evs" | "i = length evs" by fastforce
  then show "ev_sequence ((evs @ [e]) ! i) = ev_sequence (hd (evs @ [e])) + of_nat i"
  proof cases
    case 1
    with assms show ?thesis by (simp add: nth_append contiguousD)
  next
    case 2
    obtain n where "length evs = Suc n" using assms(2) by (cases evs) auto
    with 2 assms contiguous_last [OF assms(1,2)] show ?thesis
      by (simp add: nth_append)
  qed
qed

lemma events_ok_drop:
  assumes "events_ok k evs" shows "events_ok k (drop n evs)"
proof -
  have "set (drop n evs) \<subseteq> set evs" and "set (butlast (drop n evs)) \<subseteq> set (butlast evs)"
    by (simp_all add: set_drop_subset butlast_drop)
  with assms show ?thesis
    unfolding events_ok_def using contiguous_drop successively_drop by blast
qed

lemma events_ok_snoc:
  assumes "events_ok k evs" and "evs \<noteq> []" and "event_ok k e"
    and "ev_sequence e = ev_sequence (last evs) + 1"
    and legal: "legal_transition (ev_state (last evs)) (ev_state e)"
  shows "events_ok k (evs @ [e])"
proof -
  have "\<not> terminal (ev_state (last evs))"
    using legal terminal_no_transition by blast
  then have "\<forall>x \<in> set evs. \<not> terminal (ev_state x)"
    using assms(1) by (simp add: events_ok_def set_butlast_last [OF assms(2)])
  with assms show ?thesis
    by (simp add: events_ok_def contiguous_snoc successively_append_iff)
qed

lemma events_ok_single: "event_ok k e \<Longrightarrow> events_ok k [e]"
  by (simp add: events_ok_def contiguous_def)

lemma accepted_record_wf: "2 \<le> mx \<Longrightarrow> record_wf mx k (accepted_record k key digest d now)"
  by (simp add: record_wf_def accepted_record_def events_ok_single event_ok_def)

lemma record_wf_known: "record_wf mx k r \<Longrightarrow> known_state (rec_state r)"
  unfolding record_wf_def events_ok_def event_ok_def by (metis last_in_set)

text \<open>What \<open>transition\<close> stores for a record.\<close>

definition advance :: "nat \<Rightarrow> string \<Rightarrow> lifecycle_event \<Rightarrow> u64 \<Rightarrow> lifecycle_record \<Rightarrow> lifecycle_record" where
  "advance mx state event now r =
     r\<lparr>rec_events := keep_last mx (rec_events r @ [event]), rec_state := state,
       rec_updated_at_ms := now\<rparr>"

lemma advance_wf:
  assumes wf: "record_wf mx k r" and mx: "2 \<le> mx" and legal: "legal_transition (rec_state r) st"
  shows "record_wf mx k (advance mx st (next_event k (latest_sequence r) st now d) now r)"
proof -
  let ?e = "next_event k (latest_sequence r) st now d"
  have "known_state (rec_state r)"
    using wf by (rule record_wf_known)
  with legal have "event_ok k ?e"
    by (auto simp: event_ok_def next_event_def legal_transition_known)
  with wf legal have "events_ok k (rec_events r @ [?e])"
    by (intro events_ok_snoc) (auto simp: record_wf_def next_event_def latest_sequence_def)
  then have "events_ok k (keep_last mx (rec_events r @ [?e]))"
    by (simp only: keep_last_def events_ok_drop)
  with wf mx show ?thesis
    by (simp add: record_wf_def advance_def keep_last_snoc_neq last_keep_last_snoc length_keep_last)
      (simp add: next_event_def)
qed

subsubsection \<open>Every operation keeps the store well-formed\<close>

lemma transition_cases:
  "transition task requested d now s =
    (case hget (st_records s) task of
       None \<Rightarrow> (s, Inl UnknownTask)
     | Some r \<Rightarrow>
         let state = canonical_state requested; event = next_event task (latest_sequence r) state now d
         in if legal_transition (rec_state r) state
            then (s\<lparr>st_records := hput task (advance (st_max_events s) state event now r) (st_records s)\<rparr>,
                  Inr event)
            else (s, Inl (illegal_transition (rec_state r) state)))"
  by (simp add: transition_def Let_def advance_def keep_last_def split: option.split)

lemma keys_uniqueD: "keys_unique m \<Longrightarrow> hget m k = Some r \<Longrightarrow> hget m k' = Some r' \<Longrightarrow>
    rec_idempotency_key r = rec_idempotency_key r' \<Longrightarrow> k = k'"
  by (simp add: keys_unique_def)

lemma keys_unique_hdel: "keys_unique m \<Longrightarrow> keys_unique (hdel k m)"
  by (auto simp: keys_unique_def hmap_simps split: if_splits)

lemma hput_key_view:
  assumes "hget (hput k r' m) a = Some x" and "hget m k = Some r"
    and "rec_idempotency_key r' = rec_idempotency_key r"
  obtains y where "hget m a = Some y" and "rec_idempotency_key y = rec_idempotency_key x"
  using assms by (cases "a = k") (simp_all add: hmap_simps)

lemma keys_unique_hput_same:
  assumes uniq: "keys_unique m" and same: "hget m k = Some r" "rec_idempotency_key r' = rec_idempotency_key r"
  shows "keys_unique (hput k r' m)"
  unfolding keys_unique_def
proof (intro allI impI)
  fix a b x y
  assume x: "hget (hput k r' m) a = Some x" and y: "hget (hput k r' m) b = Some y"
    and eq: "rec_idempotency_key x = rec_idempotency_key y"
  from hput_key_view [OF x same] obtain x' where
    x': "hget m a = Some x'" "rec_idempotency_key x' = rec_idempotency_key x" .
  from hput_key_view [OF y same] obtain y' where
    y': "hget m b = Some y'" "rec_idempotency_key y' = rec_idempotency_key y" .
  from keys_uniqueD [OF uniq x'(1) y'(1)] x'(2) y'(2) eq show "a = b" by simp
qed

lemma keys_unique_hput_new:
  assumes "keys_unique m" and "\<And>k' r. hget m k' = Some r \<Longrightarrow> rec_idempotency_key r \<noteq> rec_idempotency_key r'"
  shows "keys_unique (hput k r' m)"
  using assms unfolding keys_unique_def
  by (simp add: hmap_simps) (metis option.inject)

lemma store_wf_hdel: "store_wf s \<Longrightarrow> store_wf (s\<lparr>st_records := hdel k (st_records s)\<rparr>)"
  by (simp add: store_wf_def keys_unique_hdel)

lemma store_wf_hput:
  assumes "store_wf s" and "record_wf (st_max_events s) k r" and "keys_unique (hput k r (st_records s))"
  shows "store_wf (s\<lparr>st_records := hput k r (st_records s)\<rparr>)"
  using assms by (simp add: store_wf_def)

lemma new_store_wf: "store_wf (new_store mx ttl)"
  by (simp add: new_store_def store_wf_def keys_unique_def)

lemma submit_wf:
  assumes "store_wf s" shows "store_wf (fst (submit task key digest now s))"
proof (cases "hget (st_records s) task")
  case (Some r)
  with assms show ?thesis by (simp add: submit_def)
next
  case None
  show ?thesis
  proof (cases "\<exists>r \<in> set (hvals (st_records s)). rec_idempotency_key r = key")
    case True
    with None assms show ?thesis by (simp add: submit_def)
  next
    case False
    let ?r = "accepted_record task key digest JNull now"
    have "keys_unique (hput task ?r (st_records s))"
      using False assms
      by (intro keys_unique_hput_new) (auto simp: store_wf_def accepted_record_def in_hvals_iff)
    with None False assms show ?thesis
      by (simp add: submit_def Let_def accepted_record_wf store_wf_def)
  qed
qed

lemma status_store:
  "fst (status task now s) = s \<or> fst (status task now s) = s\<lparr>st_records := hdel task (st_records s)\<rparr>"
  by (simp add: status_def Let_def)

lemma status_wf: "store_wf s \<Longrightarrow> store_wf (fst (status task now s))"
  by (metis status_store store_wf_hdel)

lemma transition_wf:
  assumes wf: "store_wf s" shows "store_wf (fst (transition task requested d now s))"
proof (cases "hget (st_records s) task")
  case None
  with wf show ?thesis by (simp add: transition_def)
next
  case (Some r)
  let ?st = "canonical_state requested"
  let ?r' = "advance (st_max_events s) ?st (next_event task (latest_sequence r) ?st now d) now r"
  show ?thesis
  proof (cases "legal_transition (rec_state r) ?st")
    case True
    have "record_wf (st_max_events s) task ?r'"
      using wf Some True by (intro advance_wf) (auto simp: store_wf_def)
    moreover have "keys_unique (hput task ?r' (st_records s))"
      using wf Some by (intro keys_unique_hput_same [of _ _ r]) (auto simp: store_wf_def advance_def)
    ultimately show ?thesis
      using wf Some True by (simp add: transition_cases Let_def store_wf_hput)
  next
    case False
    with wf Some show ?thesis by (simp add: transition_cases Let_def)
  qed
qed

text \<open>The operations as steps of one machine.  \<open>cancel\<close> takes the lock three times, so other tasks'
  operations can run in between; its three parts are themselves steps of this machine.\<close>

datatype lc_op =
    OpSubmit string string string u64
  | OpStatus string u64
  | OpTransition string string json u64
  | OpCancel string u64 u64 u64
  | OpEventsAfter string int u64

primrec lc_step :: "lc_op \<Rightarrow> lifecycle_store \<Rightarrow> lifecycle_store" where
  "lc_step (OpSubmit t k d n) s = fst (submit t k d n s)"
| "lc_step (OpStatus t n) s = fst (status t n s)"
| "lc_step (OpTransition t st d n) s = fst (transition t st d n s)"
| "lc_step (OpCancel t n1 n2 n3) s = fst (cancel t n1 n2 n3 s)"
| "lc_step (OpEventsAfter t a n) s = fst (events_after t a n s)"

lemma fst_events_after: "fst (events_after t a n s) = fst (status t n s)"
  by (simp add: events_after_def split: prod.split sum.split)

lemma cancel_inv:
  assumes "\<And>n x. P x \<Longrightarrow> P (fst (status t n x))" and "\<And>st d n x. P x \<Longrightarrow> P (fst (transition t st d n x))"
    and "P s"
  shows "P (fst (cancel t n1 n2 n3 s))"
proof -
  obtain s1 res where s1: "status t n1 s = (s1, res)" by fastforce
  obtain s2 res2 where s2: "transition t ''cancelled'' (JObj [(''outcome'', JStr ''cancelled'')]) n2 s1 = (s2, res2)"
    by fastforce
  have "P s1" using assms(1) [OF assms(3), of n1] by (simp add: s1)
  moreover from this have "P s2"
    using assms(2) [of s1 "''cancelled''" "JObj [(''outcome'', JStr ''cancelled'')]" n2] by (simp add: s2)
  ultimately show ?thesis
    using assms(1) by (simp add: cancel_def s1 s2 split: sum.split)
qed

lemma cancel_wf: "store_wf s \<Longrightarrow> store_wf (fst (cancel t n1 n2 n3 s))"
  by (rule cancel_inv) (simp_all add: status_wf transition_wf)

lemma lc_step_wf: "store_wf s \<Longrightarrow> store_wf (lc_step e s)"
  by (cases e) (simp_all add: submit_wf status_wf transition_wf cancel_wf fst_events_after)

interpretation lc: step_system lc_step store_wf
  by unfold_locales (rule lc_step_wf)

lemma status_expired:
  "hget (st_records s) t = Some r \<Longrightarrow> record_expired now (st_terminal_status_ttl_ms s) r \<Longrightarrow>
    status t now s = (s\<lparr>st_records := hdel t (st_records s)\<rparr>, Inl UnknownTask)"
  by (simp add: status_def)

lemma status_live:
  "hget (st_records s) t = Some r \<Longrightarrow> \<not> record_expired now (st_terminal_status_ttl_ms s) r \<Longrightarrow>
    status t now s = (s, Inr r)"
  by (simp add: status_def)

lemma status_unknown: "hget (st_records s) t = None \<Longrightarrow> status t now s = (s, Inl UnknownTask)"
  by (simp add: status_def)

lemma status_frame: "t' \<noteq> t \<Longrightarrow> hget (st_records (fst (status t now s))) t' = hget (st_records s) t'"
  by (simp add: status_def Let_def)

lemma contiguous_seqs:
  assumes "contiguous evs" and "unat (ev_sequence (hd evs)) + length evs \<le> 2 ^ 64"
  shows "map (\<lambda>e. unat (ev_sequence e)) evs =
     [unat (ev_sequence (hd evs))..<unat (ev_sequence (hd evs)) + length evs]"
proof (rule nth_equalityI)
  fix i assume "i < length (map (\<lambda>e. unat (ev_sequence e)) evs)"
  then have i: "i < length evs" by simp
  with assms(2) have "unat (ev_sequence (hd evs)) + i < 2 ^ LENGTH(64)" by simp
  then have "unat (ev_sequence (hd evs) + of_nat i) = unat (ev_sequence (hd evs)) + i"
    by (rule unat_add_of_nat)
  with i show "map (\<lambda>e. unat (ev_sequence e)) evs ! i =
      [unat (ev_sequence (hd evs))..<unat (ev_sequence (hd evs)) + length evs] ! i"
    by (simp add: contiguousD [OF assms(1)])
qed simp

lemma last_sequence_nat:
  assumes "contiguous evs" and "evs \<noteq> []" and "unat (ev_sequence (hd evs)) + length evs \<le> 2 ^ 64"
  shows "Suc (unat (ev_sequence (last evs))) = unat (ev_sequence (hd evs)) + length evs"
proof -
  have "unat (ev_sequence (hd evs)) + (length evs - 1) < 2 ^ LENGTH(64)"
    using assms(2,3) by (cases evs) auto
  then have "unat (ev_sequence (hd evs) + of_nat (length evs - 1)) =
      unat (ev_sequence (hd evs)) + (length evs - 1)"
    by (rule unat_add_of_nat)
  with contiguous_last [OF assms(1,2)] assms(2) show ?thesis by (cases evs) auto
qed

lemma replay_from_seqs:
  assumes wf: "record_wf mx t r" and n: "0 \<le> n" "n < 2 ^ 63"
    and small: "unat (first_sequence r) + length (rec_events r) \<le> 2 ^ 63"
  shows "case replay_from r n of
      Inl e \<Rightarrow> e = ResumeUnavailable (rec_state r) (latest_sequence r) \<and> Suc (nat n) < unat (first_sequence r)
    | Inr evs \<Rightarrow> set evs \<subseteq> set (rec_events r) \<and>
        map (\<lambda>e. unat (ev_sequence e)) evs = [Suc (nat n)..<Suc (unat (latest_sequence r))]"
proof (cases "Suc (nat n) < unat (first_sequence r)")
  case True
  with n show ?thesis by (simp add: replay_from_def sat_add_1_less)
next
  case False
  let ?evs = "rec_events r"
  have ne: "?evs \<noteq> []" and c: "contiguous ?evs"
    using wf by (simp_all add: record_wf_def events_ok_def)
  have first: "first_sequence r = ev_sequence (hd ?evs)"
    and latest: "latest_sequence r = ev_sequence (last ?evs)"
    using ne by (simp_all add: first_sequence_def latest_sequence_def)
  have end_: "Suc (unat (latest_sequence r)) = unat (first_sequence r) + length ?evs"
    using last_sequence_nat [OF c ne] small by (simp add: first latest)
  have seqs: "map (\<lambda>e. unat (ev_sequence e)) ?evs =
      [unat (first_sequence r)..<Suc (unat (latest_sequence r))]"
    using contiguous_seqs [OF c] small unfolding end_ by (simp add: first)
  have "sint (ev_sequence e) > n \<longleftrightarrow> nat n < unat (ev_sequence e)" if "e \<in> set ?evs" for e
  proof -
    have "unat (ev_sequence e) \<in> set (map (\<lambda>e. unat (ev_sequence e)) ?evs)"
      using that by simp
    then have "unat (ev_sequence e) < Suc (unat (latest_sequence r))"
      unfolding seqs by (simp only: set_upt atLeastLessThan_iff)
    then have "unat (ev_sequence e) < 2 ^ 63"
      using small end_ by linarith
    then show ?thesis using n(1) by (rule sint_greater_iff)
  qed
  then have "filter (\<lambda>e. sint (ev_sequence e) > n) ?evs = filter (\<lambda>e. nat n < unat (ev_sequence e)) ?evs"
    by (rule filter_cong [OF refl])
  then have "map (\<lambda>e. unat (ev_sequence e)) (filter (\<lambda>e. sint (ev_sequence e) > n) ?evs) =
      filter (\<lambda>x. nat n < x) (map (\<lambda>e. unat (ev_sequence e)) ?evs)"
    by (simp add: filter_map o_def)
  also have "\<dots> = [Suc (nat n)..<Suc (unat (latest_sequence r))]"
    unfolding seqs filter_greater_upt using False by (simp only: max_def) simp
  finally show ?thesis
    using False n by (auto simp: replay_from_def sat_add_1_less)
qed

lemma events_after_live:
  "hget (st_records s) t = Some r \<Longrightarrow> \<not> record_expired now (st_terminal_status_ttl_ms s) r \<Longrightarrow>
    events_after t n now s = (s, replay_from r n)"
  by (simp add: events_after_def status_live)

lemma transition_terminal:
  "hget (st_records s) t = Some r \<Longrightarrow> terminal (rec_state r) \<Longrightarrow>
    transition t req d now s = (s, Inl (illegal_transition (rec_state r) (canonical_state req)))"
  by (simp add: transition_def terminal_no_transition Let_def)

lemma status_terminal_frame:
  "hget (st_records s) t \<in> {None, Some r} \<Longrightarrow> hget (st_records (fst (status t' now s))) t \<in> {None, Some r}"
  using status_store [of t' now s] by (cases "t' = t") auto

lemma transition_terminal_frame:
  assumes "hget (st_records s) t \<in> {None, Some r}" and "terminal (rec_state r)"
  shows "hget (st_records (fst (transition t' req d now s))) t \<in> {None, Some r}"
proof (cases "t' = t")
  case True
  with assms show ?thesis by (auto simp: transition_terminal) (simp add: transition_def)
next
  case False
  with assms show ?thesis
    by (simp add: transition_cases Let_def split: option.split)
qed

primrec submits :: "string \<Rightarrow> lc_op \<Rightarrow> bool" where
  "submits t (OpSubmit t' k d n) \<longleftrightarrow> t' = t"
| "submits t (OpStatus t' n) \<longleftrightarrow> False"
| "submits t (OpTransition t' st d n) \<longleftrightarrow> False"
| "submits t (OpCancel t' n1 n2 n3) \<longleftrightarrow> False"
| "submits t (OpEventsAfter t' a n) \<longleftrightarrow> False"

lemma submit_frame: "t' \<noteq> t \<Longrightarrow> hget (st_records (fst (submit t' k d n s))) t = hget (st_records s) t"
  by (simp add: submit_def Let_def split: option.split)

lemma lc_step_terminal_frame:
  assumes "\<not> submits t e" and tr: "terminal (rec_state r)" and "hget (st_records s) t \<in> {None, Some r}"
  shows "hget (st_records (lc_step e s)) t \<in> {None, Some r}"
  using assms
proof (cases e)
  case (OpCancel t' n1 n2 n3)
  have "hget (st_records (fst (cancel t' n1 n2 n3 s))) t \<in> {None, Some r}"
    using status_terminal_frame transition_terminal_frame [OF _ tr] assms(3) by (rule cancel_inv)
  with OpCancel show ?thesis by (simp only: lc_step.simps)
qed (simp_all only: lc_step.simps submits.simps submit_frame status_terminal_frame
      transition_terminal_frame fst_events_after simp_thms)

subsection \<open>Properties\<close>






text \<open>C29. Identifiers are never rebound: a submission that shares its task identifier or its idempotency
  key with a stored record, but is not that record's own submission, is refused as a conflict and
  changes nothing.\<close>

theorem submit_conflict:
  assumes wf: "store_wf s" and r: "hget (st_records s) t0 = Some r"
    and shared: "t = t0 \<or> k = rec_idempotency_key r"
    and differs: "(t, k, d) \<noteq> (t0, rec_idempotency_key r, rec_request_digest r)"
  shows "\<exists>m. submit t k d now s = (s, Inl (Conflict m))"
proof (cases "hget (st_records s) t")
  case None
  then have "k = rec_idempotency_key r" using shared r by auto
  then have "\<exists>x \<in> set (hvals (st_records s)). rec_idempotency_key x = k"
    using wf r by (intro bexI [of _ r]) (auto simp: store_wf_def in_hvals_iff)
  with None show ?thesis by (simp add: submit_def)
next
  case (Some x)
  have "rec_idempotency_key x \<noteq> k \<or> rec_request_digest x \<noteq> d"
  proof (cases "t = t0")
    case True
    with Some r differs show ?thesis by auto
  next
    case False
    then have "rec_idempotency_key x \<noteq> rec_idempotency_key r"
      using keys_uniqueD [OF _ Some r] wf by (auto simp only: store_wf_def)
    with False shared show ?thesis by simp
  qed
  with Some show ?thesis by (simp add: submit_def)
qed

theorem submit_conflict_witness:
  "\<exists>m. submit ''t2'' ''k'' ''d'' 9 (fst (submit ''t'' ''k'' ''d'' 5 (new_store 4 10))) =
     (fst (submit ''t'' ''k'' ''d'' 5 (new_store 4 10)), Inl (Conflict m))"
proof -
  let ?s = "fst (submit ''t'' ''k'' ''d'' 5 (new_store 4 10))"
  have "hget (st_records ?s) ''t'' = Some (accepted_record ''t'' ''k'' ''d'' JNull 5)"
    by (simp add: submit_def new_store_def hvals_def Let_def)
  then show ?thesis
    by (intro submit_conflict [of ?s "''t''" "accepted_record ''t'' ''k'' ''d'' JNull 5" "''t2''"] submit_wf new_store_wf)
      (simp_all add: accepted_record_def)
qed

text \<open>Resuming an event stream loses nothing: asked for the events after \<open>n\<close>, the store either
  returns retained events numbered exactly \<open>n + 1\<close> up to the latest, in order, or says that the
  next one is gone, together with the current state and the latest number.\<close>

theorem events_after_complete:
  assumes "store_wf s" and "hget (st_records s) t = Some r"
    and "\<not> record_expired now (st_terminal_status_ttl_ms s) r"
    and "0 \<le> n" and "n < 2 ^ 63"
    and "unat (first_sequence r) + length (rec_events r) \<le> 2 ^ 63"
  shows "fst (events_after t n now s) = s \<and>
    (case snd (events_after t n now s) of
      Inl e \<Rightarrow> e = ResumeUnavailable (rec_state r) (latest_sequence r) \<and> Suc (nat n) < unat (first_sequence r)
    | Inr evs \<Rightarrow> set evs \<subseteq> set (rec_events r) \<and>
        map (\<lambda>e. unat (ev_sequence e)) evs = [Suc (nat n)..<Suc (unat (latest_sequence r))])"
  using replay_from_seqs [OF store_wf_record [OF assms(1,2)] assms(4-6)]
  by (simp add: events_after_live [OF assms(2,3)])

theorem events_after_complete_witness:
  "let s = fold lc_step [OpSubmit ''t'' ''k'' ''d'' 5, OpTransition ''t'' ''running'' JNull 6,
                         OpTransition ''t'' ''completed'' JNull 7] (new_store 2 100);
       r = the (hget (st_records s) ''t'')
   in fst (events_after ''t'' 1 8 s) = s \<and>
    (case snd (events_after ''t'' 1 8 s) of
      Inl e \<Rightarrow> e = ResumeUnavailable (rec_state r) (latest_sequence r) \<and> Suc (nat 1) < unat (first_sequence r)
    | Inr evs \<Rightarrow> set evs \<subseteq> set (rec_events r) \<and>
        map (\<lambda>e. unat (ev_sequence e)) evs = [Suc (nat 1)..<Suc (unat (latest_sequence r))])"
  unfolding Let_def
proof (rule events_after_complete)
  show "store_wf (fold lc_step [OpSubmit ''t'' ''k'' ''d'' 5, OpTransition ''t'' ''running'' JNull 6,
                         OpTransition ''t'' ''completed'' JNull 7] (new_store 2 100))"
    by (rule lc.run_inv) (rule new_store_wf)
qed (simp_all add: submit_def new_store_def hvals_def accepted_record_def transition_cases
    canonical_state_def legal_transition_def advance_def keep_last_def next_event_def
    latest_sequence_def record_expired_def first_sequence_def sat_sub_def terminal_def Let_def)

text \<open>Cancelling a task ends it: when no other operation intervenes, \<open>cancel\<close> never runs into a
  conflict, and a record it returns is terminal.\<close>

theorem cancel_ends_terminal:
  assumes "store_wf s"
  shows "case snd (cancel t n1 n2 n3 s) of Inl e \<Rightarrow> e = UnknownTask | Inr r \<Rightarrow> terminal (rec_state r)"
proof (cases "hget (st_records s) t")
  case None
  then show ?thesis by (simp add: cancel_def status_unknown)
next
  case (Some r)
  show ?thesis
  proof (cases "record_expired n1 (st_terminal_status_ttl_ms s) r")
    case True
    with Some show ?thesis by (simp add: cancel_def status_expired)
  next
    case False
    show ?thesis
    proof (cases "terminal (rec_state r)")
      case True
      with Some False show ?thesis
        by (cases "record_expired n3 (st_terminal_status_ttl_ms s) r")
          (simp_all add: cancel_def status_live status_expired)
    next
      case live: False
      have "legal_transition (rec_state r) ''cancelled''"
        using live record_wf_known [OF store_wf_record [OF assms Some]] by (simp add: live_can_cancel)
      with Some False live show ?thesis
        by (simp add: cancel_def status_live transition_cases Let_def status_def advance_def
            split: option.split)
    qed
  qed
qed

theorem cancel_ends_terminal_witness:
  "case snd (cancel ''t'' 6 7 8 (fst (submit ''t'' ''k'' ''d'' 5 (new_store 4 10)))) of
     Inl e \<Rightarrow> e = UnknownTask | Inr r \<Rightarrow> terminal (rec_state r)"
  by (rule cancel_ends_terminal) (simp add: submit_wf new_store_wf)

lemma restore_records_ok:
  assumes "\<forall>r \<in> set rs. rec_events r \<noteq> [] \<and> contiguous (rec_events r)"
  shows "restore_records rs m = Inr (fold (\<lambda>r. hput (rec_task_id r) r) rs m)"
  using assms by (induction rs arbitrary: m) auto

lemma map_of_fold_hput:
  assumes "\<forall>(k, r) \<in> set al. rec_task_id r = k" and "distinct (map fst al)"
  shows "map_of (fold (\<lambda>r. hput (rec_task_id r) r) (map snd al) m) = map_of m ++ map_of al"
  using assms
proof (induction al arbitrary: m)
  case (Cons a al)
  obtain k r where a: "a = (k, r)" by fastforce
  with Cons.prems have "map_of al k = None" and k: "rec_task_id r = k"
    by (simp_all add: map_of_eq_None_iff)
  then have "map_of (hput k r m) ++ map_of al = map_of m ++ map_of (a # al)"
    by (auto simp: a map_add_def fun_eq_iff split: option.split)
  moreover have "map_of (fold (\<lambda>r. hput (rec_task_id r) r) (map snd al) (hput k r m)) =
      map_of (hput k r m) ++ map_of al"
    using Cons by simp
  ultimately show ?case by (simp only: a k list.map fold_simps snd_conv)
qed simp

text \<open>C27. Persistence round trip: restoring a snapshot of a well-formed store succeeds and gives back every
  record under its task identifier, and nothing else.\<close>

theorem snapshot_restore:
  assumes "store_wf s"
  shows "\<exists>s'. restore (snapshot s) s0 = (s', Inr ()) \<and> map_of (st_records s') = map_of (st_records s)"
proof -
  have "\<forall>(k, r) \<in> set (st_records s). record_wf (st_max_events s) k r"
    using assms by (auto simp: store_wf_def hwf_def)
  then have "\<forall>r \<in> set (hvals (st_records s)). rec_events r \<noteq> [] \<and> contiguous (rec_events r)"
    and "\<forall>(k, r) \<in> set (st_records s). rec_task_id r = k"
    by (auto simp: hvals_def record_wf_def events_ok_def)
  then have "restore_records (hvals (st_records s)) [] =
      Inr (fold (\<lambda>r. hput (rec_task_id r) r) (map snd (st_records s)) [])"
    and "map_of (fold (\<lambda>r. hput (rec_task_id r) r) (map snd (st_records s)) []) = map_of (st_records s)"
    using assms restore_records_ok map_of_fold_hput [of "st_records s" "[]"]
    by (simp_all add: hvals_def store_wf_def hwf_def)
  then show ?thesis
    by (simp add: restore_def snapshot_def)
qed

theorem snapshot_restore_witness:
  "\<exists>s'. restore (snapshot (fst (submit ''t'' ''k'' ''d'' 5 (new_store 4 10)))) (new_store 4 10) = (s', Inr ()) \<and>
     map_of (st_records s') = map_of (st_records (fst (submit ''t'' ''k'' ''d'' 5 (new_store 4 10))))"
  by (rule snapshot_restore) (simp add: submit_wf new_store_wf)

end
