(* ===== verification/Observer.thy ===== *)
theory Observer
  imports Lifecycle
begin

text \<open>
  \<^verbatim>\<open>BoundedObserverBuffer\<close> of \<^verbatim>\<open>src/service_lifecycle.rs\<close>: a bounded queue of lifecycle events shared by a
  bounded set of observers.  The set of observers is a list without repetition.  \<^verbatim>\<open>publish\<close> trims
  with a loop that pops the front while the queue is too long; the loop is \<open>trim_front\<close>.
\<close>

record observer_state =
  ob_events :: "lifecycle_event list"
  ob_observers :: "string list"
  ob_closed :: bool

record observer_buffer =
  ob_state :: observer_state
  ob_capacity :: nat
  ob_max_observers :: nat

record observer_lagged =
  lag_earliest_available :: u64
  lag_latest_sequence :: u64

definition new_buffer :: "nat \<Rightarrow> nat \<Rightarrow> observer_buffer" where
  "new_buffer capacity max_observers =
     \<lparr>ob_state = \<lparr>ob_events = [], ob_observers = [], ob_closed = False\<rparr>,
      ob_capacity = max capacity 1, ob_max_observers = max max_observers 1\<rparr>"

definition subscribe :: "string \<Rightarrow> observer_buffer \<Rightarrow> observer_buffer \<times> (lifecycle_error + unit)" where
  "subscribe observer b =
    (let st = ob_state b in
     if observer \<notin> set (ob_observers st) \<and> length (ob_observers st) \<ge> ob_max_observers b
     then (b, Inl (Conflict ''observer capacity exhausted''))
     else (b\<lparr>ob_state := st\<lparr>ob_observers := List.insert observer (ob_observers st)\<rparr>\<rparr>, Inr ()))"

definition disconnect :: "string \<Rightarrow> observer_buffer \<Rightarrow> observer_buffer" where
  "disconnect observer b =
     b\<lparr>ob_state := (ob_state b)\<lparr>ob_observers := removeAll observer (ob_observers (ob_state b))\<rparr>\<rparr>"

function trim_front :: "nat \<Rightarrow> 'a list \<Rightarrow> 'a list" where
  "trim_front capacity q = (if length q > capacity then trim_front capacity (tl q) else q)"
  by pat_completeness auto
termination
  by (relation "measure (\<lambda>(capacity, q). length q)") auto

declare trim_front.simps [simp del]

definition publish :: "lifecycle_event \<Rightarrow> observer_buffer \<Rightarrow> observer_buffer \<times> (lifecycle_error + unit)" where
  "publish event b =
    (let st = ob_state b in
     if ob_events st \<noteq> [] \<and> ev_sequence event \<le> ev_sequence (last (ob_events st))
     then (b, Inl (Conflict ''observer sequence must increase''))
     else (b\<lparr>ob_state := st\<lparr>ob_events := trim_front (ob_capacity b) (ob_events st @ [event]),
                            ob_closed := ev_is_final event\<rparr>\<rparr>, Inr ()))"

definition poll :: "u64 \<Rightarrow> observer_buffer \<Rightarrow> observer_lagged + lifecycle_event list" where
  "poll after b =
    (let evs = ob_events (ob_state b) in
     if evs \<noteq> [] \<and> sat_add after 1 < ev_sequence (hd evs)
     then Inl \<lparr>lag_earliest_available = ev_sequence (hd evs), lag_latest_sequence = ev_sequence (last evs)\<rparr>
     else Inr (filter (\<lambda>e. ev_sequence e > after) evs))"

definition observer_count :: "observer_buffer \<Rightarrow> nat" where
  "observer_count b = length (ob_observers (ob_state b))"

definition is_closed :: "observer_buffer \<Rightarrow> bool" where
  "is_closed b = ob_closed (ob_state b)"

subsection \<open>The trimming loop\<close>

lemma trim_front_eq: "trim_front n q = keep_last n q"
proof (induction n q rule: trim_front.induct)
  case (1 n q)
  show ?case
  proof (cases "length q > n")
    case True
    then obtain x q' where q: "q = x # q'" by (cases q) auto
    with 1 True show ?thesis
      by (simp add: trim_front.simps [of n "x # q'"] keep_last_def Suc_diff_le)
  next
    case False
    then show ?thesis by (simp add: trim_front.simps [of n q] keep_last_def)
  qed
qed

subsection \<open>Well-formed buffers\<close>

definition increasing :: "lifecycle_event list \<Rightarrow> bool" where
  "increasing evs \<longleftrightarrow> sorted_wrt (<) (map ev_sequence evs)"

definition buffer_wf :: "observer_buffer \<Rightarrow> bool" where
  "buffer_wf b \<longleftrightarrow> 1 \<le> ob_capacity b \<and> 1 \<le> ob_max_observers b \<and>
     length (ob_events (ob_state b)) \<le> ob_capacity b \<and> increasing (ob_events (ob_state b)) \<and>
     distinct (ob_observers (ob_state b)) \<and> observer_count b \<le> ob_max_observers b \<and>
     ob_closed (ob_state b) = (ob_events (ob_state b) \<noteq> [] \<and> ev_is_final (last (ob_events (ob_state b))))"

datatype ob_op = ObSubscribe string | ObDisconnect string | ObPublish lifecycle_event

primrec ob_step :: "ob_op \<Rightarrow> observer_buffer \<Rightarrow> observer_buffer" where
  "ob_step (ObSubscribe i) b = fst (subscribe i b)"
| "ob_step (ObDisconnect i) b = disconnect i b"
| "ob_step (ObPublish e) b = fst (publish e b)"

lemma increasing_snoc:
  assumes "increasing evs" and "evs \<noteq> [] \<Longrightarrow> ev_sequence (last evs) < ev_sequence e"
  shows "increasing (evs @ [e])"
proof (cases evs rule: rev_cases)
  case Nil
  then show ?thesis by (simp add: increasing_def)
next
  case (snoc xs x)
  with assms show ?thesis
    by (auto simp: increasing_def sorted_wrt_append intro: order.strict_trans)
qed

lemma increasing_drop: "increasing evs \<Longrightarrow> increasing (drop n evs)"
  by (simp add: increasing_def drop_map [symmetric] sorted_wrt_drop)

lemma subscribe_wf: "buffer_wf b \<Longrightarrow> buffer_wf (fst (subscribe i b))"
  by (auto simp: subscribe_def buffer_wf_def observer_count_def Let_def List.insert_def)

lemma disconnect_wf: "buffer_wf b \<Longrightarrow> buffer_wf (disconnect i b)"
  by (auto simp: disconnect_def buffer_wf_def observer_count_def distinct_removeAll
      intro: order_trans [OF length_filter_le] simp: removeAll_filter_not_eq)

lemma publish_wf:
  assumes wf: "buffer_wf b" shows "buffer_wf (fst (publish e b))"
proof (cases "ob_events (ob_state b) \<noteq> [] \<and> ev_sequence e \<le> ev_sequence (last (ob_events (ob_state b)))")
  case True
  with wf show ?thesis by (simp add: publish_def)
next
  case False
  let ?evs = "ob_events (ob_state b) @ [e]"
  have "increasing ?evs"
    using wf False by (intro increasing_snoc) (auto simp: buffer_wf_def)
  then have "increasing (keep_last (ob_capacity b) ?evs)"
    by (simp only: keep_last_def increasing_drop)
  with False wf show ?thesis
    by (auto simp: publish_def Let_def trim_front_eq buffer_wf_def length_keep_last
        keep_last_snoc_neq last_keep_last_snoc observer_count_def)
qed

interpretation ob: step_system ob_step buffer_wf
proof
  show "buffer_wf (ob_step e s)" if "buffer_wf s" for e s
    using that by (cases e) (simp_all add: subscribe_wf disconnect_wf publish_wf)
qed

lemma new_buffer_wf: "buffer_wf (new_buffer c m)"
  by (simp add: new_buffer_def buffer_wf_def increasing_def observer_count_def)

subsection \<open>What observers see\<close>

text \<open>The events the buffer has accepted so far, whether or not it still holds them.\<close>

definition accepts :: "observer_buffer \<Rightarrow> lifecycle_event \<Rightarrow> bool" where
  "accepts b e \<longleftrightarrow> snd (publish e b) = Inr ()"

fun accepted_events :: "ob_op list \<Rightarrow> observer_buffer \<Rightarrow> lifecycle_event list" where
  "accepted_events [] b = []"
| "accepted_events (ObPublish e # ops) b =
     (if accepts b e then [e] else []) @ accepted_events ops (ob_step (ObPublish e) b)"
| "accepted_events (op # ops) b = accepted_events ops (ob_step op b)"

definition tracks :: "lifecycle_event list \<Rightarrow> observer_buffer \<Rightarrow> bool" where
  "tracks h b \<longleftrightarrow> 1 \<le> ob_capacity b \<and> increasing h \<and>
     ob_events (ob_state b) = keep_last (ob_capacity b) h"

lemma tracks_new: "tracks [] (new_buffer c m)"
  by (simp add: tracks_def new_buffer_def increasing_def keep_last_def)

lemma tracks_subscribe: "tracks h b \<Longrightarrow> tracks h (fst (subscribe i b))"
  by (simp add: tracks_def subscribe_def Let_def)

lemma tracks_disconnect: "tracks h b \<Longrightarrow> tracks h (disconnect i b)"
  by (simp add: tracks_def disconnect_def)

lemma tracks_publish:
  assumes "tracks h b"
  shows "tracks (h @ (if accepts b e then [e] else [])) (fst (publish e b))"
proof (cases "ob_events (ob_state b) \<noteq> [] \<and> ev_sequence e \<le> ev_sequence (last (ob_events (ob_state b)))")
  case True
  then show ?thesis using assms by (simp add: accepts_def publish_def Let_def)
next
  case False
  have "ev_sequence (last h) < ev_sequence e" if "h \<noteq> []"
  proof -
    have "keep_last (ob_capacity b) h \<noteq> []" "last (keep_last (ob_capacity b) h) = last h"
      using last_keep_last [of "ob_capacity b" h] assms that by (auto simp: tracks_def)
    with False assms show ?thesis by (simp add: tracks_def not_le)
  qed
  then have "increasing (h @ [e])"
    using assms by (intro increasing_snoc) (auto simp: tracks_def)
  with False assms show ?thesis
    by (auto simp: accepts_def publish_def Let_def tracks_def trim_front_eq keep_last_keep_last_snoc)
qed

lemma tracks_run: "tracks h b \<Longrightarrow> tracks (h @ accepted_events ops b) (fold ob_step ops b)"
proof (induction ops arbitrary: h b)
  case (Cons e ops)
  show ?case
  proof (cases e)
    case (ObPublish ev)
    with Cons.IH [OF tracks_publish [OF Cons.prems, of ev]] show ?thesis by simp
  qed (use Cons tracks_subscribe tracks_disconnect in simp_all)
qed simp

lemma increasing_keep_last_filter:
  assumes inc: "increasing h" and n: "0 < n" and ne: "h \<noteq> []"
    and first: "ev_sequence (hd (keep_last n h)) \<le> sat_add a 1"
  shows "filter (\<lambda>e. ev_sequence e > a) (keep_last n h) = filter (\<lambda>e. ev_sequence e > a) h"
proof -
  let ?k = "length h - n"
  have "\<not> ev_sequence e > a" if e: "e \<in> set (take ?k h)" for e
  proof -
    have k: "?k < length h" using n ne by (cases h) auto
    have "sorted_wrt (<) (map ev_sequence (take ?k h) @ map ev_sequence (drop ?k h))"
      using inc by (simp add: increasing_def flip: map_append)
    moreover have "hd (drop ?k h) \<in> set (drop ?k h)" using k by (intro hd_in_set) simp
    ultimately have "ev_sequence e < ev_sequence (hd (keep_last n h))"
      using e by (auto simp: sorted_wrt_append keep_last_def)
    then show ?thesis
      using first by (simp add: u64_simps)
  qed
  then have "filter (\<lambda>e. ev_sequence e > a) (take ?k h) = []"
    by (simp add: filter_empty_conv)
  then show ?thesis
    unfolding keep_last_def by (metis append_Nil append_take_drop_id filter_append)
qed

text \<open>An observer that polls after number \<open>a\<close> and is not told that it lags receives every event with a
  larger number that the buffer ever accepted, in order, whatever was published, trimmed,
  subscribed or disconnected before.\<close>

theorem poll_complete:
  assumes "poll a (fold ob_step ops (new_buffer c m)) = Inr evs"
  shows "evs = filter (\<lambda>e. ev_sequence e > a) (accepted_events ops (new_buffer c m))"
proof -
  let ?h = "accepted_events ops (new_buffer c m)" and ?b = "fold ob_step ops (new_buffer c m)"
  have tr: "tracks ?h ?b"
    using tracks_run [OF tracks_new, of ops c m] by simp
  then have evs: "ob_events (ob_state ?b) = keep_last (ob_capacity ?b) ?h" and cap: "0 < ob_capacity ?b"
    by (auto simp: tracks_def)
  show ?thesis
  proof (cases "?h = []")
    case True
    then show ?thesis using assms evs by (simp add: poll_def keep_last_def)
  next
    case False
    then have ne: "keep_last (ob_capacity ?b) ?h \<noteq> []" using last_keep_last cap by blast
    then have "ev_sequence (hd (keep_last (ob_capacity ?b) ?h)) \<le> sat_add a 1"
      and "evs = filter (\<lambda>e. ev_sequence e > a) (keep_last (ob_capacity ?b) ?h)"
      using assms by (auto simp: poll_def Let_def evs not_less split: if_splits)
    with increasing_keep_last_filter [OF _ cap False] tr show ?thesis
      by (simp add: tracks_def)
  qed
qed

theorem poll_complete_witness:
  "let e = \<lparr>ev_task_id = ''t'', ev_sequence = 0, ev_state = ''accepted'', ev_is_final = False,
           ev_observed_at_ms = 1, ev_detail = JNull\<rparr>;
       ops = [ObPublish e, ObSubscribe ''o'', ObPublish (e\<lparr>ev_sequence := 1\<rparr>),
              ObPublish (e\<lparr>ev_sequence := 2\<rparr>)]
   in [e\<lparr>ev_sequence := 2\<rparr>] = filter (\<lambda>e. ev_sequence e > 1) (accepted_events ops (new_buffer 2 1))"
  unfolding Let_def
  by (rule poll_complete)
    (simp add: new_buffer_def publish_def subscribe_def poll_def Let_def trim_front_eq keep_last_def
      sat_add_def u64_le_iff)

text \<open>The buffer stays within its bounds: at most \<open>capacity\<close> events with increasing numbers, at most
  \<open>max_observers\<close> distinct observers, closed exactly while the newest event is final.\<close>

theorem buffer_wf_reachable: "buffer_wf (fold ob_step ops (new_buffer c m))"
  by (rule ob.run_inv) (rule new_buffer_wf)

end
