(* ===== verification/Cancellation.thy ===== *)
theory Cancellation
  imports Lifecycle
begin

text \<open>
  \<^verbatim>\<open>BackendCancellationRegistry\<close> of \<^verbatim>\<open>src/service_lifecycle.rs\<close>: the cancel handlers of running tasks, the
  set of tasks already signalled, and the bounded log of cancellation evidence.  A handler is code
  of the integrator, so its type is a parameter and \<open>call\<close>, the outcome of running a handler, is
  an argument of \<open>request\<close>.  The four mutexes are never held together except in \<open>remember\<close>; an
  operation is modelled as it runs without another one in between.
\<close>

record cancellation_evidence =
  ce_task_id :: string
  ce_outcome :: string
  ce_cleanup_complete :: bool

record 'h cancellation_registry =
  cr_handlers :: "(string, 'h) hmap"
  cr_signalled :: "string list"
  cr_evidence :: "(string, cancellation_evidence) hmap"
  cr_evidence_order :: "string list"

definition empty_registry :: "'h cancellation_registry" where
  "empty_registry = \<lparr>cr_handlers = [], cr_signalled = [], cr_evidence = [], cr_evidence_order = []\<rparr>"

definition register :: "string \<Rightarrow> 'h \<Rightarrow> 'h cancellation_registry \<Rightarrow> 'h cancellation_registry" where
  "register task handler r =
     r\<lparr>cr_handlers := hput task handler (cr_handlers r),
       cr_signalled := removeAll task (cr_signalled r)\<rparr>"

definition remember :: "cancellation_evidence \<Rightarrow> 'h cancellation_registry \<Rightarrow> 'h cancellation_registry" where
  "remember ev r =
    (let t = ce_task_id ev;
         values = cr_evidence r;
         order = cr_evidence_order r;
         (values, order) =
           (if hget values t = None
            then (let (values, order) =
                        (if length order \<ge> 256
                         then (case order of [] \<Rightarrow> (values, order) | oldest # rest \<Rightarrow> (hdel oldest values, rest))
                         else (values, order))
                  in (values, order @ [t]))
            else (values, order))
     in r\<lparr>cr_evidence := hput t ev values, cr_evidence_order := order\<rparr>)"

definition known_outcome :: "string \<Rightarrow> bool" where
  "known_outcome outcome \<longleftrightarrow> outcome \<in> set [''cancel_requested'', ''transport_aborted'',
     ''backend_acknowledged'', ''execution_stopped'', ''cancel_unsupported'', ''already_terminal'']"

definition report ::
    "string \<Rightarrow> string \<Rightarrow> 'h cancellation_registry
      \<Rightarrow> 'h cancellation_registry \<times> (string + cancellation_evidence)" where
  "report task outcome r =
    (if \<not> known_outcome outcome
     then (r, Inl (''unsupported cancellation evidence: '' @ outcome))
     else
       let cleanup = (case hget (cr_evidence r) task of
                        Some current \<Rightarrow> ce_cleanup_complete current | None \<Rightarrow> False);
           ev = \<lparr>ce_task_id = task, ce_outcome = outcome, ce_cleanup_complete = cleanup\<rparr>
       in (remember ev r, Inr ev))"

definition complete_with_outcome ::
    "string \<Rightarrow> string option \<Rightarrow> 'h cancellation_registry
      \<Rightarrow> 'h cancellation_registry \<times> cancellation_evidence" where
  "complete_with_outcome task outcome r =
    (let r1 = r\<lparr>cr_handlers := hdel task (cr_handlers r),
                cr_signalled := removeAll task (cr_signalled r)\<rparr>;
         current = hget (cr_evidence r1) task;
         ev = \<lparr>ce_task_id = task,
               ce_outcome = (case outcome of Some o1 \<Rightarrow> o1
                             | None \<Rightarrow> (case current of Some c \<Rightarrow> ce_outcome c
                                        | None \<Rightarrow> ''cancel_unsupported'')),
               ce_cleanup_complete = True\<rparr>
     in if current = None \<and> outcome = None then (r1, ev) else (remember ev r1, ev))"

definition complete :: "string \<Rightarrow> 'h cancellation_registry \<Rightarrow> 'h cancellation_registry" where
  "complete task r = fst (complete_with_outcome task None r)"

definition evidence :: "string \<Rightarrow> 'h cancellation_registry \<Rightarrow> cancellation_evidence option" where
  "evidence task r = hget (cr_evidence r) task"

definition request ::
    "('h \<Rightarrow> bool) \<Rightarrow> string \<Rightarrow> string \<Rightarrow> 'h cancellation_registry
      \<Rightarrow> 'h cancellation_registry \<times> string" where
  "request call task state r =
    (if terminal state
     then (fst (complete_with_outcome task (Some ''already_terminal'') r), ''already_terminal'')
     else if task \<in> set (cr_signalled r) then (r, ''cancel_signalled'')
     else (case hget (cr_handlers r) task of
             None \<Rightarrow> (fst (complete_with_outcome task (Some ''cancel_unsupported'') r), ''cancel_unsupported'')
           | Some handler \<Rightarrow>
               if \<not> call handler
               then (fst (complete_with_outcome task (Some ''cancel_unsupported'') r), ''cancel_unsupported'')
               else
                 let r1 = r\<lparr>cr_signalled := List.insert task (cr_signalled r)\<rparr>
                 in (fst (report task ''cancel_requested'' r1), ''cancel_signalled'')))"

subsection \<open>The evidence log\<close>

definition registry_wf :: "'h cancellation_registry \<Rightarrow> bool" where
  "registry_wf r \<longleftrightarrow> hwf (cr_handlers r) \<and> hwf (cr_evidence r) \<and>
     distinct (cr_evidence_order r) \<and> length (cr_evidence_order r) \<le> 256 \<and>
     dom (map_of (cr_evidence r)) = set (cr_evidence_order r) \<and>
     (\<forall>t ev. hget (cr_evidence r) t = Some ev \<longrightarrow> ce_task_id ev = t) \<and>
     set (cr_signalled r) \<subseteq> dom (map_of (cr_handlers r))"

datatype 'h cr_op =
    CrRegister string 'h
  | CrReport string string
  | CrComplete string "string option"
  | CrRequest "'h \<Rightarrow> bool" string string

primrec cr_step :: "'h cr_op \<Rightarrow> 'h cancellation_registry \<Rightarrow> 'h cancellation_registry" where
  "cr_step (CrRegister t h) r = register t h r"
| "cr_step (CrReport t out) r = fst (report t out r)"
| "cr_step (CrComplete t out) r = fst (complete_with_outcome t out r)"
| "cr_step (CrRequest call t st) r = fst (request call t st r)"

lemma empty_registry_wf: "registry_wf empty_registry"
  by (simp add: registry_wf_def empty_registry_def)

lemma remember_handlers [simp]:
  "cr_handlers (remember ev r) = cr_handlers r" "cr_signalled (remember ev r) = cr_signalled r"
  by (simp_all add: remember_def Let_def split: prod.split)

lemma remember_known:
  "hget (cr_evidence r) (ce_task_id ev) = Some x \<Longrightarrow>
    remember ev r = r\<lparr>cr_evidence := hput (ce_task_id ev) ev (cr_evidence r)\<rparr>"
  by (simp add: remember_def Let_def)

lemma remember_room:
  "hget (cr_evidence r) (ce_task_id ev) = None \<Longrightarrow> length (cr_evidence_order r) < 256 \<Longrightarrow>
    remember ev r = r\<lparr>cr_evidence := hput (ce_task_id ev) ev (cr_evidence r),
                      cr_evidence_order := cr_evidence_order r @ [ce_task_id ev]\<rparr>"
  by (simp add: remember_def Let_def)

lemma remember_full:
  "hget (cr_evidence r) (ce_task_id ev) = None \<Longrightarrow> cr_evidence_order r = oldest # rest \<Longrightarrow>
    length rest \<ge> 255 \<Longrightarrow>
    remember ev r = r\<lparr>cr_evidence := hput (ce_task_id ev) ev (hdel oldest (cr_evidence r)),
                      cr_evidence_order := rest @ [ce_task_id ev]\<rparr>"
  by (simp add: remember_def Let_def)

lemma remember_wf:
  assumes wf: "registry_wf r" shows "registry_wf (remember ev r)"
proof (cases "hget (cr_evidence r) (ce_task_id ev)")
  case (Some x)
  then have "ce_task_id ev \<in> set (cr_evidence_order r)"
    using wf by (auto simp: registry_wf_def)
  with wf Some show ?thesis
    by (auto simp: registry_wf_def remember_known)
next
  case None
  then have new: "ce_task_id ev \<notin> set (cr_evidence_order r)"
    using wf by (auto simp: registry_wf_def)
  show ?thesis
  proof (cases "length (cr_evidence_order r) < 256")
    case True
    with wf None new show ?thesis by (auto simp: registry_wf_def remember_room)
  next
    case False
    then obtain oldest rest where order: "cr_evidence_order r = oldest # rest"
      by (cases "cr_evidence_order r") auto
    with wf False have "length rest = 255" by (auto simp: registry_wf_def)
    with wf None new order show ?thesis
      by (auto simp: registry_wf_def remember_full)
  qed
qed

lemma report_wf: "registry_wf r \<Longrightarrow> registry_wf (fst (report t out r))"
  by (simp add: report_def Let_def remember_wf)

lemma drop_handler_wf:
  "registry_wf r \<Longrightarrow> registry_wf (r\<lparr>cr_handlers := hdel t (cr_handlers r),
     cr_signalled := removeAll t (cr_signalled r)\<rparr>)"
  by (auto simp: registry_wf_def)

lemma complete_with_outcome_wf: "registry_wf r \<Longrightarrow> registry_wf (fst (complete_with_outcome t out r))"
  using drop_handler_wf [of r t] by (auto simp: complete_with_outcome_def Let_def remember_wf)

lemma register_wf: "registry_wf r \<Longrightarrow> registry_wf (register t h r)"
  by (auto simp: registry_wf_def register_def)

lemma signal_wf:
  "registry_wf r \<Longrightarrow> hget (cr_handlers r) t = Some h \<Longrightarrow>
    registry_wf (r\<lparr>cr_signalled := t # cr_signalled r\<rparr>)"
  by (auto simp: registry_wf_def)

lemma request_wf: "registry_wf r \<Longrightarrow> registry_wf (fst (request call t st r))"
  by (auto simp: request_def Let_def complete_with_outcome_wf report_wf signal_wf split: option.split)

interpretation cr: step_system cr_step registry_wf
proof
  show "registry_wf (cr_step e s)" if "registry_wf s" for e :: "'a cr_op" and s
    using that by (cases e) (simp_all add: register_wf report_wf complete_with_outcome_wf request_wf)
qed

subsection \<open>Properties\<close>

text \<open>C30. The evidence log is a bounded first-in first-out memory: after any operations it holds at most 256
  entries, each under its own task, the order queue lists exactly the remembered tasks without
  repetition, and only tasks with a registered handler are marked as signalled.\<close>

theorem registry_wf_reachable: "registry_wf (fold cr_step ops empty_registry)"
  by (rule cr.run_inv) (rule empty_registry_wf)

text \<open>A running task is signalled at most once: after a request that signalled it, every further request
  in a live state answers the same, runs no handler (the answer is the same for every handler
  behaviour) and changes nothing.\<close>

theorem request_signals_once:
  assumes "request call t st r = (r', ''cancel_signalled'')" and "\<not> terminal st'"
  shows "request call' t st' r' = (r', ''cancel_signalled'')"
proof -
  have "t \<in> set (cr_signalled r')"
    using assms(1) by (auto simp: request_def report_def Let_def split: if_splits option.splits)
  with assms(2) show ?thesis by (simp add: request_def)
qed

theorem request_signals_once_witness:
  "let r' = fst (request (\<lambda>_. True) ''t'' ''running'' (register ''t'' () empty_registry))
   in request (\<lambda>_. False) ''t'' ''waiting'' r' = (r', ''cancel_signalled'')"
  unfolding Let_def
  by (rule request_signals_once [where call = "\<lambda>_. True" and st = "''running''"
        and r = "register ''t'' () empty_registry"])
    (simp_all add: request_def register_def empty_registry_def terminal_def Let_def)

end
