(* ===== verification/Lifecycle_Sqlite.thy ===== *)
theory Lifecycle_Sqlite
  imports Lifecycle
begin

text \<open>
  \<^verbatim>\<open>src/service_lifecycle_sqlite.rs\<close>: the SQLite adapter of the lifecycle profile, and the proof that it
  implements the in-memory store of theory \<open>Lifecycle\<close>.

  The database is its two tables.  \<^verbatim>\<open>lifecycle_tasks\<close> has a primary key, so it is a map from the
  task identifier to the remaining columns; \<^verbatim>\<open>lifecycle_events\<close> is the list of its rows, whose
  columns are those of an event, with the JSON text of the detail read as the value it encodes.
  Each SQL statement of the source is the list operation it denotes; \<^verbatim>\<open>ON DELETE CASCADE\<close> is
  written out at the one deletion.  Every method runs in one immediate transaction: when a
  statement fails the transaction is rolled back and the method returns a storage error.  That
  outcome is decided by the database engine, so it is the argument \<open>io\<close>: \<open>None\<close> when all
  statements succeed, \<open>Some e\<close> for the error text.
\<close>

subsection \<open>Tables\<close>

record task_row =
  tr_idempotency_key :: string
  tr_request_digest :: string
  tr_state :: string
  tr_latest_sequence :: u64
  tr_updated_at_ms :: u64

record sqlite_store =
  sq_tasks :: "(string, task_row) hmap"
  sq_events :: "lifecycle_event list"
  sq_max_events :: nat
  sq_terminal_status_ttl_ms :: u64

definition open_store :: "nat \<Rightarrow> u64 \<Rightarrow> sqlite_store" where
  "open_store max_events ttl =
     \<lparr>sq_tasks = [], sq_events = [], sq_max_events = max max_events 2, sq_terminal_status_ttl_ms = ttl\<rparr>"

definition load_record :: "sqlite_store \<Rightarrow> string \<Rightarrow> lifecycle_error + lifecycle_record" where
  "load_record q task =
    (case hget (sq_tasks q) task of
       None \<Rightarrow> Inl UnknownTask
     | Some row \<Rightarrow>
         let events = sort_key ev_sequence (filter (\<lambda>e. ev_task_id e = task) (sq_events q))
         in if events = [] then Inl (Storage ''task has no lifecycle events'')
            else Inr \<lparr>rec_task_id = task, rec_idempotency_key = tr_idempotency_key row,
                      rec_request_digest = tr_request_digest row, rec_state = tr_state row,
                      rec_events = events, rec_updated_at_ms = tr_updated_at_ms row\<rparr>)"

subsection \<open>Content-free details\<close>

definition safe_token :: "string \<Rightarrow> lifecycle_error + unit" where
  "safe_token value =
    (if value = [] \<or> length value > 256 \<or>
        \<not> list_all (\<lambda>c. is_ascii_alphanumeric c \<or> c \<in> set ''._:-'') value
     then Inl (Conflict ''invalid durable lifecycle token'') else Inr ())"

definition check_progress :: "json \<Rightarrow> lifecycle_error + unit" where
  "check_progress value =
    (case as_object value of
       None \<Rightarrow> Inl (Conflict ''invalid durable lifecycle progress'')
     | Some progress \<Rightarrow>
         if list_ex (\<lambda>(k, _). k \<notin> set [''completed_units'', ''total_units'', ''unit'']) progress
         then Inl (Conflict ''invalid durable lifecycle progress'')
         else (case get_u64 (JObj progress) ''completed_units'' of
                 None \<Rightarrow> Inl (Conflict ''invalid durable lifecycle progress counts'')
               | Some completed \<Rightarrow>
                   (case get_u64 (JObj progress) ''total_units'' of
                      None \<Rightarrow> Inl (Conflict ''invalid durable lifecycle progress counts'')
                    | Some total_units \<Rightarrow>
                        if total_units < completed
                        then Inl (Conflict ''invalid durable lifecycle progress counts'')
                        else (case map_of progress ''unit'' of
                                None \<Rightarrow> Inr ()
                              | Some unit \<Rightarrow>
                                  (case as_str unit of
                                     None \<Rightarrow> Inl (Conflict ''invalid progress unit'')
                                   | Some u \<Rightarrow> safe_token u)))))"

definition check_digest :: "string \<Rightarrow> json \<Rightarrow> lifecycle_error + string" where
  "check_digest key value =
    (case as_str value of
       None \<Rightarrow> Inl (Conflict (''invalid '' @ key))
     | Some digest \<Rightarrow>
         let hex = unwrap_or (strip_prefix ''sha256:'' digest) digest
         in if length hex \<noteq> 64 \<or> \<not> list_all is_ascii_hexdigit hex
            then Inl (Conflict (''invalid '' @ key)) else Inr digest)"

definition content_free_member :: "string \<Rightarrow> json \<Rightarrow> lifecycle_error + json" where
  "content_free_member key value =
    (if key = ''progress'' then (case check_progress value of Inl e \<Rightarrow> Inl e | Inr _ \<Rightarrow> Inr value)
     else if key \<in> set [''receipt_digest'', ''checkpoint_digest''] then
       (case check_digest key value of Inl e \<Rightarrow> Inl e
        | Inr digest \<Rightarrow> Inr (JStr (to_ascii_lowercase digest)))
     else if key \<in> set [''event_id'', ''reason_code'', ''outcome''] then
       (case as_str value of
          None \<Rightarrow> Inl (Conflict (''invalid durable lifecycle '' @ key))
        | Some token \<Rightarrow> (case safe_token token of Inl e \<Rightarrow> Inl e | Inr _ \<Rightarrow> Inr value))
     else Inl (Conflict (''durable lifecycle detail contains unsupported field: '' @ key)))"

fun content_free_members :: "(string \<times> json) list \<Rightarrow> lifecycle_error + (string \<times> json) list" where
  "content_free_members [] = Inr []"
| "content_free_members ((k, v) # ms) =
     (case content_free_member k v of
        Inl e \<Rightarrow> Inl e
      | Inr v' \<Rightarrow> (case content_free_members ms of Inl e \<Rightarrow> Inl e | Inr ms' \<Rightarrow> Inr ((k, v') # ms')))"

definition content_free_detail :: "json \<Rightarrow> lifecycle_error + json" where
  "content_free_detail detail =
    (if detail = JNull then Inr (JObj [])
     else (case as_object detail of
             None \<Rightarrow> Inl (Conflict ''durable lifecycle detail must be an object'')
           | Some ms \<Rightarrow> (case content_free_members ms of Inl e \<Rightarrow> Inl e | Inr ms' \<Rightarrow> Inr (JObj ms'))))"

subsection \<open>The transactions\<close>

definition submit_sync ::
    "string option \<Rightarrow> string \<Rightarrow> string \<Rightarrow> string \<Rightarrow> u64 \<Rightarrow> sqlite_store
      \<Rightarrow> sqlite_store \<times> (lifecycle_error + lifecycle_record \<times> bool)" where
  "submit_sync io task key digest now q =
    (case io of Some e \<Rightarrow> (q, Inl (Storage e)) | None \<Rightarrow>
     (case List.find (\<lambda>(t, row). t = task \<or> tr_idempotency_key row = key) (sq_tasks q) of
        Some (t, row) \<Rightarrow>
          if (t, tr_idempotency_key row, tr_request_digest row) \<noteq> (task, key, digest)
          then (q, Inl (Conflict ''task or idempotency identifier reused for different content''))
          else (case load_record q task of Inl e \<Rightarrow> (q, Inl e) | Inr r \<Rightarrow> (q, Inr (r, False)))
      | None \<Rightarrow>
          let row = \<lparr>tr_idempotency_key = key, tr_request_digest = digest, tr_state = ''accepted'',
                     tr_latest_sequence = 0, tr_updated_at_ms = now\<rparr>;
              event = \<lparr>ev_task_id = task, ev_sequence = 0, ev_state = ''accepted'', ev_is_final = False,
                       ev_observed_at_ms = now, ev_detail = JObj []\<rparr>;
              q' = q\<lparr>sq_tasks := hput task row (sq_tasks q), sq_events := sq_events q @ [event]\<rparr>
          in (case load_record q' task of Inl e \<Rightarrow> (q, Inl e) | Inr r \<Rightarrow> (q', Inr (r, True)))))"

definition delete_task :: "string \<Rightarrow> sqlite_store \<Rightarrow> sqlite_store" where
  "delete_task task q =
     q\<lparr>sq_tasks := hdel task (sq_tasks q), sq_events := filter (\<lambda>e. ev_task_id e \<noteq> task) (sq_events q)\<rparr>"

definition status_sync ::
    "string option \<Rightarrow> string \<Rightarrow> u64 \<Rightarrow> sqlite_store \<Rightarrow> sqlite_store \<times> (lifecycle_error + lifecycle_record)" where
  "status_sync io task now q =
    (case io of Some e \<Rightarrow> (q, Inl (Storage e)) | None \<Rightarrow>
     (case hget (sq_tasks q) task of
        None \<Rightarrow> (q, Inl UnknownTask)
      | Some row \<Rightarrow>
          if terminal (tr_state row) \<and> sat_sub now (tr_updated_at_ms row) > sq_terminal_status_ttl_ms q
          then (delete_task task q, Inl UnknownTask)
          else (q, load_record q task)))"

definition transition_sync ::
    "string option \<Rightarrow> string \<Rightarrow> string \<Rightarrow> json \<Rightarrow> u64 \<Rightarrow> sqlite_store
      \<Rightarrow> sqlite_store \<times> (lifecycle_error + lifecycle_event)" where
  "transition_sync io task requested detail now q =
    (let state = canonical_state requested in
     case content_free_detail detail of
       Inl e \<Rightarrow> (q, Inl e)
     | Inr detail' \<Rightarrow>
        (case io of Some e \<Rightarrow> (q, Inl (Storage e)) | None \<Rightarrow>
         (case hget (sq_tasks q) task of
            None \<Rightarrow> (q, Inl UnknownTask)
          | Some row \<Rightarrow>
              if \<not> legal_transition (tr_state row) state
              then (q, Inl (illegal_transition (tr_state row) state))
              else
                let sequence = tr_latest_sequence row + 1;
                    row' = row\<lparr>tr_state := state, tr_latest_sequence := sequence, tr_updated_at_ms := now\<rparr>;
                    event = \<lparr>ev_task_id = task, ev_sequence = sequence, ev_state = state,
                             ev_is_final = terminal state, ev_observed_at_ms = now, ev_detail = detail'\<rparr>;
                    cutoff = sat_sub sequence (of_nat (sq_max_events q) - 1)
                in (q\<lparr>sq_tasks := hput task row' (sq_tasks q),
                      sq_events := filter (\<lambda>e. \<not> (ev_task_id e = task \<and> ev_sequence e < cutoff))
                                     (sq_events q @ [event])\<rparr>,
                    Inr event))))"

definition events_after_sync ::
    "string option \<Rightarrow> string \<Rightarrow> int \<Rightarrow> u64 \<Rightarrow> sqlite_store
      \<Rightarrow> sqlite_store \<times> (lifecycle_error + lifecycle_event list)" where
  "events_after_sync io task after now q =
    (case status_sync io task now q of
       (q', Inl e) \<Rightarrow> (q', Inl e)
     | (q', Inr r) \<Rightarrow> (q', replay_from r after))"

definition cancel_sync ::
    "string option \<Rightarrow> string option \<Rightarrow> string option \<Rightarrow> string \<Rightarrow> u64 \<Rightarrow> u64 \<Rightarrow> u64 \<Rightarrow> sqlite_store
      \<Rightarrow> sqlite_store \<times> (lifecycle_error + lifecycle_record)" where
  "cancel_sync io1 io2 io3 task now1 now2 now3 q =
    (case status_sync io1 task now1 q of
       (q1, Inl e) \<Rightarrow> (q1, Inl e)
     | (q1, Inr current) \<Rightarrow>
         if terminal (rec_state current) then status_sync io3 task now3 q1
         else (case transition_sync io2 task ''cancelled'' (JObj [(''outcome'', JStr ''cancelled'')]) now2 q1 of
                 (q2, Inl e) \<Rightarrow> (q2, Inl e)
               | (q2, Inr _) \<Rightarrow> status_sync io3 task now3 q2))"

subsection \<open>Well-formed databases\<close>

definition events_of :: "sqlite_store \<Rightarrow> string \<Rightarrow> lifecycle_event list" where
  "events_of q t = filter (\<lambda>e. ev_task_id e = t) (sq_events q)"

text \<open>The rows of a task are in order and numbered without a gap up to the latest number; numbers stay
  below \<open>2 ^ 63\<close>, the largest an SQLite integer column can hold.  \<^verbatim>\<open>max_events\<close> is a \<^verbatim>\<open>usize\<close>.\<close>

definition rows_ok :: "nat \<Rightarrow> task_row \<Rightarrow> lifecycle_event list \<Rightarrow> bool" where
  "rows_ok mx row evs \<longleftrightarrow> evs \<noteq> [] \<and> contiguous evs \<and> length evs \<le> mx \<and>
     ev_sequence (last evs) = tr_latest_sequence row \<and>
     unat (ev_sequence (hd evs)) + length evs \<le> 2 ^ 63"

definition db_wf :: "sqlite_store \<Rightarrow> bool" where
  "db_wf q \<longleftrightarrow> hwf (sq_tasks q) \<and> 2 \<le> sq_max_events q \<and> sq_max_events q < 2 ^ 64 \<and>
     (\<forall>t row. hget (sq_tasks q) t = Some row \<longrightarrow> rows_ok (sq_max_events q) row (events_of q t)) \<and>
     (\<forall>e \<in> set (sq_events q). hget (sq_tasks q) (ev_task_id e) \<noteq> None) \<and>
     (\<forall>t t' row row'. hget (sq_tasks q) t = Some row \<longrightarrow> hget (sq_tasks q) t' = Some row' \<longrightarrow>
        tr_idempotency_key row = tr_idempotency_key row' \<longrightarrow> t = t')"

definition row_record :: "string \<Rightarrow> task_row \<Rightarrow> lifecycle_event list \<Rightarrow> lifecycle_record" where
  "row_record t row evs =
     \<lparr>rec_task_id = t, rec_idempotency_key = tr_idempotency_key row,
      rec_request_digest = tr_request_digest row, rec_state = tr_state row, rec_events = evs,
      rec_updated_at_ms = tr_updated_at_ms row\<rparr>"

lemma contiguous_sorted:
  assumes "contiguous evs" and "unat (ev_sequence (hd evs)) + length evs \<le> 2 ^ 64"
  shows "sorted (map ev_sequence evs)"
proof -
  have "sorted (map unat (map ev_sequence evs))"
    using contiguous_seqs [OF assms] by (simp add: o_def)
  then show ?thesis
    by (simp add: sorted_map u64_le_iff)
qed

lemma rows_ok_sorted: "rows_ok mx row evs \<Longrightarrow> sorted (map ev_sequence evs)"
  by (rule contiguous_sorted) (simp_all add: rows_ok_def)

lemma db_wf_rows: "db_wf q \<Longrightarrow> hget (sq_tasks q) t = Some row \<Longrightarrow> rows_ok (sq_max_events q) row (events_of q t)"
  by (simp add: db_wf_def)

lemma db_wf_keys: "db_wf q \<Longrightarrow> hget (sq_tasks q) t = Some row \<Longrightarrow> hget (sq_tasks q) t' = Some row' \<Longrightarrow>
    tr_idempotency_key row = tr_idempotency_key row' \<Longrightarrow> t = t'"
  unfolding db_wf_def by blast

lemma db_wf_hwf: "db_wf q \<Longrightarrow> hwf (sq_tasks q)"
  by (simp add: db_wf_def)

lemma db_wf_events: "db_wf q \<Longrightarrow> e \<in> set (sq_events q) \<Longrightarrow> hget (sq_tasks q) (ev_task_id e) \<noteq> None"
  by (simp add: db_wf_def)

lemma db_wf_max: "db_wf q \<Longrightarrow> 2 \<le> sq_max_events q" "db_wf q \<Longrightarrow> sq_max_events q < 2 ^ 64"
  by (simp_all add: db_wf_def)

lemma load_record_wf:
  assumes "db_wf q"
  shows "load_record q t = (case hget (sq_tasks q) t of None \<Rightarrow> Inl UnknownTask
     | Some row \<Rightarrow> Inr (row_record t row (events_of q t)))"
proof (cases "hget (sq_tasks q) t")
  case (Some row)
  have ok: "rows_ok (sq_max_events q) row (events_of q t)" using assms Some by (rule db_wf_rows)
  have "sort_key ev_sequence (events_of q t) = events_of q t"
    using rows_ok_sorted [OF ok] by (rule sort_key_id_if_sorted)
  with Some ok show ?thesis
    by (simp add: load_record_def events_of_def row_record_def rows_ok_def)
qed (simp add: load_record_def)

subsection \<open>The adapter implements the in-memory store\<close>

text \<open>The two stores agree up to the details of the events, which the adapter normalises.\<close>

definition erase_ev :: "lifecycle_event \<Rightarrow> lifecycle_event" where
  "erase_ev e = e\<lparr>ev_detail := JNull\<rparr>"

definition erase :: "lifecycle_record \<Rightarrow> lifecycle_record" where
  "erase r = r\<lparr>rec_events := map erase_ev (rec_events r)\<rparr>"

definition db_view :: "sqlite_store \<Rightarrow> string \<Rightarrow> lifecycle_record option" where
  "db_view q t = map_option (\<lambda>row. row_record t row (events_of q t)) (hget (sq_tasks q) t)"

definition sim :: "sqlite_store \<Rightarrow> lifecycle_store \<Rightarrow> bool" where
  "sim q s \<longleftrightarrow> db_wf q \<and> store_wf s \<and> sq_max_events q = st_max_events s \<and>
     sq_terminal_status_ttl_ms q = st_terminal_status_ttl_ms s \<and>
     (\<forall>t. map_option erase (db_view q t) = map_option erase (hget (st_records s) t))"

fun err_sim :: "lifecycle_error \<Rightarrow> lifecycle_error \<Rightarrow> bool" where
  "err_sim (Conflict _) (Conflict _) = True"
| "err_sim e e' = (e = e')"

lemma err_sim_refl [simp]: "err_sim e e"
  by (cases e) simp_all

definition rec_sim :: "lifecycle_record \<Rightarrow> lifecycle_record \<Rightarrow> bool" where
  "rec_sim r r' \<longleftrightarrow> erase r = erase r'"

definition ev_sim :: "lifecycle_event \<Rightarrow> lifecycle_event \<Rightarrow> bool" where
  "ev_sim e e' \<longleftrightarrow> erase_ev e = erase_ev e'"

lemma erase_ev_fields:
  "erase_ev e = erase_ev e' \<longleftrightarrow> ev_task_id e = ev_task_id e' \<and> ev_sequence e = ev_sequence e' \<and>
     ev_state e = ev_state e' \<and> ev_is_final e = ev_is_final e' \<and> ev_observed_at_ms e = ev_observed_at_ms e'"
  by (cases e; cases e') (simp add: erase_ev_def)

lemma erase_fields:
  "erase r = erase r' \<longleftrightarrow> rec_task_id r = rec_task_id r' \<and>
     rec_idempotency_key r = rec_idempotency_key r' \<and> rec_request_digest r = rec_request_digest r' \<and>
     rec_state r = rec_state r' \<and> rec_updated_at_ms r = rec_updated_at_ms r' \<and>
     map erase_ev (rec_events r) = map erase_ev (rec_events r')"
  by (cases r; cases r') (auto simp: erase_def)

lemma map_erase_length: "map erase_ev xs = map erase_ev ys \<Longrightarrow> length xs = length ys"
  using map_eq_imp_length_eq by blast

lemma erase_latest: "map erase_ev (rec_events r) = map erase_ev (rec_events r') \<Longrightarrow>
    latest_sequence r = latest_sequence r' \<and> first_sequence r = first_sequence r'"
proof (cases "rec_events r = []")
  case True
  assume "map erase_ev (rec_events r) = map erase_ev (rec_events r')"
  with True show ?thesis by (simp add: latest_sequence_def first_sequence_def)
next
  case False
  assume eq: "map erase_ev (rec_events r) = map erase_ev (rec_events r')"
  with False have ne: "rec_events r' \<noteq> []" by auto
  have "erase_ev (last (rec_events r)) = erase_ev (last (rec_events r'))"
    using eq False ne by (metis last_map)
  moreover have "erase_ev (hd (rec_events r)) = erase_ev (hd (rec_events r'))"
    using eq False ne by (metis hd_map)
  ultimately show ?thesis
    using False ne by (simp add: latest_sequence_def first_sequence_def erase_ev_fields)
qed

lemma sim_None: "sim q s \<Longrightarrow> hget (sq_tasks q) t = None \<longleftrightarrow> hget (st_records s) t = None"
proof -
  assume "sim q s"
  then have "map_option erase (db_view q t) = map_option erase (hget (st_records s) t)"
    by (simp add: sim_def)
  then show ?thesis
    by (metis db_view_def option.map_disc_iff)
qed

lemma sim_Some:
  assumes "sim q s" and "hget (sq_tasks q) t = Some row"
  obtains r where "hget (st_records s) t = Some r" and "rec_sim (row_record t row (events_of q t)) r"
proof -
  have "map_option erase (db_view q t) = map_option erase (hget (st_records s) t)"
    using assms(1) by (simp add: sim_def)
  with assms(2) that show thesis
    by (cases "hget (st_records s) t") (auto simp: db_view_def rec_sim_def)
qed

lemma row_record_sel [simp]:
  "rec_task_id (row_record t row evs) = t" "rec_idempotency_key (row_record t row evs) = tr_idempotency_key row"
  "rec_request_digest (row_record t row evs) = tr_request_digest row" "rec_state (row_record t row evs) = tr_state row"
  "rec_events (row_record t row evs) = evs" "rec_updated_at_ms (row_record t row evs) = tr_updated_at_ms row"
  by (simp_all add: row_record_def)

lemma rec_sim_row:
  assumes "rec_sim (row_record t row evs) r" and "rows_ok mx row evs"
  shows "rec_idempotency_key r = tr_idempotency_key row" and "rec_request_digest r = tr_request_digest row"
    and "rec_state r = tr_state row" and "rec_updated_at_ms r = tr_updated_at_ms row"
    and "latest_sequence r = tr_latest_sequence row" and "map erase_ev (rec_events r) = map erase_ev evs"
proof -
  have e: "erase (row_record t row evs) = erase r" using assms(1) by (simp add: rec_sim_def)
  then show "rec_idempotency_key r = tr_idempotency_key row" "rec_request_digest r = tr_request_digest row"
    "rec_state r = tr_state row" "rec_updated_at_ms r = tr_updated_at_ms row"
    "map erase_ev (rec_events r) = map erase_ev evs"
    by (simp_all add: erase_fields)
  then have "latest_sequence r = latest_sequence (row_record t row evs)"
    using erase_latest [of r "row_record t row evs"] by simp
  with assms(2) show "latest_sequence r = tr_latest_sequence row"
    by (simp add: latest_sequence_def rows_ok_def)
qed

subsubsection \<open>Inserting and deleting a task\<close>

definition insert_task :: "string \<Rightarrow> string \<Rightarrow> string \<Rightarrow> u64 \<Rightarrow> sqlite_store \<Rightarrow> sqlite_store" where
  "insert_task t k d now q =
     q\<lparr>sq_tasks := hput t \<lparr>tr_idempotency_key = k, tr_request_digest = d, tr_state = ''accepted'',
          tr_latest_sequence = 0, tr_updated_at_ms = now\<rparr> (sq_tasks q),
       sq_events := sq_events q @ [\<lparr>ev_task_id = t, ev_sequence = 0, ev_state = ''accepted'',
          ev_is_final = False, ev_observed_at_ms = now, ev_detail = JObj []\<rparr>]\<rparr>"

lemma events_of_none: "db_wf q \<Longrightarrow> hget (sq_tasks q) t = None \<Longrightarrow> events_of q t = []"
  by (auto simp: events_of_def db_wf_def filter_empty_conv)

lemma events_of_insert:
  "events_of (insert_task t k d now q) t' = events_of q t' @ (if t' = t then
     [\<lparr>ev_task_id = t, ev_sequence = 0, ev_state = ''accepted'', ev_is_final = False,
       ev_observed_at_ms = now, ev_detail = JObj []\<rparr>] else [])"
  by (simp add: events_of_def insert_task_def)

lemma insert_task_tasks [simp]:
  "hget (sq_tasks (insert_task t k d now q)) t' = (if t' = t then
     Some \<lparr>tr_idempotency_key = k, tr_request_digest = d, tr_state = ''accepted'',
          tr_latest_sequence = 0, tr_updated_at_ms = now\<rparr> else hget (sq_tasks q) t')"
  by (simp add: insert_task_def)

lemma insert_task_cfg [simp]:
  "sq_max_events (insert_task t k d now q) = sq_max_events q"
  "sq_terminal_status_ttl_ms (insert_task t k d now q) = sq_terminal_status_ttl_ms q"
  by (simp_all add: insert_task_def)

lemma insert_task_wf:
  assumes wf: "db_wf q" and none: "hget (sq_tasks q) t = None"
    and fresh: "\<And>t' row. hget (sq_tasks q) t' = Some row \<Longrightarrow> tr_idempotency_key row \<noteq> k"
  shows "db_wf (insert_task t k d now q)"
  unfolding db_wf_def
proof (intro conjI allI impI ballI)
  let ?q = "insert_task t k d now q"
  show "hwf (sq_tasks ?q)" using db_wf_hwf [OF wf] by (simp add: insert_task_def)
  show "2 \<le> sq_max_events ?q" "sq_max_events ?q < 2 ^ 64" using wf by (simp_all add: db_wf_def)
  show "rows_ok (sq_max_events ?q) row (events_of ?q t')" if "hget (sq_tasks ?q) t' = Some row" for t' row
  proof (cases "t' = t")
    case True
    with that wf show ?thesis
      by (auto simp: rows_ok_def contiguous_def events_of_insert events_of_none [OF wf none] db_wf_def)
  next
    case False
    with that show ?thesis using db_wf_rows [OF wf] by (simp add: events_of_insert)
  qed
  show "hget (sq_tasks ?q) (ev_task_id e) \<noteq> None" if "e \<in> set (sq_events ?q)" for e
    using that wf by (auto simp: insert_task_def db_wf_def)
  show "a = b" if "hget (sq_tasks ?q) a = Some x" "hget (sq_tasks ?q) b = Some y"
    "tr_idempotency_key x = tr_idempotency_key y" for a b x y
    using that fresh [of a x] fresh [of b y] db_wf_keys [OF wf, of a x b y] by (auto split: if_splits)
qed

lemma events_of_delete: "events_of (delete_task t q) t' = (if t' = t then [] else events_of q t')"
  by (auto simp: events_of_def delete_task_def filter_empty_conv intro: filter_cong)

lemma delete_task_tasks [simp]: "hget (sq_tasks (delete_task t q)) t' = (if t' = t then None else hget (sq_tasks q) t')"
  by (simp add: delete_task_def)

lemma delete_task_cfg [simp]:
  "sq_max_events (delete_task t q) = sq_max_events q"
  "sq_terminal_status_ttl_ms (delete_task t q) = sq_terminal_status_ttl_ms q"
  by (simp_all add: delete_task_def)

lemma delete_task_wf:
  assumes wf: "db_wf q" shows "db_wf (delete_task t q)"
  unfolding db_wf_def
proof (intro conjI allI impI ballI)
  let ?q = "delete_task t q"
  show "hwf (sq_tasks ?q)" using db_wf_hwf [OF wf] by (simp add: delete_task_def)
  show "2 \<le> sq_max_events ?q" "sq_max_events ?q < 2 ^ 64" using wf by (simp_all add: db_wf_def)
  show "rows_ok (sq_max_events ?q) row (events_of ?q t')" if "hget (sq_tasks ?q) t' = Some row" for t' row
    using that db_wf_rows [OF wf] by (simp add: events_of_delete split: if_splits)
  show "hget (sq_tasks ?q) (ev_task_id e) \<noteq> None" if "e \<in> set (sq_events ?q)" for e
    using that wf by (auto simp: delete_task_def db_wf_def)
  show "a = b" if "hget (sq_tasks ?q) a = Some x" "hget (sq_tasks ?q) b = Some y"
    "tr_idempotency_key x = tr_idempotency_key y" for a b x y
    using that db_wf_keys [OF wf, of a x b y] by (auto split: if_splits)
qed

subsubsection \<open>Submission\<close>

lemma submit_sync_known:
  assumes wf: "db_wf q" and row: "hget (sq_tasks q) t = Some row"
  shows "\<exists>m. submit_sync None t k d now q =
    (if tr_idempotency_key row \<noteq> k \<or> tr_request_digest row \<noteq> d then (q, Inl (Conflict m))
     else (q, Inr (row_record t row (events_of q t), False)))"
proof -
  let ?P = "\<lambda>(t', row'). t' = t \<or> tr_idempotency_key row' = k"
  have "(t, row) \<in> set (sq_tasks q)" using row by (rule map_of_SomeD)
  then obtain t' row' where f: "List.find ?P (sq_tasks q) = Some (t', row')"
    by (cases "List.find ?P (sq_tasks q)") (auto simp: find_None_iff)
  with find_mem [OF f] have t': "hget (sq_tasks q) t' = Some row'" and P: "t' = t \<or> tr_idempotency_key row' = k"
    using db_wf_hwf [OF wf] by (auto simp: hwf_def)
  show ?thesis
  proof (cases "tr_idempotency_key row \<noteq> k \<or> tr_request_digest row \<noteq> d")
    case True
    then have "(t', tr_idempotency_key row', tr_request_digest row') \<noteq> (t, k, d)"
      using t' row by auto
    with True f show ?thesis by (simp add: submit_sync_def)
  next
    case False
    then have "t' = t" using P db_wf_keys [OF wf t' row] by auto
    then have "row' = row" using t' row by simp
    with False \<open>t' = t\<close> f row show ?thesis
      by (simp add: submit_sync_def load_record_wf [OF wf])
  qed
qed

lemma submit_sync_reused:
  assumes wf: "db_wf q" and none: "hget (sq_tasks q) t = None"
    and used: "hget (sq_tasks q) t0 = Some row0" "tr_idempotency_key row0 = k"
  shows "\<exists>m. submit_sync None t k d now q = (q, Inl (Conflict m))"
proof -
  let ?P = "\<lambda>(t', row'). t' = t \<or> tr_idempotency_key row' = k"
  have "(t0, row0) \<in> set (sq_tasks q)" using used(1) by (rule map_of_SomeD)
  with used(2) obtain t' row' where f: "List.find ?P (sq_tasks q) = Some (t', row')"
    by (cases "List.find ?P (sq_tasks q)") (auto simp: find_None_iff)
  then have "t' \<noteq> t"
    using find_mem [OF f] none by (auto simp: map_of_eq_None_iff image_iff)
  with f show ?thesis by (simp add: submit_sync_def)
qed

lemma submit_sync_fresh:
  assumes wf: "db_wf q" and none: "hget (sq_tasks q) t = None"
    and fresh: "\<And>t' row. hget (sq_tasks q) t' = Some row \<Longrightarrow> tr_idempotency_key row \<noteq> k"
  shows "submit_sync None t k d now q = (insert_task t k d now q,
    Inr (accepted_record t k d (JObj []) now, True))"
proof -
  have "List.find (\<lambda>(t', row'). t' = t \<or> tr_idempotency_key row' = k) (sq_tasks q) = None"
    using none fresh db_wf_hwf [OF wf]
    by (auto simp: find_None_iff hwf_def map_of_eq_None_iff image_iff)
  moreover have "load_record (insert_task t k d now q) t = Inr (accepted_record t k d (JObj []) now)"
    by (simp add: load_record_wf [OF insert_task_wf [OF wf none fresh]] events_of_insert
        events_of_none [OF wf none]) (simp add: row_record_def accepted_record_def)
  ultimately show ?thesis
    by (simp add: submit_sync_def insert_task_def)
qed

subsubsection \<open>Transitions\<close>

lemma filter_eq_drop:
  assumes "\<And>i. i < length xs \<Longrightarrow> P (xs ! i) \<longleftrightarrow> k \<le> i"
  shows "filter P xs = drop k xs"
proof -
  have "filter P (take k xs) = []"
    using assms by (auto simp: filter_empty_conv in_set_conv_nth)
  moreover have "filter P (drop k xs) = drop k xs"
    using assms by (auto simp: filter_id_conv in_set_conv_nth)
  ultimately show ?thesis
    by (metis append_Nil append_take_drop_id filter_append)
qed

lemma cutoff_keep_last:
  assumes c: "contiguous evs" and ne: "evs \<noteq> []" and small: "unat (ev_sequence (hd evs)) + length evs \<le> 2 ^ 64"
    and mx: "1 \<le> mx" "mx < 2 ^ 64"
  shows "filter (\<lambda>e. \<not> ev_sequence e < sat_sub (ev_sequence (last evs)) (of_nat mx - 1)) evs = keep_last mx evs"
  unfolding keep_last_def
proof (rule filter_eq_drop)
  fix i assume i: "i < length evs"
  let ?f = "unat (ev_sequence (hd evs))"
  have "unat (of_nat mx - 1 :: u64) = mx - 1"
  proof -
    have "unat (of_nat mx :: u64) = mx" using mx(2) by (simp add: unat_of_nat)
    then show ?thesis using mx(1) by (subst unat_sub) (simp_all add: u64_le_iff)
  qed
  moreover have "unat (ev_sequence (evs ! i)) = ?f + i"
    using contiguousD [OF c i] small i by (simp add: unat_add_of_nat)
  moreover have "Suc (unat (ev_sequence (last evs))) = ?f + length evs"
    using last_sequence_nat [OF c ne] small by simp
  ultimately show "(\<not> ev_sequence (evs ! i) < sat_sub (ev_sequence (last evs)) (of_nat mx - 1)) \<longleftrightarrow>
      length evs - mx \<le> i"
    using mx(1) by (simp add: u64_less_iff unat_sat_sub) arith
qed

definition advance_task :: "string \<Rightarrow> task_row \<Rightarrow> lifecycle_event \<Rightarrow> sqlite_store \<Rightarrow> sqlite_store" where
  "advance_task t row event q =
     q\<lparr>sq_tasks := hput t (row\<lparr>tr_state := ev_state event, tr_latest_sequence := ev_sequence event,
          tr_updated_at_ms := ev_observed_at_ms event\<rparr>) (sq_tasks q),
       sq_events := filter (\<lambda>e. \<not> (ev_task_id e = t \<and>
          ev_sequence e < sat_sub (ev_sequence event) (of_nat (sq_max_events q) - 1))) (sq_events q @ [event])\<rparr>"

lemma advance_task_cfg [simp]:
  "sq_max_events (advance_task t row e q) = sq_max_events q"
  "sq_terminal_status_ttl_ms (advance_task t row e q) = sq_terminal_status_ttl_ms q"
  by (simp_all add: advance_task_def)

lemma advance_task_tasks [simp]:
  "hget (sq_tasks (advance_task t row e q)) t' = (if t' = t then
     Some (row\<lparr>tr_state := ev_state e, tr_latest_sequence := ev_sequence e, tr_updated_at_ms := ev_observed_at_ms e\<rparr>)
     else hget (sq_tasks q) t')"
  by (simp add: advance_task_def)

lemma events_of_advance_other: "t' \<noteq> t \<Longrightarrow> ev_task_id e = t \<Longrightarrow> events_of (advance_task t row e q) t' = events_of q t'"
  by (auto simp: events_of_def advance_task_def intro: filter_cong)

lemma events_of_advance:
  assumes ok: "rows_ok (sq_max_events q) row (events_of q t)" and mx: "2 \<le> sq_max_events q" "sq_max_events q < 2 ^ 64"
    and e: "ev_task_id e = t" "ev_sequence e = tr_latest_sequence row + 1"
    and bound: "Suc (unat (tr_latest_sequence row)) < 2 ^ 63"
  shows "events_of (advance_task t row e q) t = keep_last (sq_max_events q) (events_of q t @ [e])"
    and "contiguous (events_of q t @ [e])"
    and "unat (ev_sequence (hd (events_of q t @ [e]))) + length (events_of q t @ [e]) \<le> 2 ^ 63"
proof -
  let ?evs = "events_of q t"
  have ne: "?evs \<noteq> []" and c: "contiguous ?evs" and l: "ev_sequence (last ?evs) = tr_latest_sequence row"
    and sm: "unat (ev_sequence (hd ?evs)) + length ?evs \<le> 2 ^ 63"
    using ok by (simp_all add: rows_ok_def)
  show c': "contiguous (?evs @ [e])" using c ne e l by (simp add: contiguous_snoc)
  have "Suc (unat (ev_sequence (last ?evs))) = unat (ev_sequence (hd ?evs)) + length ?evs"
    using last_sequence_nat [OF c ne] sm by simp
  then show sm': "unat (ev_sequence (hd (?evs @ [e]))) + length (?evs @ [e]) \<le> 2 ^ 63"
    using bound ne by (simp add: l)
  have "events_of (advance_task t row e q) t =
      filter (\<lambda>x. \<not> ev_sequence x < sat_sub (ev_sequence (last (?evs @ [e]))) (of_nat (sq_max_events q) - 1)) (?evs @ [e])"
    using e by (simp add: events_of_def advance_task_def) (auto intro: filter_cong)
  also have "\<dots> = keep_last (sq_max_events q) (?evs @ [e])"
    using c' sm' mx by (intro cutoff_keep_last) simp_all
  finally show "events_of (advance_task t row e q) t = keep_last (sq_max_events q) (?evs @ [e])" .
qed

lemma hd_keep_last_bound:
  assumes c: "contiguous evs" and ne: "evs \<noteq> []" and sm: "unat (ev_sequence (hd evs)) + length evs \<le> 2 ^ 63"
    and n: "0 < n"
  shows "unat (ev_sequence (hd (keep_last n evs))) + length (keep_last n evs) \<le> 2 ^ 63"
proof -
  let ?k = "length evs - n"
  have k: "?k < length evs" using n ne by (cases evs) auto
  then have "hd (keep_last n evs) = evs ! ?k" by (simp add: keep_last_def hd_drop_conv_nth)
  moreover have "unat (ev_sequence (evs ! ?k)) = unat (ev_sequence (hd evs)) + ?k"
    using contiguousD [OF c k] sm k by (simp add: unat_add_of_nat)
  ultimately show ?thesis using sm k by (simp add: length_keep_last)
qed

lemma advance_task_wf:
  assumes wf: "db_wf q" and row: "hget (sq_tasks q) t = Some row"
    and e: "ev_task_id e = t" "ev_sequence e = tr_latest_sequence row + 1"
    and bound: "Suc (unat (tr_latest_sequence row)) < 2 ^ 63"
  shows "db_wf (advance_task t row e q)"
  unfolding db_wf_def
proof (intro conjI allI impI ballI)
  let ?q = "advance_task t row e q"
  have mx: "2 \<le> sq_max_events q" "sq_max_events q < 2 ^ 64" using wf by (simp_all add: db_wf_def)
  then show "2 \<le> sq_max_events ?q" "sq_max_events ?q < 2 ^ 64" by simp_all
  show "hwf (sq_tasks ?q)" using db_wf_hwf [OF wf] by (simp add: advance_task_def)
  show "hget (sq_tasks ?q) (ev_task_id x) \<noteq> None" if "x \<in> set (sq_events ?q)" for x
  proof -
    have "x = e \<or> x \<in> set (sq_events q)"
      using that by (auto simp: advance_task_def split: if_splits)
    then show ?thesis using db_wf_events [OF wf] e by auto
  qed
  have key: "\<exists>x'. hget (sq_tasks q) a = Some x' \<and> tr_idempotency_key x' = tr_idempotency_key x"
    if "hget (sq_tasks ?q) a = Some x" for a x
    using that row by (cases "a = t") auto
  show "a = b" if "hget (sq_tasks ?q) a = Some x" "hget (sq_tasks ?q) b = Some y"
    "tr_idempotency_key x = tr_idempotency_key y" for a b x y
    using key [OF that(1)] key [OF that(2)] that(3) db_wf_keys [OF wf] by metis
  show "rows_ok (sq_max_events ?q) row' (events_of ?q t')" if r': "hget (sq_tasks ?q) t' = Some row'" for t' row'
  proof (cases "t' = t")
    case False
    with r' e show ?thesis using db_wf_rows [OF wf] by (simp add: events_of_advance_other)
  next
    case True
    note adv = events_of_advance [OF db_wf_rows [OF wf row] mx e bound]
    let ?evs = "events_of q t @ [e]"
    have "contiguous (keep_last (sq_max_events q) ?evs)"
      unfolding keep_last_def using adv(2) by (rule contiguous_drop)
    moreover have "unat (ev_sequence (hd (keep_last (sq_max_events q) ?evs))) +
        length (keep_last (sq_max_events q) ?evs) \<le> 2 ^ 63"
      using adv(2,3) mx by (intro hd_keep_last_bound) simp_all
    ultimately show ?thesis
      using True r' mx by (auto simp: adv(1) rows_ok_def keep_last_snoc_neq last_keep_last_snoc length_keep_last)
  qed
qed

lemma transition_sync_cases:
  "transition_sync None t req d now q =
    (case content_free_detail d of Inl e \<Rightarrow> (q, Inl e) | Inr d' \<Rightarrow>
     (case hget (sq_tasks q) t of None \<Rightarrow> (q, Inl UnknownTask)
      | Some row \<Rightarrow>
          let st = canonical_state req; e = next_event t (tr_latest_sequence row) st now d'
          in if legal_transition (tr_state row) st then (advance_task t row e q, Inr e)
             else (q, Inl (illegal_transition (tr_state row) st))))"
  by (simp add: transition_sync_def advance_task_def next_event_def Let_def split: sum.split option.split)

subsubsection \<open>Simulation\<close>

lemma simI:
  assumes "db_wf q" and "store_wf s" and "sq_max_events q = st_max_events s"
    and "sq_terminal_status_ttl_ms q = st_terminal_status_ttl_ms s"
    and "\<And>t. rel_option rec_sim (db_view q t) (hget (st_records s) t)"
  shows "sim q s"
proof -
  have "map_option erase (db_view q t) = map_option erase (hget (st_records s) t)" for t
    using assms(5) [of t] by (cases "db_view q t"; cases "hget (st_records s) t") (simp_all add: rec_sim_def)
  with assms(1-4) show ?thesis by (simp add: sim_def)
qed

lemma simD: "sim q s \<Longrightarrow> rel_option rec_sim (db_view q t) (hget (st_records s) t)"
proof -
  assume "sim q s"
  then have "map_option erase (db_view q t) = map_option erase (hget (st_records s) t)"
    by (simp add: sim_def)
  then show ?thesis
    by (cases "db_view q t"; cases "hget (st_records s) t") (simp_all add: rec_sim_def)
qed

lemma sim_wf: "sim q s \<Longrightarrow> db_wf q" "sim q s \<Longrightarrow> store_wf s"
  by (simp_all add: sim_def)

lemma sim_cfg: "sim q s \<Longrightarrow> sq_max_events q = st_max_events s"
  "sim q s \<Longrightarrow> sq_terminal_status_ttl_ms q = st_terminal_status_ttl_ms s"
  by (simp_all add: sim_def)

lemma open_sim: "mx < 2 ^ 64 \<Longrightarrow> sim (open_store mx ttl) (new_store mx ttl)"
  by (rule simI) (simp_all add: open_store_def db_wf_def new_store_wf, simp_all add: new_store_def db_view_def)

lemma status_sim:
  assumes "sim q s"
  shows "sim (fst (status_sync None t now q)) (fst (status t now s)) \<and>
    rel_sum err_sim rec_sim (snd (status_sync None t now q)) (snd (status t now s))"
proof (cases "hget (sq_tasks q) t")
  case None
  then have "hget (st_records s) t = None" using sim_None [OF assms] by simp
  with None assms show ?thesis by (simp add: status_sync_def status_unknown)
next
  case (Some row)
  obtain r where r: "hget (st_records s) t = Some r" and rs: "rec_sim (row_record t row (events_of q t)) r"
    using sim_Some [OF assms Some] .
  note f = rec_sim_row [OF rs db_wf_rows [OF sim_wf(1) [OF assms] Some]]
  show ?thesis
  proof (cases "record_expired now (st_terminal_status_ttl_ms s) r")
    case True
    then have exp: "terminal (tr_state row) \<and> sat_sub now (tr_updated_at_ms row) > sq_terminal_status_ttl_ms q"
      using f sim_cfg [OF assms] by (simp add: record_expired_def)
    have "sim (delete_task t q) (s\<lparr>st_records := hdel t (st_records s)\<rparr>)"
    proof (rule simI)
      fix t'
      show "rel_option rec_sim (db_view (delete_task t q) t')
          (hget (st_records (s\<lparr>st_records := hdel t (st_records s)\<rparr>)) t')"
        using simD [OF assms, of t'] by (simp add: db_view_def events_of_delete)
    qed (use assms in \<open>simp_all add: delete_task_wf sim_wf store_wf_hdel sim_cfg\<close>)
    with exp Some r True show ?thesis
      by (simp add: status_sync_def status_expired)
  next
    case False
    then have "\<not> (terminal (tr_state row) \<and> sat_sub now (tr_updated_at_ms row) > sq_terminal_status_ttl_ms q)"
      using f sim_cfg [OF assms] by (simp add: record_expired_def)
    with Some r False rs assms show ?thesis
      by (simp add: status_sync_def status_live load_record_wf sim_wf del: not_less de_Morgan_conj)
  qed
qed

lemma submit_sim:
  assumes sim: "sim q s"
  shows "sim (fst (submit_sync None t k d now q)) (fst (submit t k d now s)) \<and>
    rel_sum err_sim (rel_prod rec_sim (=)) (snd (submit_sync None t k d now q)) (snd (submit t k d now s))"
proof (cases "hget (sq_tasks q) t")
  case (Some row)
  obtain r where r: "hget (st_records s) t = Some r" and rs: "rec_sim (row_record t row (events_of q t)) r"
    using sim_Some [OF sim Some] .
  note f = rec_sim_row [OF rs db_wf_rows [OF sim_wf(1) [OF sim] Some]]
  obtain m where "submit_sync None t k d now q =
    (if tr_idempotency_key row \<noteq> k \<or> tr_request_digest row \<noteq> d then (q, Inl (Conflict m))
     else (q, Inr (row_record t row (events_of q t), False)))"
    using submit_sync_known [OF sim_wf(1) [OF sim] Some] by blast
  with r rs f sim show ?thesis by (simp add: submit_def)
next
  case None
  then have none: "hget (st_records s) t = None" using sim_None [OF sim] by simp
  show ?thesis
  proof (cases "\<exists>r \<in> set (hvals (st_records s)). rec_idempotency_key r = k")
    case True
    then obtain t0 r0 where r0: "hget (st_records s) t0 = Some r0" "rec_idempotency_key r0 = k"
      using in_hvals_iff [OF store_wf_hwf [OF sim_wf(2) [OF sim]]] by blast
    then obtain row0 where row0: "hget (sq_tasks q) t0 = Some row0"
      using sim_None [OF sim, of t0] by (cases "hget (sq_tasks q) t0") auto
    obtain r' where "hget (st_records s) t0 = Some r'" "rec_sim (row_record t0 row0 (events_of q t0)) r'"
      using sim_Some [OF sim row0] .
    with r0 have "tr_idempotency_key row0 = k"
      using rec_sim_row(1) [OF _ db_wf_rows [OF sim_wf(1) [OF sim] row0], of t0 r'] by simp
    then obtain m where "submit_sync None t k d now q = (q, Inl (Conflict m))"
      using submit_sync_reused [OF sim_wf(1) [OF sim] None row0] by blast
    with none True sim show ?thesis by (simp add: submit_def)
  next
    case False
    have fresh: "tr_idempotency_key row \<noteq> k" if row: "hget (sq_tasks q) t' = Some row" for t' row
    proof -
      obtain r' where "hget (st_records s) t' = Some r'" "rec_sim (row_record t' row (events_of q t')) r'"
        using sim_Some [OF sim row] .
      then have "r' \<in> set (hvals (st_records s))" and "rec_idempotency_key r' = tr_idempotency_key row"
        using in_hvals_iff [OF store_wf_hwf [OF sim_wf(2) [OF sim]]]
          rec_sim_row(1) [OF _ db_wf_rows [OF sim_wf(1) [OF sim] row]] by blast+
      with False show ?thesis by metis
    qed
    have acc: "rec_sim (accepted_record t k d (JObj []) now) (accepted_record t k d JNull now)"
      by (simp add: rec_sim_def accepted_record_def erase_def erase_ev_def)
    have "sim (insert_task t k d now q) (fst (submit t k d now s))"
    proof (rule simI)
      fix t'
      show "rel_option rec_sim (db_view (insert_task t k d now q) t') (hget (st_records (fst (submit t k d now s))) t')"
        using simD [OF sim, of t'] none False acc
        by (simp add: db_view_def submit_def Let_def events_of_insert events_of_none [OF sim_wf(1) [OF sim] None])
          (simp add: row_record_def accepted_record_def)
    qed (use sim none False in \<open>simp_all add: insert_task_wf [OF _ None fresh] sim_wf submit_wf\<close>,
        simp_all add: submit_def sim_cfg Let_def)
    with none False acc show ?thesis
      by (simp add: submit_sync_fresh [OF sim_wf(1) [OF sim] None fresh] submit_def Let_def)
  qed
qed

lemma map_keep_last: "map f (keep_last n xs) = keep_last n (map f xs)"
  by (simp add: keep_last_def drop_map)

lemma keep_last_erase: "map erase_ev xs = map erase_ev ys \<Longrightarrow> erase_ev x = erase_ev y \<Longrightarrow>
    map erase_ev (keep_last n (xs @ [x])) = map erase_ev (keep_last n (ys @ [y]))"
  by (simp add: map_keep_last)

definition latest_below :: "nat \<Rightarrow> sqlite_store \<Rightarrow> bool" where
  "latest_below n q \<longleftrightarrow> (\<forall>t row. hget (sq_tasks q) t = Some row \<longrightarrow> unat (tr_latest_sequence row) \<le> n)"

lemma transition_sim:
  assumes sim: "sim q s" and d: "content_free_detail d = Inr d'"
    and bound: "latest_below n q" "Suc n < 2 ^ 63"
  shows "sim (fst (transition_sync None t req d now q)) (fst (transition t req d now s)) \<and>
    rel_sum err_sim ev_sim (snd (transition_sync None t req d now q)) (snd (transition t req d now s))"
proof (cases "hget (sq_tasks q) t")
  case None
  then have "hget (st_records s) t = None" using sim_None [OF sim] by simp
  with None sim d show ?thesis by (simp add: transition_sync_cases transition_def)
next
  case (Some row)
  obtain r where r: "hget (st_records s) t = Some r" and rs: "rec_sim (row_record t row (events_of q t)) r"
    using sim_Some [OF sim Some] .
  note rows = db_wf_rows [OF sim_wf(1) [OF sim] Some]
  note f = rec_sim_row [OF rs rows]
  let ?st = "canonical_state req"
  let ?e = "next_event t (tr_latest_sequence row) ?st now d" and ?e' = "next_event t (tr_latest_sequence row) ?st now d'"
  have ee: "erase_ev ?e' = erase_ev ?e" by (simp add: erase_ev_fields next_event_def)
  show ?thesis
  proof (cases "legal_transition (tr_state row) ?st")
    case False
    with Some r f d sim show ?thesis by (simp add: transition_sync_cases transition_cases Let_def)
  next
    case True
    have b: "Suc (unat (tr_latest_sequence row)) < 2 ^ 63"
      using bound Some by (auto simp: latest_below_def intro: le_less_trans)
    have e': "ev_task_id ?e' = t" "ev_sequence ?e' = tr_latest_sequence row + 1"
      by (simp_all add: next_event_def)
    note adv = events_of_advance(1) [OF rows db_wf_max [OF sim_wf(1) [OF sim]] e' b]
    have "sim (advance_task t row ?e' q) (fst (transition t req d now s))"
    proof (rule simI)
      fix t'
      show "rel_option rec_sim (db_view (advance_task t row ?e' q) t') (hget (st_records (fst (transition t req d now s))) t')"
      proof (cases "t' = t")
        case False
        with simD [OF sim, of t'] r f True e' show ?thesis
          by (simp add: db_view_def transition_cases Let_def events_of_advance_other)
      next
        case same: True
        have "map erase_ev (keep_last (st_max_events s) (events_of q t @ [?e'])) =
            map erase_ev (keep_last (st_max_events s) (rec_events r @ [?e]))"
          using f(6) ee by (intro keep_last_erase) simp_all
        moreover have "rec_task_id r = t"
          using store_wf_record [OF sim_wf(2) [OF sim] r] by (simp add: record_wf_def)
        ultimately show ?thesis
          using same r f True
          by (simp add: db_view_def transition_cases Let_def adv sim_cfg [OF sim] rec_sim_def erase_fields advance_def)
            (simp add: next_event_def)
      qed
    qed (use sim Some True r f in \<open>simp_all add: advance_task_wf [OF _ Some e' b] sim_wf transition_wf\<close>,
        simp_all add: transition_cases Let_def sim_cfg)
    with Some r f True d ee show ?thesis
      by (simp add: transition_sync_cases transition_cases Let_def ev_sim_def)
  qed
qed

lemma rel_filter: "map erase_ev xs = map erase_ev ys \<Longrightarrow>
    map erase_ev (filter (\<lambda>e. P (ev_sequence e)) xs) = map erase_ev (filter (\<lambda>e. P (ev_sequence e)) ys)"
proof (induction xs arbitrary: ys)
  case (Cons x xs)
  then obtain y ys' where "ys = y # ys'" "erase_ev x = erase_ev y" "map erase_ev xs = map erase_ev ys'" by auto
  with Cons.IH show ?case by (auto simp: erase_ev_fields)
qed simp

lemma replay_sim:
  assumes "rec_sim r r'"
  shows "rel_sum err_sim (\<lambda>xs ys. map erase_ev xs = map erase_ev ys) (replay_from r n) (replay_from r' n)"
proof -
  have "map erase_ev (rec_events r) = map erase_ev (rec_events r')"
    using assms by (simp add: rec_sim_def erase_fields)
  note this and f = rel_filter [where P = "\<lambda>k. n < sint k", OF this]
  then have "first_sequence r = first_sequence r'" "latest_sequence r = latest_sequence r'"
    using erase_latest [of r r'] by simp_all
  moreover have "rec_state r = rec_state r'" using assms by (simp add: rec_sim_def erase_fields)
  ultimately show ?thesis using f by (simp add: replay_from_def)
qed

lemma events_after_sim:
  assumes "sim q s"
  shows "sim (fst (events_after_sync None t n now q)) (fst (events_after t n now s)) \<and>
    rel_sum err_sim (\<lambda>xs ys. map erase_ev xs = map erase_ev ys)
      (snd (events_after_sync None t n now q)) (snd (events_after t n now s))"
  using status_sim [OF assms, of t now] replay_sim
  by (auto simp: events_after_sync_def events_after_def split: prod.split sum.split)

lemma cancel_detail_ok:
  "content_free_detail (JObj [(''outcome'', JStr ''cancelled'')]) = Inr (JObj [(''outcome'', JStr ''cancelled'')])"
  by (simp add: content_free_detail_def content_free_member_def safe_token_def ascii_defs)

lemma latest_below_status: "latest_below n q \<Longrightarrow> latest_below n (fst (status_sync None t now q))"
  by (auto simp: status_sync_def latest_below_def split: option.split)

lemma cancel_sim:
  assumes sim: "sim q s" and bound: "latest_below n q" "Suc n < 2 ^ 63"
  shows "sim (fst (cancel_sync None None None t n1 n2 n3 q)) (fst (cancel t n1 n2 n3 s)) \<and>
    rel_sum err_sim rec_sim (snd (cancel_sync None None None t n1 n2 n3 q)) (snd (cancel t n1 n2 n3 s))"
proof -
  obtain q1 x s1 y where st: "status_sync None t n1 q = (q1, x)" "status t n1 s = (s1, y)"
    by fastforce
  have sim1: "sim q1 s1" and xy: "rel_sum err_sim rec_sim x y"
    using status_sim [OF sim, of t n1] by (simp_all add: st)
  have b1: "latest_below n q1" using latest_below_status [OF bound(1), of t n1] by (simp add: st)
  obtain q2 u s2 v where tr: "transition_sync None t ''cancelled'' (JObj [(''outcome'', JStr ''cancelled'')]) n2 q1 = (q2, u)"
      "transition t ''cancelled'' (JObj [(''outcome'', JStr ''cancelled'')]) n2 s1 = (s2, v)"
    by fastforce
  have sim2: "sim q2 s2" and uv: "rel_sum err_sim ev_sim u v"
    using transition_sim [OF sim1 cancel_detail_ok b1 bound(2), of t "''cancelled''" n2] by (simp_all add: tr)
  show ?thesis
  proof (cases y)
    case (Inl e)
    with xy sim1 show ?thesis by (cases x) (simp_all add: cancel_sync_def cancel_def st)
  next
    case (Inr r)
    then obtain r' where x: "x = Inr r'" and rr: "rec_sim r' r" using xy by (cases x) simp_all
    then have "rec_state r' = rec_state r" by (simp add: rec_sim_def erase_fields)
    with Inr x rr sim1 sim2 uv status_sim [OF sim1, of t n3] status_sim [OF sim2, of t n3] show ?thesis
      by (cases u; cases v) (simp_all add: cancel_sync_def cancel_def st tr)
  qed
qed

subsection \<open>Whole histories\<close>

text \<open>What a client sees of one call, and of a sequence of calls, on either store.\<close>

datatype lc_answer =
    ASubmit "lifecycle_error + lifecycle_record \<times> bool"
  | ARecord "lifecycle_error + lifecycle_record"
  | AEvent "lifecycle_error + lifecycle_event"
  | AEvents "lifecycle_error + lifecycle_event list"

primrec lc_call :: "lc_op \<Rightarrow> lifecycle_store \<Rightarrow> lifecycle_store \<times> lc_answer" where
  "lc_call (OpSubmit t k d n) s = map_prod id ASubmit (submit t k d n s)"
| "lc_call (OpStatus t n) s = map_prod id ARecord (status t n s)"
| "lc_call (OpTransition t st d n) s = map_prod id AEvent (transition t st d n s)"
| "lc_call (OpCancel t n1 n2 n3) s = map_prod id ARecord (cancel t n1 n2 n3 s)"
| "lc_call (OpEventsAfter t a n) s = map_prod id AEvents (events_after t a n s)"

primrec sq_call :: "lc_op \<Rightarrow> sqlite_store \<Rightarrow> sqlite_store \<times> lc_answer" where
  "sq_call (OpSubmit t k d n) q = map_prod id ASubmit (submit_sync None t k d n q)"
| "sq_call (OpStatus t n) q = map_prod id ARecord (status_sync None t n q)"
| "sq_call (OpTransition t st d n) q = map_prod id AEvent (transition_sync None t st d n q)"
| "sq_call (OpCancel t n1 n2 n3) q = map_prod id ARecord (cancel_sync None None None t n1 n2 n3 q)"
| "sq_call (OpEventsAfter t a n) q = map_prod id AEvents (events_after_sync None t a n q)"

primrec answers :: "('op \<Rightarrow> 's \<Rightarrow> 's \<times> 'a) \<Rightarrow> 'op list \<Rightarrow> 's \<Rightarrow> 'a list" where
  "answers call [] s = []"
| "answers call (c # cs) s = snd (call c s) # answers call cs (fst (call c s))"

text \<open>Two answers agree when they have the same shape and their records and events are equal in every
  field but the details.\<close>

fun same_answer :: "lc_answer \<Rightarrow> lc_answer \<Rightarrow> bool" where
  "same_answer (ASubmit x) (ASubmit y) = rel_sum err_sim (rel_prod rec_sim (=)) x y"
| "same_answer (ARecord x) (ARecord y) = rel_sum err_sim rec_sim x y"
| "same_answer (AEvent x) (AEvent y) = rel_sum err_sim ev_sim x y"
| "same_answer (AEvents x) (AEvents y) = rel_sum err_sim (\<lambda>es fs. map erase_ev es = map erase_ev fs) x y"
| "same_answer _ _ = False"

primrec detail_accepted :: "lc_op \<Rightarrow> bool" where
  "detail_accepted (OpSubmit t k d n) \<longleftrightarrow> True"
| "detail_accepted (OpStatus t n) \<longleftrightarrow> True"
| "detail_accepted (OpTransition t st d n) \<longleftrightarrow> \<not> isl (content_free_detail d)"
| "detail_accepted (OpCancel t n1 n2 n3) \<longleftrightarrow> True"
| "detail_accepted (OpEventsAfter t a n) \<longleftrightarrow> True"

lemma call_sim:
  assumes "sim q s" and "latest_below n q" and "Suc n < 2 ^ 63" and "detail_accepted c"
  shows "sim (fst (sq_call c q)) (fst (lc_call c s)) \<and> same_answer (snd (sq_call c q)) (snd (lc_call c s))"
proof (cases c)
  case (OpTransition t st d now)
  with assms(4) obtain d' where "content_free_detail d = Inr d'" by (cases "content_free_detail d") simp_all
  with OpTransition assms show ?thesis using transition_sim by simp
qed (use assms submit_sim status_sim cancel_sim events_after_sim in simp_all)

lemma latest_below_mono: "latest_below n q \<Longrightarrow> n \<le> m \<Longrightarrow> latest_below m q"
  by (auto simp: latest_below_def intro: le_trans)

lemma latest_below_hput:
  "latest_below n q \<Longrightarrow> unat (tr_latest_sequence row) \<le> n \<Longrightarrow> sq_tasks q' = hput t row (sq_tasks q) \<Longrightarrow> latest_below n q'"
  by (auto simp: latest_below_def)

lemma latest_below_transition:
  assumes "latest_below n q" "Suc n < 2 ^ 63"
  shows "latest_below (Suc n) (fst (transition_sync None t req d now q))"
proof -
  have "latest_below (Suc n) q" using assms(1) by (rule latest_below_mono) simp
  moreover have "latest_below (Suc n) (advance_task t row e q)"
    if "hget (sq_tasks q) t = Some row" "ev_sequence e = tr_latest_sequence row + 1" for row e
  proof (rule latest_below_hput [OF \<open>latest_below (Suc n) q\<close>])
    have "unat (tr_latest_sequence row) \<le> n" using assms that by (simp add: latest_below_def)
    then show "unat (tr_latest_sequence (row\<lparr>tr_state := ev_state e, tr_latest_sequence := ev_sequence e,
        tr_updated_at_ms := ev_observed_at_ms e\<rparr>)) \<le> Suc n"
      using that assms(2) by (simp add: unat_Suc_nowrap)
  qed (simp add: advance_task_def)
  ultimately show ?thesis
    by (simp add: transition_sync_cases Let_def next_event_def split: sum.split option.split)
qed

lemma latest_below_submit: "latest_below n q \<Longrightarrow> latest_below n (fst (submit_sync None t k d now q))"
  by (auto simp: submit_sync_def Let_def latest_below_def split: option.split sum.split if_splits)

lemma latest_below_cancel:
  assumes "latest_below n q" "Suc n < 2 ^ 63"
  shows "latest_below (Suc n) (fst (cancel_sync None None None t n1 n2 n3 q))"
proof -
  obtain q1 x where st: "status_sync None t n1 q = (q1, x)" by fastforce
  have b: "latest_below n q1" using latest_below_status [OF assms(1), of t n1] by (simp add: st)
  then have b': "latest_below (Suc n) q1" by (rule latest_below_mono) simp
  obtain q2 u where tr: "transition_sync None t ''cancelled'' (JObj [(''outcome'', JStr ''cancelled'')]) n2 q1 = (q2, u)"
    by fastforce
  have b2: "latest_below (Suc n) q2"
    using latest_below_transition [OF b assms(2), of t "''cancelled''" _ n2] tr by (metis fst_conv)
  show ?thesis
    using b' b2 latest_below_status [OF b'] latest_below_status [OF b2]
    by (simp add: cancel_sync_def st tr split: sum.split)
qed

lemma latest_below_call:
  assumes b: "latest_below n q" and n: "Suc n < 2 ^ 63"
  shows "latest_below (Suc n) (fst (sq_call c q))"
proof (cases c)
  case (OpEventsAfter t a now)
  then have "fst (sq_call c q) = fst (status_sync None t now q)"
    by (simp add: events_after_sync_def split: prod.split sum.split)
  then show ?thesis using latest_below_mono [OF latest_below_status [OF b]] by simp
qed (use latest_below_mono [OF latest_below_submit [OF b]] latest_below_mono [OF latest_below_status [OF b]]
    latest_below_transition [OF b n] latest_below_cancel [OF b n] in simp_all)

lemma answers_sim:
  assumes "sim q s" and "latest_below n q" and "n + length cs < 2 ^ 63" and "list_all detail_accepted cs"
  shows "list_all2 same_answer (answers sq_call cs q) (answers lc_call cs s)"
  using assms
proof (induction cs arbitrary: n q s)
  case (Cons c cs)
  then have n: "Suc n < 2 ^ 63" by simp
  have "sim (fst (sq_call c q)) (fst (lc_call c s))" "same_answer (snd (sq_call c q)) (snd (lc_call c s))"
    using call_sim [OF Cons.prems(1,2) n] Cons.prems(4) by simp_all
  moreover have "latest_below (Suc n) (fst (sq_call c q))"
    using Cons.prems(2) n by (rule latest_below_call)
  ultimately show ?case using Cons.IH [of "fst (sq_call c q)" "fst (lc_call c s)" "Suc n"] Cons.prems by simp
qed simp



subsection \<open>What the durable store keeps of a detail\<close>

definition lower_hex :: "char \<Rightarrow> bool" where
  "lower_hex c \<longleftrightarrow> is_ascii_hexdigit c \<and> \<not> is_ascii_upper c"

definition durable_digest :: "string \<Rightarrow> bool" where
  "durable_digest d \<longleftrightarrow>
     (let h = unwrap_or (strip_prefix ''sha256:'' d) d in length h = 64 \<and> list_all lower_hex h)"

definition durable_member :: "string \<Rightarrow> json \<Rightarrow> bool" where
  "durable_member k v \<longleftrightarrow>
     (if k = ''progress'' then \<not> isl (check_progress v)
      else if k \<in> set [''receipt_digest'', ''checkpoint_digest'']
      then (case as_str v of Some d \<Rightarrow> durable_digest d | None \<Rightarrow> False)
      else k \<in> set [''event_id'', ''reason_code'', ''outcome''] \<and>
           (case as_str v of Some d \<Rightarrow> \<not> isl (safe_token d) | None \<Rightarrow> False))"

definition durable_detail :: "json \<Rightarrow> bool" where
  "durable_detail d \<longleftrightarrow>
     (case as_object d of Some ms \<Rightarrow> list_all (\<lambda>(k, v). durable_member k v) ms | None \<Rightarrow> False)"

lemma lower_hex_lower: "is_ascii_hexdigit c \<Longrightarrow> lower_hex (ascii_lower_char c)"
  by (auto simp: lower_hex_def ascii_defs Let_def)

lemma lower_hex_to_lower: "list_all is_ascii_hexdigit h \<Longrightarrow> list_all lower_hex (to_ascii_lowercase h)"
  by (induction h) (simp_all add: to_ascii_lowercase_def lower_hex_lower)

lemma digest_durable:
  assumes "check_digest k v = Inr d"
  shows "durable_digest (to_ascii_lowercase d)"
proof (cases "strip_prefix ''sha256:'' d")
  case (Some h)
  with assms have h: "length h = 64" "list_all is_ascii_hexdigit h"
    by (auto simp: check_digest_def Let_def split: option.splits if_splits)
  have "d = ''sha256:'' @ h" using Some by (simp add: strip_prefix_Some)
  then have "to_ascii_lowercase d = ''sha256:'' @ to_ascii_lowercase h"
    by (simp add: ascii_defs)
  then have "strip_prefix ''sha256:'' (to_ascii_lowercase d) = Some (to_ascii_lowercase h)"
    by (simp only: strip_prefix_append)
  with h show ?thesis by (simp add: durable_digest_def lower_hex_to_lower) (simp add: to_ascii_lowercase_def)
next
  case None
  with assms have h: "length d = 64" "list_all is_ascii_hexdigit d"
    by (auto simp: check_digest_def Let_def split: option.splits if_splits)
  then have l: "list_all lower_hex (to_ascii_lowercase d)" "length (to_ascii_lowercase d) = 64"
    by (simp_all add: lower_hex_to_lower) (simp add: to_ascii_lowercase_def)
  have "strip_prefix ''sha256:'' (to_ascii_lowercase d) = None"
  proof (cases "strip_prefix ''sha256:'' (to_ascii_lowercase d)")
    case (Some r)
    then have "list_all lower_hex (''sha256:'' @ r)" using l by (simp add: strip_prefix_Some)
    then show ?thesis by (simp add: lower_hex_def ascii_defs)
  qed
  with l show ?thesis by (simp add: durable_digest_def)
qed

lemma member_durable: "content_free_member k v = Inr v' \<Longrightarrow> durable_member k v'"
  by (auto simp: content_free_member_def durable_member_def digest_durable
      split: if_splits sum.splits option.splits)

lemma members_durable:
  "content_free_members ms = Inr ms' \<Longrightarrow> list_all (\<lambda>(k, v). durable_member k v) ms'"
  by (induction ms arbitrary: ms' rule: content_free_members.induct)
    (auto simp: member_durable split: sum.splits)

lemma detail_durable: "content_free_detail d = Inr d' \<Longrightarrow> durable_detail d'"
  by (auto simp: content_free_detail_def durable_detail_def members_durable
      split: if_splits option.splits sum.splits)

definition db_durable :: "sqlite_store \<Rightarrow> bool" where
  "db_durable q \<longleftrightarrow> list_all (\<lambda>e. durable_detail (ev_detail e)) (sq_events q)"

lemma db_durable_filter:
  "db_durable q \<Longrightarrow> set (sq_events q') \<subseteq> set (sq_events q) \<union> {e} \<Longrightarrow> durable_detail (ev_detail e) \<Longrightarrow> db_durable q'"
  by (auto simp: db_durable_def list_all_iff)

lemma durable_empty: "durable_detail (JObj [])"
  by (simp add: durable_detail_def)

lemma submit_durable: "db_durable q \<Longrightarrow> db_durable (fst (submit_sync io t k d n q))"
  by (auto simp: submit_sync_def Let_def db_durable_def durable_empty split: option.split sum.split)

lemma status_durable: "db_durable q \<Longrightarrow> db_durable (fst (status_sync io t n q))"
  by (auto simp: status_sync_def delete_task_def db_durable_def list_all_iff split: option.split)

lemma transition_durable: "db_durable q \<Longrightarrow> db_durable (fst (transition_sync io t st d n q))"
  by (auto simp: transition_sync_def Let_def db_durable_def list_all_iff dest: detail_durable
      split: option.split sum.split)

lemma cancel_durable: "db_durable q \<Longrightarrow> db_durable (fst (cancel_sync io1 io2 io3 t n1 n2 n3 q))"
  using status_durable [of q io1 t n1] transition_durable status_durable
  by (fastforce simp: cancel_sync_def split: prod.split sum.split dest: arg_cong [of _ _ fst])


text \<open>A step of the durable store; \<open>io\<close> gives the outcome of each of its transactions.\<close>

fun sq_step :: "(nat \<Rightarrow> string option) \<times> lc_op \<Rightarrow> sqlite_store \<Rightarrow> sqlite_store" where
  "sq_step (io, OpSubmit t k d n) q = fst (submit_sync (io 0) t k d n q)"
| "sq_step (io, OpStatus t n) q = fst (status_sync (io 0) t n q)"
| "sq_step (io, OpTransition t st d n) q = fst (transition_sync (io 0) t st d n q)"
| "sq_step (io, OpCancel t n1 n2 n3) q = fst (cancel_sync (io 0) (io 1) (io 2) t n1 n2 n3 q)"
| "sq_step (io, OpEventsAfter t a n) q = fst (events_after_sync (io 0) t a n q)"

lemma fst_events_after_sync: "fst (events_after_sync io t a n q) = fst (status_sync io t n q)"
  by (simp add: events_after_sync_def split: prod.split sum.split)

interpretation sq: step_system sq_step db_durable
proof
  show "db_durable q \<Longrightarrow> db_durable (sq_step e q)" for q e
    by (cases e rule: prod.exhaust; cases "snd e")
      (simp_all add: submit_durable status_durable transition_durable cancel_durable fst_events_after_sync)
qed


end
