(* ===== verification/Lifecycle_Http.thy ===== *)
theory Lifecycle_Http
  imports Lifecycle_Sqlite
begin

text \<open>
  The HTTP binding of the lifecycle profile (second half of \<^verbatim>\<open>src/service_lifecycle.rs\<close>) and the storage
  port \<^verbatim>\<open>LifecyclePersistence\<close> between it and the stores.

  The port is a trait object: here a record of functions, one per method, over a state \<open>'s\<close>.  The
  argument \<open>'e\<close> of each function is what its execution reads from outside: the clock for the
  in-memory store, the clock and the outcome of every transaction for the SQLite store.  The two
  implementations of the trait are \<open>memory_persistence\<close> and \<open>sqlite_persistence\<close>.  What the
  handlers rely on is the locale \<open>lifecycle_persistence\<close>, interpreted on both.

  A response is its status code and its body; \<^verbatim>\<open>serde_json\<close>'s text of a value is left as the value,
  and an event stream is the list of its lines.  Routing and the extraction of path, query and body
  belong to the web framework: a request is what the handlers receive from it.
\<close>

subsection \<open>The storage port\<close>

record ('e, 's) persistence =
  p_submit :: "'e \<Rightarrow> string \<Rightarrow> string \<Rightarrow> string \<Rightarrow> 's \<Rightarrow> 's \<times> (lifecycle_error + lifecycle_record \<times> bool)"
  p_status :: "'e \<Rightarrow> string \<Rightarrow> 's \<Rightarrow> 's \<times> (lifecycle_error + lifecycle_record)"
  p_transition :: "'e \<Rightarrow> string \<Rightarrow> string \<Rightarrow> json \<Rightarrow> 's \<Rightarrow> 's \<times> (lifecycle_error + lifecycle_event)"
  p_cancel :: "'e \<Rightarrow> string \<Rightarrow> 's \<Rightarrow> 's \<times> (lifecycle_error + lifecycle_record)"
  p_events_after :: "'e \<Rightarrow> string \<Rightarrow> int \<Rightarrow> 's \<Rightarrow> 's \<times> (lifecycle_error + lifecycle_event list)"

type_synonym clock = "nat \<Rightarrow> u64"

definition memory_persistence :: "(clock, lifecycle_store) persistence" where
  "memory_persistence =
     \<lparr>p_submit = \<lambda>now t k d. submit t k d (now 0),
      p_status = \<lambda>now t. status t (now 0),
      p_transition = \<lambda>now t st d. transition t st d (now 0),
      p_cancel = \<lambda>now t. cancel t (now 0) (now 1) (now 2),
      p_events_after = \<lambda>now t a. events_after t a (now 0)\<rparr>"

definition sqlite_persistence :: "((nat \<Rightarrow> string option) \<times> clock, sqlite_store) persistence" where
  "sqlite_persistence =
     \<lparr>p_submit = \<lambda>(io, now) t k d. submit_sync (io 0) t k d (now 0),
      p_status = \<lambda>(io, now) t. status_sync (io 0) t (now 0),
      p_transition = \<lambda>(io, now) t st d. transition_sync (io 0) t st d (now 0),
      p_cancel = \<lambda>(io, now) t. cancel_sync (io 0) (io 1) (io 2) t (now 0) (now 1) (now 2),
      p_events_after = \<lambda>(io, now) t a. events_after_sync (io 0) t a (now 0)\<rparr>"

subsection \<open>Authorization\<close>

datatype lifecycle_operation = OSubmit | OStatus | OObserve | OCancel

record authorization_request =
  ar_credential :: "string option"
  ar_operation :: lifecycle_operation
  ar_task_id :: string

record authorization_decision =
  ad_authenticated :: bool
  ad_allowed :: bool
  ad_conceal_task :: bool

definition decision_allowed :: authorization_decision where
  "decision_allowed = \<lparr>ad_authenticated = True, ad_allowed = True, ad_conceal_task = False\<rparr>"

type_synonym authorizer = "authorization_request \<Rightarrow> authorization_decision"

text \<open>The status codes the handlers name.\<close>

definition OK :: nat where "OK = 200"
definition ACCEPTED :: nat where "ACCEPTED = 202"
definition UNAUTHORIZED :: nat where "UNAUTHORIZED = 401"
definition FORBIDDEN :: nat where "FORBIDDEN = 403"
definition NOT_FOUND :: nat where "NOT_FOUND = 404"
definition CONFLICT :: nat where "CONFLICT = 409"
definition INTERNAL_SERVER_ERROR :: nat where "INTERNAL_SERVER_ERROR = 500"

lemmas status_codes = OK_def ACCEPTED_def UNAUTHORIZED_def FORBIDDEN_def NOT_FOUND_def CONFLICT_def
  INTERNAL_SERVER_ERROR_def

text \<open>\<open>credential\<close> is the \<^verbatim>\<open>Authorization\<close> header, if present and readable as text.\<close>

definition authorize ::
    "authorizer \<Rightarrow> string option \<Rightarrow> lifecycle_operation \<Rightarrow> string \<Rightarrow> nat + unit" where
  "authorize az credential operation task =
    (let decision = az \<lparr>ar_credential = credential, ar_operation = operation, ar_task_id = task\<rparr>
     in if ad_allowed decision \<and> ad_authenticated decision then Inr ()
        else if \<not> ad_authenticated decision then Inl UNAUTHORIZED
        else if ad_conceal_task decision then Inl NOT_FOUND
        else Inl FORBIDDEN)"

text \<open>The compatibility authorizer of \<^verbatim>\<open>lifecycle_router_with_persistence\<close>.\<close>

definition shared_token_authorizer :: "string \<Rightarrow> authorizer" where
  "shared_token_authorizer bearer_token request =
    (let expected = ''Bearer '' @ bearer_token;
         valid = (ar_credential request = Some expected)
     in \<lparr>ad_authenticated = valid, ad_allowed = valid, ad_conceal_task = False\<rparr>)"

subsection \<open>Responses\<close>

datatype body = Empty | JsonBody json | Ndjson "json list"

type_synonym response = "nat \<times> body"

definition record_json :: "lifecycle_record \<Rightarrow> json" where
  "record_json r = JObj [(''is_final'', JBool (terminal (rec_state r))),
     (''latest_sequence'', JPos (latest_sequence r)), (''profile'', JStr PROFILE),
     (''state'', JStr (rec_state r)), (''task_id'', JStr (rec_task_id r))]"

definition event_json :: "lifecycle_event \<Rightarrow> json" where
  "event_json e = JObj ([(''task_id'', JStr (ev_task_id e)), (''sequence'', JPos (ev_sequence e)),
     (''state'', JStr (ev_state e)), (''is_final'', JBool (ev_is_final e)),
     (''observed_at_ms'', JPos (ev_observed_at_ms e))] @
     (if ev_detail e = JNull then [] else [(''detail'', ev_detail e)]))"

fun error_response :: "lifecycle_error \<Rightarrow> response" where
  "error_response UnknownTask = (NOT_FOUND, JsonBody (JObj [(''code'', JStr ''unknown_task'')]))"
| "error_response (Conflict m) =
     (CONFLICT, JsonBody (JObj [(''code'', JStr ''conflict''), (''message'', JStr m)]))"
| "error_response (ResumeUnavailable st n) =
     (CONFLICT, JsonBody (JObj [(''code'', JStr ''resume_unavailable''),
        (''latest_sequence'', JPos n), (''state'', JStr st)]))"
| "error_response (Storage m) =
     (INTERNAL_SERVER_ERROR, JsonBody (JObj [(''code'', JStr ''lifecycle_storage_error''), (''message'', JStr m)]))"

subsection \<open>The handlers\<close>

record submit_request =
  sr_task_id :: string
  sr_idempotency_key :: string
  sr_request_digest :: string

definition submit_http ::
    "('e, 's) persistence \<Rightarrow> authorizer \<Rightarrow> 'e \<Rightarrow> string option \<Rightarrow> submit_request \<Rightarrow> 's \<Rightarrow> 's \<times> response" where
  "submit_http p az e credential b s =
    (case authorize az credential OSubmit (sr_task_id b) of
       Inl code \<Rightarrow> (s, code, Empty)
     | Inr _ \<Rightarrow>
         (case p_submit p e (sr_task_id b) (sr_idempotency_key b) (sr_request_digest b) s of
            (s', Inr (r, created)) \<Rightarrow> (s', if created then ACCEPTED else OK, JsonBody (record_json r))
          | (s', Inl err) \<Rightarrow> (s', error_response err)))"

definition status_http ::
    "('e, 's) persistence \<Rightarrow> authorizer \<Rightarrow> 'e \<Rightarrow> string option \<Rightarrow> string \<Rightarrow> 's \<Rightarrow> 's \<times> response" where
  "status_http p az e credential task s =
    (case authorize az credential OStatus task of
       Inl code \<Rightarrow> (s, code, Empty)
     | Inr _ \<Rightarrow>
         (case p_status p e task s of
            (s', Inr r) \<Rightarrow> (s', OK, JsonBody (record_json r))
          | (s', Inl err) \<Rightarrow> (s', error_response err)))"

definition default_after :: int where "default_after = -1"

definition observe_http ::
    "('e, 's) persistence \<Rightarrow> authorizer \<Rightarrow> 'e \<Rightarrow> string option \<Rightarrow> string \<Rightarrow> int option \<Rightarrow> 's \<Rightarrow> 's \<times> response" where
  "observe_http p az e credential task after s =
    (case authorize az credential OObserve task of
       Inl code \<Rightarrow> (s, code, Empty)
     | Inr _ \<Rightarrow>
         (case p_events_after p e task (unwrap_or after default_after) s of
            (s', Inr events) \<Rightarrow> (s', OK, Ndjson (map event_json events))
          | (s', Inl err) \<Rightarrow> (s', error_response err)))"

definition cancel_http ::
    "('e, 's) persistence \<Rightarrow> authorizer \<Rightarrow> 'e \<Rightarrow> string option \<Rightarrow> string \<Rightarrow> 's \<Rightarrow> 's \<times> response" where
  "cancel_http p az e credential task s =
    (case authorize az credential OCancel task of
       Inl code \<Rightarrow> (s, code, Empty)
     | Inr _ \<Rightarrow>
         (case p_cancel p e task s of
            (s', Inr r) \<Rightarrow> (s', OK, JsonBody (record_json r))
          | (s', Inl err) \<Rightarrow> (s', error_response err)))"

text \<open>The routes of \<^verbatim>\<open>lifecycle_router_with_authorizer\<close>.\<close>

datatype lifecycle_request =
    PostTask submit_request
  | GetTask string
  | GetEvents string "int option"
  | PostCancel string

primrec route :: "('e, 's) persistence \<Rightarrow> authorizer \<Rightarrow> 'e \<Rightarrow> string option \<Rightarrow> lifecycle_request \<Rightarrow> 's \<Rightarrow> 's \<times> response" where
  "route p az e credential (PostTask b) s = submit_http p az e credential b s"
| "route p az e credential (GetTask t) s = status_http p az e credential t s"
| "route p az e credential (GetEvents t a) s = observe_http p az e credential t a s"
| "route p az e credential (PostCancel t) s = cancel_http p az e credential t s"

subsection \<open>The contract of the storage port\<close>

text \<open>The invariant carries a budget: \<open>inv n s\<close> allows \<open>n\<close> more calls.  The SQLite store keeps its
  sequence numbers in a signed column, so a budget is what it can promise; the in-memory store ignores it.\<close>

locale lifecycle_persistence =
  fixes p :: "('e, 's) persistence" and inv :: "nat \<Rightarrow> 's \<Rightarrow> bool"
  assumes submit_inv: "inv (Suc n) s \<Longrightarrow> inv n (fst (p_submit p e t k d s))"
    and status_inv: "inv (Suc n) s \<Longrightarrow> inv n (fst (p_status p e t s))"
    and events_inv: "inv (Suc n) s \<Longrightarrow> inv n (fst (p_events_after p e t a s))"
    and cancel_inv: "inv (Suc n) s \<Longrightarrow> inv n (fst (p_cancel p e t s))"
    and transition_inv: "inv (Suc n) s \<Longrightarrow> inv n (fst (p_transition p e t st j s))"
    and inv_less: "inv (Suc n) s \<Longrightarrow> inv n s"
    and submit_binds: "inv n s \<Longrightarrow> p_submit p e t k d s = (s', Inr (r, created)) \<Longrightarrow> rec_task_id r = t"
    and submit_replay: "inv n s \<Longrightarrow> p_submit p e t k d s = (s', Inr (r, created)) \<Longrightarrow>
      p_submit p e' t k d s' = (s', Inr (r, False)) \<or> (\<exists>m. p_submit p e' t k d s' = (s', Inl (Storage m)))"
    and submit_rebind: "inv n s \<Longrightarrow> p_submit p e t k d s = (s', Inr (r, created)) \<Longrightarrow> (k', d') \<noteq> (k, d) \<Longrightarrow>
      \<exists>m. p_submit p e' t k' d' s' = (s', Inl (Conflict m)) \<or> p_submit p e' t k' d' s' = (s', Inl (Storage m))"
    and status_binds: "inv n s \<Longrightarrow> p_status p e t s = (s', Inr r) \<Longrightarrow> rec_task_id r = t"
    and cancel_terminal: "inv (Suc n) s \<Longrightarrow> p_cancel p e t s = (s', Inr r) \<Longrightarrow>
      rec_task_id r = t \<and> terminal (rec_state r)"
begin

text \<open>The state a request leaves behind.\<close>

lemma route_inv: "inv (Suc n) s \<Longrightarrow> inv n (fst (route p az e c req s))"
  using submit_inv [of n s e] status_inv [of n s e] events_inv [of n s e] cancel_inv [of n s e] inv_less [of n s]
  by (cases req)
    (fastforce simp: submit_http_def status_http_def observe_http_def cancel_http_def
      split: sum.split prod.split dest: arg_cong [of _ _ fst])+

lemma routes_inv: "inv (n + length reqs) s \<Longrightarrow>
    inv n (fold (\<lambda>(e, c, req) s. fst (route p az e c req s)) reqs s)"
  by (induction reqs arbitrary: s) (auto simp: route_inv)

lemma submit_retry:
  assumes "inv n s" and "submit_http p az e c b s = (s', code, body)" and "code \<in> {OK, ACCEPTED}"
    and "submit_http p az e' c b s' = (s'', code', body')"
  shows "s'' = s' \<and> (code' = OK \<and> body' = body \<or> code' = INTERNAL_SERVER_ERROR)"
proof (cases "authorize az c OSubmit (sr_task_id b)")
  case (Inl x)
  with assms(2,3) show ?thesis
    by (auto simp: submit_http_def authorize_def Let_def status_codes split: if_splits)
next
  case (Inr u)
  obtain s1 x where x: "p_submit p e (sr_task_id b) (sr_idempotency_key b) (sr_request_digest b) s = (s1, x)"
    by fastforce
  show ?thesis
  proof (cases x)
    case Inl': (Inl err)
    with assms(2,3) Inr x show ?thesis by (cases err) (auto simp: submit_http_def status_codes)
  next
    case Inr': (Inr rc)
    obtain r created where rc: "rc = (r, created)" by fastforce
    from submit_replay [OF assms(1) x [unfolded Inr' rc], of e'] assms(2,4) Inr Inr' rc x show ?thesis
      by (auto simp: submit_http_def)
  qed
qed

lemma cancel_final:
  assumes "inv (Suc n) s" and "cancel_http p az e c t s = (s', OK, body)"
  shows "\<exists>j. body = JsonBody j \<and> get_str j ''task_id'' = Some t \<and> get_bool j ''is_final'' = Some True"
proof (cases "authorize az c OCancel t")
  case (Inl x)
  with assms(2) show ?thesis
    by (auto simp: cancel_http_def authorize_def Let_def status_codes split: if_splits)
next
  case (Inr u)
  obtain s1 x where x: "p_cancel p e t s = (s1, x)" by fastforce
  show ?thesis
  proof (cases x)
    case Inl': (Inl err)
    with assms(2) Inr x show ?thesis by (cases err) (auto simp: cancel_http_def status_codes)
  next
    case Inr': (Inr r)
    from cancel_terminal [OF assms(1) x [unfolded Inr']] assms(2) Inr Inr' x show ?thesis
      by (auto simp: cancel_http_def record_json_def json_access)
  qed
qed

end

subsubsection \<open>The in-memory store\<close>

lemma memory_sel [simp]:
  "p_submit memory_persistence now t k d = submit t k d (now 0)"
  "p_status memory_persistence now t = status t (now 0)"
  "p_transition memory_persistence now t st j = transition t st j (now 0)"
  "p_cancel memory_persistence now t = cancel t (now 0) (now 1) (now 2)"
  "p_events_after memory_persistence now t a = events_after t a (now 0)"
  by (simp_all add: memory_persistence_def)

lemma submit_result:
  assumes "submit t k d now s = (s', Inr (r, created))"
  shows "hget (st_records s') t = Some r \<and> rec_idempotency_key r = k \<and> rec_request_digest r = d"
  using assms by (auto simp: submit_def Let_def accepted_record_def split: option.splits if_splits)

lemma status_result: "status t now s = (s', Inr r) \<Longrightarrow> hget (st_records s') t = Some r"
  by (auto simp: status_def Let_def split: option.splits if_splits)

lemma status_store_Inr: "status t now s = (s', Inr r) \<Longrightarrow> s' = s"
  by (auto simp: status_def Let_def split: option.splits if_splits)

lemma transition_state:
  "transition t st j now s = (s', Inr e) \<Longrightarrow> \<exists>r. hget (st_records s') t = Some r \<and> rec_state r = canonical_state st"
  by (auto simp: transition_cases Let_def advance_def split: option.splits if_splits)

lemma cancel_result:
  assumes "cancel t n1 n2 n3 s = (s', Inr r)"
  shows "hget (st_records s') t = Some r \<and> terminal (rec_state r)"
proof -
  obtain s1 x where st: "status t n1 s = (s1, x)" by fastforce
  obtain r1 where x: "x = Inr r1" using assms st by (cases x) (simp_all add: cancel_def)
  show ?thesis
  proof (cases "terminal (rec_state r1)")
    case True
    with assms st x have "status t n3 s1 = (s', Inr r)" by (simp add: cancel_def)
    with status_result [OF this] status_store_Inr [OF this] status_result [OF st [unfolded x]] True
    show ?thesis by simp
  next
    case False
    obtain s2 y where tr: "transition t ''cancelled'' (JObj [(''outcome'', JStr ''cancelled'')]) n2 s1 = (s2, y)"
      by fastforce
    with assms st x False obtain e where y: "y = Inr e" by (cases y) (simp_all add: cancel_def)
    with assms st x False tr have "status t n3 s2 = (s', Inr r)" by (simp add: cancel_def)
    with status_result [OF this] status_store_Inr [OF this] transition_state [OF tr [unfolded y]]
    show ?thesis by (auto simp: canonical_state_def terminal_def)
  qed
qed

lemma store_wf_binds: "store_wf s \<Longrightarrow> hget (st_records s) t = Some r \<Longrightarrow> rec_task_id r = t"
  using store_wf_record [of s t r] by (simp add: record_wf_def)

interpretation mem: lifecycle_persistence memory_persistence "\<lambda>n. store_wf"
proof
  fix n s s' t k d k' d' r created and e e' :: clock
  show "store_wf (fst (p_submit memory_persistence e t k d s))" if "store_wf s"
    using that by (simp add: submit_wf)
  show "rec_task_id r = t" if "store_wf s" "p_submit memory_persistence e t k d s = (s', Inr (r, created))"
  proof (rule store_wf_binds)
    show "store_wf s'" using submit_wf [OF that(1), of t k d "e 0"] that(2) by simp
    show "hget (st_records s') t = Some r" using that(2) submit_result by simp
  qed
  show "p_submit memory_persistence e' t k d s' = (s', Inr (r, False)) \<or>
      (\<exists>m. p_submit memory_persistence e' t k d s' = (s', Inl (Storage m)))"
    if "p_submit memory_persistence e t k d s = (s', Inr (r, created))"
    using that submit_result [of t k d "e 0" s s' r created] by (simp add: submit_def)
  show "\<exists>m. p_submit memory_persistence e' t k' d' s' = (s', Inl (Conflict m)) \<or>
      p_submit memory_persistence e' t k' d' s' = (s', Inl (Storage m))"
    if "p_submit memory_persistence e t k d s = (s', Inr (r, created))" "(k', d') \<noteq> (k, d)"
    using that submit_result [of t k d "e 0" s s' r created] by (auto simp: submit_def)
  show "rec_task_id r = t" if "store_wf s" "p_status memory_persistence e t s = (s', Inr r)"
    using that status_result [of t "e 0" s s' r] status_store_Inr [of t "e 0" s s' r] by (simp add: store_wf_binds)
  show "rec_task_id r = t \<and> terminal (rec_state r)" if "store_wf s" "p_cancel memory_persistence e t s = (s', Inr r)"
  proof -
    have "store_wf s'" using cancel_wf [OF that(1), of t "e 0" "e 1" "e 2"] that(2) by simp
    with cancel_result that(2) show ?thesis by (simp add: store_wf_binds)
  qed
qed (simp_all add: status_wf fst_events_after transition_wf cancel_wf)

subsubsection \<open>The SQLite store\<close>

lemma sqlite_sel [simp]:
  "p_submit sqlite_persistence (io, now) t k d = submit_sync (io 0) t k d (now 0)"
  "p_status sqlite_persistence (io, now) t = status_sync (io 0) t (now 0)"
  "p_transition sqlite_persistence (io, now) t st j = transition_sync (io 0) t st j (now 0)"
  "p_cancel sqlite_persistence (io, now) t = cancel_sync (io 0) (io 1) (io 2) t (now 0) (now 1) (now 2)"
  "p_events_after sqlite_persistence (io, now) t a = events_after_sync (io 0) t a (now 0)"
  by (simp_all add: sqlite_persistence_def)

definition db_budget :: "nat \<Rightarrow> sqlite_store \<Rightarrow> bool" where
  "db_budget n q \<longleftrightarrow> db_wf q \<and> n < 2 ^ 63 \<and> latest_below (2 ^ 63 - Suc n) q"

lemma db_budget_less: "db_budget (Suc n) q \<Longrightarrow> db_budget n q"
  by (auto simp: db_budget_def intro: latest_below_mono)

lemma db_budget_wf: "db_budget n q \<Longrightarrow> db_wf q"
  by (simp add: db_budget_def)

lemma sync_failed:
  "submit_sync (Some m) t k d now q = (q, Inl (Storage m))"
  "status_sync (Some m) t now q = (q, Inl (Storage m))"
  "fst (transition_sync (Some m) t st j now q) = q"
  by (simp_all add: submit_sync_def status_sync_def transition_sync_def Let_def split: sum.split)

text \<open>The three outcomes of a submission on a well-formed database.\<close>

lemma submit_sync_result:
  assumes "db_wf q" and "submit_sync None t k d now q = (q', Inr (r, created))"
  shows "db_wf q' \<and> (\<exists>row. hget (sq_tasks q') t = Some row \<and> r = row_record t row (events_of q' t) \<and>
    tr_idempotency_key row = k \<and> tr_request_digest row = d)"
proof (cases "hget (sq_tasks q) t")
  case (Some row)
  obtain m where "submit_sync None t k d now q =
    (if tr_idempotency_key row \<noteq> k \<or> tr_request_digest row \<noteq> d then (q, Inl (Conflict m))
     else (q, Inr (row_record t row (events_of q t), False)))"
    using submit_sync_known [OF assms(1) Some] by blast
  with assms Some show ?thesis by (auto split: if_splits)
next
  case None
  show ?thesis
  proof (cases "\<exists>t0 row0. hget (sq_tasks q) t0 = Some row0 \<and> tr_idempotency_key row0 = k")
    case True
    then obtain t0 row0 where "hget (sq_tasks q) t0 = Some row0" "tr_idempotency_key row0 = k" by blast
    from submit_sync_reused [OF assms(1) None this, of d now] assms(2) show ?thesis by auto
  next
    case False
    then have fresh: "tr_idempotency_key row \<noteq> k" if "hget (sq_tasks q) t' = Some row" for t' row
      using that by blast
    have "q' = insert_task t k d now q" "r = accepted_record t k d (JObj []) now"
      using assms(2) submit_sync_fresh [OF assms(1) None fresh, where d = d and now = now] by simp_all
    with insert_task_wf [OF assms(1) None fresh, where d = d and now = now] show ?thesis
      by (simp add: events_of_insert events_of_none [OF assms(1) None] row_record_def accepted_record_def)
  qed
qed

lemma submit_sync_error: "submit_sync io t k d now q = (q', Inl e) \<Longrightarrow> q' = q"
  by (auto simp: submit_sync_def Let_def split: option.splits sum.splits if_splits)

lemma submit_sync_wf: "db_wf q \<Longrightarrow> db_wf (fst (submit_sync io t k d now q))"
proof (cases io)
  assume wf: "db_wf q" and io: "io = None"
  obtain q' x where x: "submit_sync None t k d now q = (q', x)" by fastforce
  show ?thesis
  proof (cases x)
    case (Inl e)
    with x wf io submit_sync_error show ?thesis by fastforce
  next
    case (Inr rc)
    with x wf io submit_sync_result show ?thesis by (cases rc) fastforce
  qed
qed (simp add: sync_failed)

lemma status_sync_wf: "db_wf q \<Longrightarrow> db_wf (fst (status_sync io t now q))"
  by (simp add: status_sync_def delete_task_wf split: option.split)

lemma status_sync_result:
  assumes "db_wf q" and "status_sync io t now q = (q', Inr r)"
  shows "q' = q \<and> (\<exists>row. hget (sq_tasks q) t = Some row \<and> r = row_record t row (events_of q t))"
  using assms by (auto simp: status_sync_def load_record_wf split: option.splits if_splits)

lemma transition_sync_wf:
  assumes "db_wf q" and "latest_below n q" and "Suc n < 2 ^ 63"
  shows "db_wf (fst (transition_sync io t st j now q))"
proof (cases io)
  case None
  show ?thesis
  proof (cases "hget (sq_tasks q) t")
    case None': None
    with None assms show ?thesis by (simp add: transition_sync_cases split: sum.split)
  next
    case (Some row)
    have "Suc (unat (tr_latest_sequence row)) < 2 ^ 63"
      using assms Some by (auto simp: latest_below_def intro: le_less_trans)
    then have "db_wf (advance_task t row (next_event t (tr_latest_sequence row) x now y) q)" for x y
      by (intro advance_task_wf [OF assms(1) Some]) (simp_all add: next_event_def)
    with None Some assms(1) show ?thesis
      by (simp add: transition_sync_cases Let_def split: sum.split)
  qed
qed (simp add: sync_failed assms)

lemma transition_sync_state:
  "transition_sync io t st j now q = (q', Inr e) \<Longrightarrow>
    \<exists>row. hget (sq_tasks q') t = Some row \<and> tr_state row = canonical_state st"
  by (auto simp: transition_sync_def Let_def split: option.splits sum.splits if_splits)

text \<open>A cancellation is a status query, a transition unless the task is already terminal, and a status
  query: what holds before and is kept by each holds after.\<close>

lemma cancel_sync_inv:
  assumes "P q" and "\<And>io n q. P q \<Longrightarrow> P (fst (status_sync io t n q))"
    and "\<And>q. P q \<Longrightarrow> Q (fst (transition_sync io2 t ''cancelled'' (JObj [(''outcome'', JStr ''cancelled'')]) n2 q))"
    and "\<And>io n q. Q q \<Longrightarrow> Q (fst (status_sync io t n q))" and "\<And>q. P q \<Longrightarrow> Q q"
  shows "Q (fst (cancel_sync io1 io2 io3 t n1 n2 n3 q))"
proof -
  obtain q1 x where st: "status_sync io1 t n1 q = (q1, x)" by fastforce
  have P1: "P q1" using assms(2) [OF assms(1), of io1 n1] by (simp add: st)
  obtain q2 u where tr: "transition_sync io2 t ''cancelled'' (JObj [(''outcome'', JStr ''cancelled'')]) n2 q1 = (q2, u)"
    by fastforce
  have Q2: "Q q2" using assms(3) [OF P1] by (simp add: tr)
  show ?thesis
    using assms(4) [OF Q2] assms(4) [OF assms(5) [OF P1]] Q2 assms(5) [OF P1]
    by (simp add: cancel_sync_def st tr split: sum.split)
qed

lemma cancel_sync_result:
  assumes wf: "db_wf q" and b: "latest_below n q" "Suc n < 2 ^ 63"
    and c: "cancel_sync io1 io2 io3 t n1 n2 n3 q = (q', Inr r)"
  shows "rec_task_id r = t \<and> terminal (rec_state r)"
proof -
  obtain q1 x where st: "status_sync io1 t n1 q = (q1, x)" by fastforce
  obtain r1 where x: "x = Inr r1" using c st by (cases x) (simp_all add: cancel_sync_def)
  have q1: "q1 = q" using status_sync_result [OF wf st [unfolded x]] by simp
  show ?thesis
  proof (cases "terminal (rec_state r1)")
    case True
    with c st x q1 have "status_sync io3 t n3 q = (q', Inr r)" by (simp add: cancel_sync_def)
    with status_sync_result [OF wf this] status_sync_result [OF wf st [unfolded x]] True
    show ?thesis by (auto simp: row_record_def)
  next
    case False
    obtain q2 y where tr: "transition_sync io2 t ''cancelled'' (JObj [(''outcome'', JStr ''cancelled'')]) n2 q = (q2, y)"
      by fastforce
    with c st x False q1 obtain e where y: "y = Inr e" by (cases y) (simp_all add: cancel_sync_def)
    with c st x False tr q1 have s: "status_sync io3 t n3 q2 = (q', Inr r)" by (simp add: cancel_sync_def)
    have "db_wf q2" using transition_sync_wf [OF wf b, of io2 t "''cancelled''" _ n2] tr by (metis fst_conv)
    from status_sync_result [OF this s] transition_sync_state [OF tr [unfolded y]] show ?thesis
      by (auto simp: row_record_def canonical_state_def terminal_def)
  qed
qed

lemma latest_below_sync:
  "latest_below n q \<Longrightarrow> latest_below n (fst (submit_sync io t k d now q))"
  "latest_below n q \<Longrightarrow> latest_below n (fst (status_sync io t now q))"
  by (cases io; simp add: sync_failed latest_below_submit latest_below_status)+

lemma latest_below_transition_sync:
  "latest_below n q \<Longrightarrow> Suc n < 2 ^ 63 \<Longrightarrow> latest_below (Suc n) (fst (transition_sync io t st j now q))"
  by (cases io) (simp_all add: sync_failed latest_below_transition latest_below_mono [of n])

lemma latest_below_cancel_sync:
  "latest_below n q \<Longrightarrow> Suc n < 2 ^ 63 \<Longrightarrow> latest_below (Suc n) (fst (cancel_sync io1 io2 io3 t n1 n2 n3 q))"
  by (rule cancel_sync_inv [where P = "latest_below n"])
    (simp_all add: latest_below_sync latest_below_transition_sync latest_below_mono [of n])

lemma cancel_sync_wf:
  "db_wf q \<Longrightarrow> latest_below n q \<Longrightarrow> Suc n < 2 ^ 63 \<Longrightarrow> db_wf (fst (cancel_sync io1 io2 io3 t n1 n2 n3 q))"
  by (rule cancel_sync_inv [where P = "\<lambda>q. db_wf q \<and> latest_below n q"])
    (simp_all add: latest_below_sync status_sync_wf transition_sync_wf [where n = n])

lemma db_budget_step:
  assumes "db_budget (Suc n) q"
  obtains m where "db_wf q" and "latest_below m q" and "Suc m < 2 ^ 63" and "n < 2 ^ 63" and "2 ^ 63 - Suc n = Suc m"
  by (rule that [of "2 ^ 63 - Suc (Suc n)"]) (use assms in \<open>auto simp: db_budget_def\<close>)

lemma db_budgetI: "db_wf q' \<Longrightarrow> latest_below (Suc m) q' \<Longrightarrow> n < 2 ^ 63 \<Longrightarrow> 2 ^ 63 - Suc n = Suc m \<Longrightarrow> db_budget n q'"
  by (simp add: db_budget_def)

interpretation sql: lifecycle_persistence sqlite_persistence db_budget
proof
  fix n q q' t k d k' d' st j a r created and e e' :: "(nat \<Rightarrow> string option) \<times> clock"
  obtain io now io' now' where e: "e = (io, now)" "e' = (io', now')" by (cases e; cases e') simp
  show "db_budget n (fst (p_submit sqlite_persistence e t k d q))" if "db_budget (Suc n) q"
    using that by (elim db_budget_step) (rule db_budgetI, simp_all add: e submit_sync_wf latest_below_sync latest_below_mono)
  show st: "db_budget n (fst (p_status sqlite_persistence e t q))" if "db_budget (Suc n) q"
    using that by (elim db_budget_step) (rule db_budgetI, simp_all add: e status_sync_wf latest_below_sync latest_below_mono)
  show "db_budget n (fst (p_events_after sqlite_persistence e t a q))" if "db_budget (Suc n) q"
    using st [OF that] by (simp add: e fst_events_after_sync)
  show "db_budget n (fst (p_cancel sqlite_persistence e t q))" if "db_budget (Suc n) q"
    using that
    by (elim db_budget_step) (rule db_budgetI, simp_all add: e cancel_sync_wf latest_below_cancel_sync)
  show "db_budget n (fst (p_transition sqlite_persistence e t st j q))" if "db_budget (Suc n) q"
    using that
    by (elim db_budget_step) (rule db_budgetI, simp_all add: e transition_sync_wf latest_below_transition_sync)
  show "db_budget n q" if "db_budget (Suc n) q" using that by (rule db_budget_less)
  show "rec_task_id r = t" if "db_budget n q" "p_status sqlite_persistence e t q = (q', Inr r)"
    using that status_sync_result [OF db_budget_wf [OF that(1)], of "io 0" t "now 0" q' r]
    by (auto simp: e row_record_def)
  show "rec_task_id r = t \<and> terminal (rec_state r)" if "db_budget (Suc n) q" "p_cancel sqlite_persistence e t q = (q', Inr r)"
    using that by (elim db_budget_step) (rule cancel_sync_result, simp_all add: e)
  assume b: "db_budget n q" and sub: "p_submit sqlite_persistence e t k d q = (q', Inr (r, created))"
  have "io 0 = None" using sub by (cases "io 0") (simp_all add: e sync_failed)
  with sub have "submit_sync None t k d (now 0) q = (q', Inr (r, created))" by (simp add: e)
  from submit_sync_result [OF db_budget_wf [OF b] this] obtain row where
    wf': "db_wf q'" and row: "hget (sq_tasks q') t = Some row" and r: "r = row_record t row (events_of q' t)"
      "tr_idempotency_key row = k" "tr_request_digest row = d"
    by blast
  show "rec_task_id r = t" by (simp add: r row_record_def)
  note again = submit_sync_known [OF wf' row, where now = "now' 0"]
  show "p_submit sqlite_persistence e' t k d q' = (q', Inr (r, False)) \<or>
      (\<exists>m. p_submit sqlite_persistence e' t k d q' = (q', Inl (Storage m)))"
    using again [of k d] r by (cases "io' 0") (simp_all add: e sync_failed)
  show "\<exists>m. p_submit sqlite_persistence e' t k' d' q' = (q', Inl (Conflict m)) \<or>
      p_submit sqlite_persistence e' t k' d' q' = (q', Inl (Storage m))" if "(k', d') \<noteq> (k, d)"
    using again [of k' d'] r that by (cases "io' 0") (auto simp: e sync_failed)
qed

lemma open_store_budget: "mx < 2 ^ 64 \<Longrightarrow> n < 2 ^ 63 \<Longrightarrow> db_budget n (open_store mx ttl)"
  using sim_wf(1) [OF open_sim] by (simp add: db_budget_def latest_below_def) (simp add: open_store_def)

subsection \<open>Properties of the binding\<close>

text \<open>One exchange: the environment, the credential and the request.  A server handles a sequence of
  them.  \<open>refusal\<close> is the code with which the authorizer's decision turns a request away, if it does.\<close>

definition refusal :: "authorizer \<Rightarrow> string option \<Rightarrow> lifecycle_request \<Rightarrow> nat option" where
  "refusal az credential req =
    (case (case req of PostTask b \<Rightarrow> authorize az credential OSubmit (sr_task_id b)
           | GetTask t \<Rightarrow> authorize az credential OStatus t
           | GetEvents t a \<Rightarrow> authorize az credential OObserve t
           | PostCancel t \<Rightarrow> authorize az credential OCancel t) of
       Inl code \<Rightarrow> Some code | Inr _ \<Rightarrow> None)"

definition serve :: "('e, 's) persistence \<Rightarrow> authorizer \<Rightarrow> 'e \<times> string option \<times> lifecycle_request \<Rightarrow> 's \<Rightarrow> 's \<times> response" where
  "serve p az = (\<lambda>(e, credential, req) s. route p az e credential req s)"

definition serve_all :: "('e, 's) persistence \<Rightarrow> authorizer \<Rightarrow> ('e \<times> string option \<times> lifecycle_request) list \<Rightarrow> 's \<Rightarrow> 's" where
  "serve_all p az xs s = fold (\<lambda>x s. fst (serve p az x s)) xs s"

lemma refusal_code: "refusal az c req = Some code \<Longrightarrow> code \<in> {UNAUTHORIZED, FORBIDDEN, NOT_FOUND}"
  by (auto simp: refusal_def authorize_def Let_def split: lifecycle_request.splits if_splits)

lemma refused_serve: "refusal az c req = Some code \<Longrightarrow> serve p az (e, c, req) s = (s, code, Empty)"
  by (cases req)
    (auto simp: refusal_def serve_def submit_http_def status_http_def observe_http_def cancel_http_def
      split: sum.splits)

lemma serve_all_drop: "serve_all p az xs s = serve_all p az (filter (\<lambda>(e, c, req). refusal az c req = None) xs) s"
proof (induction xs arbitrary: s)
  case (Cons x xs)
  obtain e c req where x: "x = (e, c, req)" by (cases x)
  with Cons [of s] Cons [of "fst (serve p az x s)"] show ?case
    by (cases "refusal az c req") (simp_all add: serve_all_def refused_serve)
qed (simp add: serve_all_def)

text \<open>C25. Refused requests leave no trace.  Whatever store is behind the port and whatever the authorizer
  decides, a request it refuses is answered 401, 403 or 404 with an empty body and without touching the
  store; so the store after any sequence of requests is the store after the granted ones alone.\<close>

theorem refused_requests_no_trace:
  "serve_all p az xs s = serve_all p az (filter (\<lambda>(e, c, req). refusal az c req = None) xs) s \<and>
   (case refusal az c req of None \<Rightarrow> True
    | Some code \<Rightarrow> code \<in> {UNAUTHORIZED, FORBIDDEN, NOT_FOUND} \<and> serve p az (e, c, req) s = (s, code, Empty))"
  using serve_all_drop [of p az xs s] refusal_code [of az c req] refused_serve [of az c req _ p e s]
  by (simp split: option.split)

lemma serve_all_budget:
  "mx < 2 ^ 64 \<Longrightarrow> n + length xs < 2 ^ 63 \<Longrightarrow> db_budget n (serve_all sqlite_persistence az xs (open_store mx ttl))"
  using sql.routes_inv [of n xs _ az] open_store_budget [of mx "n + length xs" ttl]
  by (simp add: serve_all_def serve_def case_prod_beta')

text \<open>A client may retry a submission.  On the SQLite store, after any requests whatever, once a
  \<^verbatim>\<open>POST /v1/tasks\<close> has answered 200 or 202, sending the same request again changes nothing and answers
  200 with the same body, or 500 when the database fails.\<close>

theorem http_submit_retry:
  assumes "mx < 2 ^ 64" and "length xs < 2 ^ 63"
    and "serve sqlite_persistence az (e, c, PostTask b) (serve_all sqlite_persistence az xs (open_store mx ttl)) =
      (q, code, body)" and "code \<in> {OK, ACCEPTED}"
  shows "serve sqlite_persistence az (e', c, PostTask b) q = (q, OK, body) \<or>
    fst (serve sqlite_persistence az (e', c, PostTask b) q) = q \<and>
    fst (snd (serve sqlite_persistence az (e', c, PostTask b) q)) = INTERNAL_SERVER_ERROR"
proof -
  obtain q' code' body' where again: "submit_http sqlite_persistence az e' c b q = (q', code', body')"
    by (cases "submit_http sqlite_persistence az e' c b q")
  have "db_budget 0 (serve_all sqlite_persistence az xs (open_store mx ttl))"
    using assms(1,2) by (intro serve_all_budget) simp_all
  from sql.submit_retry [OF this _ assms(4) again] assms(3) again show ?thesis
    by (auto simp: serve_def)
qed

theorem http_submit_retry_witness:
  "let az = shared_token_authorizer ''tok'';
       b = \<lparr>sr_task_id = ''t'', sr_idempotency_key = ''k'', sr_request_digest = ''d''\<rparr>;
       x = ((\<lambda>_. None, \<lambda>_. 5), Some ''Bearer tok'', PostTask b);
       q = fst (serve sqlite_persistence az x (open_store 8 100))
   in serve sqlite_persistence az x q = (q, OK, snd (snd (serve sqlite_persistence az x (open_store 8 100)))) \<or>
      fst (serve sqlite_persistence az x q) = q \<and> fst (snd (serve sqlite_persistence az x q)) = INTERNAL_SERVER_ERROR"
  unfolding Let_def
  by (rule http_submit_retry [where mx = 8 and ttl = 100 and xs = "[]" and e = "(\<lambda>_. None, \<lambda>_. 5)" and code = ACCEPTED])
    (simp_all add: serve_all_def, simp add: serve_def submit_http_def authorize_def shared_token_authorizer_def Let_def
      submit_sync_def open_store_def load_record_def)

text \<open>A cancellation that answers 200 has ended the task: on the SQLite store, after any requests and
  with any of its three transactions allowed to fail, the body names the task and says that its state is
  final.\<close>

theorem http_cancel_final:
  assumes "mx < 2 ^ 64" and "length xs < 2 ^ 63 - 1"
    and "serve sqlite_persistence az (e, c, PostCancel t) (serve_all sqlite_persistence az xs (open_store mx ttl)) =
      (q, OK, body)"
  shows "case body of JsonBody j \<Rightarrow> get_str j ''task_id'' = Some t \<and> get_bool j ''is_final'' = Some True | _ \<Rightarrow> False"
proof -
  have "db_budget (Suc 0) (serve_all sqlite_persistence az xs (open_store mx ttl))"
    using assms(1,2) by (intro serve_all_budget) simp_all
  from sql.cancel_final [OF this, of az e c t q body] assms(3) show ?thesis
    by (auto simp: serve_def)
qed

theorem http_cancel_final_witness:
  "let az = shared_token_authorizer ''tok''; e = (\<lambda>_. None, \<lambda>_. 5); c = Some ''Bearer tok'';
       b = \<lparr>sr_task_id = ''t'', sr_idempotency_key = ''k'', sr_request_digest = ''d''\<rparr>
   in case snd (snd (serve sqlite_persistence az (e, c, PostCancel ''t'')
        (serve_all sqlite_persistence az [(e, c, PostTask b)] (open_store 8 100)))) of
     JsonBody j \<Rightarrow> get_str j ''task_id'' = Some ''t'' \<and> get_bool j ''is_final'' = Some True | _ \<Rightarrow> False"
  unfolding Let_def
  by (rule http_cancel_final [where mx = 8 and xs = "[((\<lambda>_. None, \<lambda>_. 5), Some ''Bearer tok'', PostTask
        \<lparr>sr_task_id = ''t'', sr_idempotency_key = ''k'', sr_request_digest = ''d''\<rparr>)]" and ttl = 100
        and az = "shared_token_authorizer ''tok''" and e = "(\<lambda>_. None, \<lambda>_. 5)" and c = "Some ''Bearer tok''"])
    (simp_all add: serve_all_def serve_def submit_http_def cancel_http_def authorize_def shared_token_authorizer_def Let_def
      submit_sync_def open_store_def load_record_def cancel_sync_def status_sync_def transition_sync_def
      cancel_detail_ok canonical_state_def legal_transition_def terminal_def sat_sub_def)

end
