(* ===== verification/Lifecycle_Policies.thy ===== *)
theory Lifecycle_Policies
  imports Json
begin

text \<open>
  The three pure evaluators beside the lifecycle store: accounting
  (\<^verbatim>\<open>src/service_lifecycle_accounting.rs\<close>), distributed ownership
  (\<^verbatim>\<open>src/service_lifecycle_distributed.rs\<close>) and identity (\<^verbatim>\<open>src/service_lifecycle_identity.rs\<close>).
  Each reads a JSON object and returns a decision.  The theorems are about what a caller that acts on
  the decisions can rely on: a task is charged once, a write needs the current epoch, an operation
  needs a valid credential and the right owner or scope.
\<close>

subsection \<open>Accounting\<close>

record accounting_decision =
  decision :: string
  reservation_action :: string
  settlement_action :: string
  new_execution :: bool

definition accounting_result :: "string \<Rightarrow> string \<Rightarrow> string \<Rightarrow> bool \<Rightarrow> accounting_decision" where
  "accounting_result d r s n =
     \<lparr>decision = d, reservation_action = r, settlement_action = s, new_execution = n\<rparr>"

definition simple_decision :: "string \<Rightarrow> accounting_decision" where
  "simple_decision d = accounting_result d ''none'' ''none'' False"

text \<open>The arms of the final match.\<close>

definition accounting_resume :: "json \<Rightarrow> string option \<Rightarrow> accounting_decision" where
  "accounting_resume input binding =
    (if get_bool input ''resume_available'' = Some True then simple_decision ''replay_events''
     else if get_bool input ''explicit_new_task'' \<noteq> Some True then simple_decision ''explicit_new_task_required''
     else if binding \<noteq> Some ''fresh'' \<or> get_bool input ''fresh_task_id'' \<noteq> Some True \<or>
             get_bool input ''fresh_idempotency_key'' \<noteq> Some True
     then simple_decision ''reject_identifier_reuse''
     else accounting_result ''start_new_task'' ''create'' ''none'' True)"

definition accounting_submit :: "string option \<Rightarrow> bool \<Rightarrow> accounting_decision" where
  "accounting_submit binding reservation_exists =
    (if binding = Some ''conflict'' then simple_decision ''reject_conflict''
     else if binding = Some ''same'' \<and> reservation_exists
     then accounting_result ''reuse_execution'' ''reuse'' ''none'' False
     else if binding = Some ''same'' then simple_decision ''reject_missing_reservation''
     else if reservation_exists then simple_decision ''reject_conflict''
     else accounting_result ''start_execution'' ''create'' ''none'' True)"

definition accounting_cancel :: "bool \<Rightarrow> bool \<Rightarrow> bool \<Rightarrow> string option \<Rightarrow> accounting_decision" where
  "accounting_cancel reservation_exists settlement_exists accepted delivery =
    (if settlement_exists then accounting_result ''return_existing_settlement'' ''reuse'' ''reuse'' False
     else if \<not> reservation_exists then simple_decision ''cancel_without_accounting''
     else if \<not> accepted then accounting_result ''cancel_before_acceptance'' ''release'' ''none'' False
     else accounting_result
       (if delivery = Some ''partial'' then ''cancel_after_partial_delivery'' else ''cancel_after_acceptance'')
       ''reuse'' ''create'' False)"

definition accounting_terminal :: "json \<Rightarrow> bool \<Rightarrow> bool \<Rightarrow> string option \<Rightarrow> accounting_decision" where
  "accounting_terminal input reservation_exists settlement_exists delivery =
    (if settlement_exists then accounting_result ''return_existing_settlement'' ''reuse'' ''reuse'' False
     else if \<not> reservation_exists then simple_decision ''reject_missing_reservation''
     else let terminal_state = get_str input ''terminal_state'' in
       if terminal_state \<notin> Some ` set [''completed'', ''failed'', ''cancelled'', ''expired'']
       then simple_decision ''reject_invalid_input''
       else accounting_result
         (''settle_'' @ the terminal_state @ (if delivery = Some ''partial'' then ''_partial'' else ''''))
         ''reuse'' ''create'' False)"

definition decide_lifecycle_accounting :: "json \<Rightarrow> accounting_decision" where
  "decide_lifecycle_accounting input =
    (let operation = get_str input ''operation'';
         binding = get_str input ''binding'';
         reservation_exists = (get_bool input ''reservation_exists'' = Some True);
         settlement_exists = (get_bool input ''settlement_exists'' = Some True);
         accepted = (get_bool input ''accepted'' = Some True);
         delivery = get_str input ''delivery''
     in
     if operation \<notin> Some ` set [''submit'', ''status'', ''observe'', ''resume'', ''cancel'', ''terminal''] \<or>
        binding \<notin> Some ` set [''same'', ''conflict'', ''fresh''] \<or>
        delivery \<notin> Some ` set [''none'', ''partial'', ''complete'']
     then simple_decision ''reject_invalid_input''
     else if operation \<in> Some ` set [''status'', ''observe'', ''cancel'', ''terminal''] \<and> binding \<noteq> Some ''same''
     then simple_decision ''reject_conflict''
     else let op = the operation in
     if op = ''status'' then simple_decision ''return_status''
     else if op = ''observe'' then simple_decision ''replay_events''
     else if op = ''resume'' then accounting_resume input binding
     else if op = ''submit'' then accounting_submit binding reservation_exists
     else if op = ''cancel'' then accounting_cancel reservation_exists settlement_exists accepted delivery
     else if op = ''terminal'' then accounting_terminal input reservation_exists settlement_exists delivery
     else simple_decision ''reject_invalid_input'')"

subsection \<open>Distributed ownership\<close>

definition ALLOWED :: "string list" where
  "ALLOWED = [''event_id'', ''progress'', ''reason_code'', ''outcome'', ''receipt_digest'', ''checkpoint_digest'']"

definition evaluate_distributed_lifecycle :: "json \<Rightarrow> string" where
  "evaluate_distributed_lifecycle v =
    (let kind = as_str (json_index v ''kind'') in
     if kind = Some ''owner_write'' then
       (if json_index v ''writer_epoch'' = json_index v ''current_epoch'' then ''write_accepted''
        else ''stale_owner_rejected'')
     else if kind = Some ''failover_submit'' then
       (if json_index v ''request_digest_matches'' \<noteq> JBool True \<or> json_index v ''idempotency_key_matches'' \<noteq> JBool True
        then ''conflict_no_new_execution''
        else if json_index v ''execution_started'' = JBool True then ''existing_execution_recovered''
        else ''existing_record_recovered'')
     else if kind = Some ''append_event'' then
       (if json_index v ''event_id_seen'' = JBool True then ''duplicate_event_ignored''
        else if as_i64 (json_index v ''sequence'') =
                map_option (\<lambda>n. i64_wrap (n + 1)) (as_i64 (json_index v ''latest_sequence''))
        then ''event_appended''
        else ''sequence_gap_rejected'')
     else if kind = Some ''observe'' then
       (let gap = (i64_wrap (unwrap_or (as_i64 (json_index v ''after_sequence'')) (-1) + 1)
                   < unwrap_or (as_i64 (json_index v ''first_retained_sequence'')) 0)
        in if gap \<and> json_index v ''terminal'' = JBool True then ''terminal_snapshot_with_replay_gap''
           else if gap then ''resume_unavailable''
           else ''replay_available'')
     else if kind = Some ''terminal_retention'' then
       (if unwrap_or (as_i64 (json_index v ''age_ms'')) 0 > unwrap_or (as_i64 (json_index v ''ttl_ms'')) 0
        then ''unknown_task_after_expiry'' else ''terminal_snapshot_available'')
     else if kind = Some ''mutation_admission'' then
       (if json_index v ''quorum_available'' = JBool True then ''mutation_allowed''
        else ''temporarily_unavailable_no_write'')
     else if kind = Some ''content_minimization'' then
       (case as_object (json_index v ''detail'') of
          Some detail \<Rightarrow> if list_all (\<lambda>(field, _). field \<in> set ALLOWED) detail then ''accepted'' else ''reject_before_write''
        | None \<Rightarrow> ''reject_before_write'')
     else ''unsupported_vector'')"

subsection \<open>Identity\<close>

definition ALLOWED_AUDIT :: "string list" where
  "ALLOWED_AUDIT = [''event_id'', ''task_ref'', ''principal_ref_digest'', ''credential_key_id'',
     ''revocation_epoch'', ''operation'', ''outcome'', ''reason_code'', ''occurred_at'']"

definition has_scope :: "json \<Rightarrow> string \<Rightarrow> bool" where
  "has_scope input scope \<longleftrightarrow>
     list_ex (\<lambda>item. item = JStr scope) (unwrap_or (as_array (json_index input ''scope'')) [])"

definition evaluate_lifecycle_identity :: "json \<Rightarrow> int \<Rightarrow> string" where
  "evaluate_lifecycle_identity input retention_seconds =
    (if json_index input ''kind'' = JStr ''audit_retention'' then
       (if unwrap_or (as_i64 (json_index input ''age_seconds'')) 0 > retention_seconds
        then ''audit_record_pruned'' else ''audit_record_retained'')
     else if json_index input ''kind'' = JStr ''audit_redaction'' then
       (case as_object (json_index input ''audit'') of
          Some audit \<Rightarrow> if list_all (\<lambda>(field, _). field \<in> set ALLOWED_AUDIT) audit
                        then ''audit_record_allowed'' else ''reject_before_write''
        | None \<Rightarrow> ''reject_before_write'')
     else if json_index input ''profile_requested'' \<noteq> JBool True \<and> json_index input ''surface'' = JStr ''ordinary_task''
     then ''legacy_open_mesh_unchanged''
     else if json_index input ''credential_status'' \<noteq> JStr ''valid'' then ''unauthenticated''
     else if unwrap_or (as_i64 (json_index input ''credential_revocation_epoch'')) 0
             < unwrap_or (as_i64 (json_index input ''minimum_revocation_epoch'')) 0
     then ''unauthenticated''
     else let operation = unwrap_or (as_str (json_index input ''operation'')) '''' in
     if operation = ''submit'' then
       (if has_scope input ''submit'' then ''allowed_bind_owner'' else ''forbidden'')
     else if json_index input ''principal_ref_digest'' \<noteq> json_index input ''task_owner_ref_digest'' then
       (if json_index input ''operator_override'' = JBool True \<and> has_scope input (''operator:'' @ operation)
        then ''allowed_operator_override'' else ''concealed_task'')
     else if has_scope input operation then ''allowed''
     else ''forbidden'')"

subsection \<open>Acting on the accounting decisions\<close>

text \<open>The books of one task as a caller keeps them: whether a reservation and a settlement are recorded,
  and how often the task has been executed and settled.  A step asks for a decision about the books as
  they are and acts on it.  Fresh identifiers belong to a task never executed before, and a resumption
  that starts a new task is about the books of that new task, so it is not a step here.\<close>

record task_books =
  reserved :: bool
  settled :: bool
  executions :: nat
  settlements :: nat

definition empty_books :: task_books where
  "empty_books = \<lparr>reserved = False, settled = False, executions = 0, settlements = 0\<rparr>"

definition act_on :: "accounting_decision \<Rightarrow> task_books \<Rightarrow> task_books" where
  "act_on d b =
     \<lparr>reserved = (if reservation_action d = ''create'' then True
                  else if reservation_action d = ''release'' then False else reserved b),
      settled = (settled b \<or> settlement_action d = ''create''),
      executions = executions b + (if new_execution d then 1 else 0),
      settlements = settlements b + (if settlement_action d = ''create'' then 1 else 0)\<rparr>"

definition about_books :: "json \<Rightarrow> task_books \<Rightarrow> bool" where
  "about_books input b \<longleftrightarrow>
     get_bool input ''reservation_exists'' = Some (reserved b) \<and>
     get_bool input ''settlement_exists'' = Some (settled b) \<and>
     (get_str input ''binding'' = Some ''fresh'' \<longrightarrow> executions b = 0) \<and>
     get_str input ''operation'' \<noteq> Some ''resume''"

inductive books_reachable :: "task_books \<Rightarrow> bool" where
  start: "books_reachable empty_books"
| act: "books_reachable b \<Longrightarrow> about_books input b \<Longrightarrow> books_reachable (act_on (decide_lifecycle_accounting input) b)"

inductive_cases books_reachableE: "books_reachable b"

text \<open>The cases of a decision.\<close>

lemma simple_decision_sel [simp]:
  "reservation_action (simple_decision d) = ''none''" "settlement_action (simple_decision d) = ''none''"
  "\<not> new_execution (simple_decision d)" "decision (simple_decision d) = d"
  by (simp_all add: simple_decision_def accounting_result_def)

lemma accounting_result_sel [simp]:
  "reservation_action (accounting_result d r s n) = r" "settlement_action (accounting_result d r s n) = s"
  "new_execution (accounting_result d r s n) = n" "decision (accounting_result d r s n) = d"
  by (simp_all add: accounting_result_def)

lemma resume_cases: "reservation_action (accounting_resume input bind) = ''create'' \<longleftrightarrow> new_execution (accounting_resume input bind)"
  "settlement_action (accounting_resume input bind) = ''none''"
  by (simp_all add: accounting_resume_def)

lemma submit_cases:
  "reservation_action (accounting_submit bind r) = ''create'' \<longleftrightarrow> new_execution (accounting_submit bind r)"
  "settlement_action (accounting_submit bind r) = ''none''"
  "new_execution (accounting_submit bind r) \<Longrightarrow> bind \<notin> Some ` set [''same'', ''conflict''] \<and> \<not> r"
  by (auto simp: accounting_submit_def split: if_splits)

lemma cancel_cases:
  "reservation_action (accounting_cancel r s a d) \<noteq> ''create''" "\<not> new_execution (accounting_cancel r s a d)"
  "settlement_action (accounting_cancel r s a d) = ''create'' \<Longrightarrow> r \<and> \<not> s"
  by (auto simp: accounting_cancel_def split: if_splits)

lemma terminal_cases:
  "reservation_action (accounting_terminal input r s d) \<noteq> ''create''" "\<not> new_execution (accounting_terminal input r s d)"
  "settlement_action (accounting_terminal input r s d) = ''create'' \<Longrightarrow> r \<and> \<not> s"
  by (auto simp: accounting_terminal_def Let_def split: if_splits)

text \<open>A decision is a refusal or answer without effect, or comes from the arm of its operation.\<close>

lemma decide_rule:
  assumes "\<And>d. P (simple_decision d)"
    and "get_str input ''operation'' = Some ''resume'' \<Longrightarrow> P (accounting_resume input (get_str input ''binding''))"
    and "get_str input ''binding'' \<in> Some ` set [''same'', ''conflict'', ''fresh''] \<Longrightarrow>
      P (accounting_submit (get_str input ''binding'') (get_bool input ''reservation_exists'' = Some True))"
    and "P (accounting_cancel (get_bool input ''reservation_exists'' = Some True)
       (get_bool input ''settlement_exists'' = Some True) (get_bool input ''accepted'' = Some True) (get_str input ''delivery''))"
    and "P (accounting_terminal input (get_bool input ''reservation_exists'' = Some True)
       (get_bool input ''settlement_exists'' = Some True) (get_str input ''delivery''))"
  shows "P (decide_lifecycle_accounting input)"
proof -
  have "P (accounting_resume input (get_str input ''binding''))"
    if "get_str input ''operation'' \<in> Some ` X" "the (get_str input ''operation'') = ''resume''" for X
    using that assms(2) by auto
  with assms(1,3-5) show ?thesis
    unfolding decide_lifecycle_accounting_def Let_def by (intro if_cases [where P = P]; blast)
qed

lemma new_execution_cases:
  "new_execution (decide_lifecycle_accounting input) \<and> get_str input ''operation'' \<noteq> Some ''resume'' \<longrightarrow>
    get_str input ''binding'' = Some ''fresh'' \<and> get_bool input ''reservation_exists'' \<noteq> Some True \<and>
    settlement_action (decide_lifecycle_accounting input) = ''none''"
  by (rule decide_rule [where input = input]) (auto simp: cancel_cases terminal_cases submit_cases(2) dest: submit_cases(3))

lemma settlement_cases:
  "settlement_action (decide_lifecycle_accounting input) = ''create'' \<longrightarrow>
    get_bool input ''reservation_exists'' = Some True \<and> get_bool input ''settlement_exists'' \<noteq> Some True"
  by (rule decide_rule [where input = input])
    (auto simp: resume_cases submit_cases dest: cancel_cases(3) terminal_cases(3))

lemma reservation_create_cases:
  "reservation_action (decide_lifecycle_accounting input) = ''create'' \<longleftrightarrow> new_execution (decide_lifecycle_accounting input)"
  by (rule decide_rule [where input = input]) (simp_all add: resume_cases submit_cases cancel_cases terminal_cases)

definition books_ok :: "task_books \<Rightarrow> bool" where
  "books_ok b \<longleftrightarrow> executions b \<le> 1 \<and> settlements b = (if settled b then 1 else 0) \<and>
     (reserved b \<or> settled b \<longrightarrow> executions b = 1)"

lemma books_ok_act:
  assumes "books_ok b" and "about_books input b"
  shows "books_ok (act_on (decide_lifecycle_accounting input) b)"
  using assms new_execution_cases [of input] settlement_cases [of input] reservation_create_cases [of input]
  by (auto simp: books_ok_def about_books_def act_on_def)

lemma books_reachable_ok: "books_reachable b \<Longrightarrow> books_ok b"
  by (induction rule: books_reachable.induct) (simp_all add: books_ok_act, simp add: books_ok_def empty_books_def)


definition books_input :: "string \<Rightarrow> string \<Rightarrow> task_books \<Rightarrow> json" where
  "books_input op bind b = JObj [(''operation'', JStr op), (''binding'', JStr bind), (''delivery'', JStr ''complete''),
     (''accepted'', JBool True), (''terminal_state'', JStr ''completed''),
     (''reservation_exists'', JBool (reserved b)), (''settlement_exists'', JBool (settled b))]"

lemma books_input_about: "op \<noteq> ''resume'' \<Longrightarrow> (bind = ''fresh'' \<Longrightarrow> executions b = 0) \<Longrightarrow> about_books (books_input op bind b) b"
  by (simp add: about_books_def books_input_def json_access)


subsection \<open>Identity: what a grant implies\<close>

lemma identity_rule:
  fixes input
  defines "op \<equiv> unwrap_or (as_str (json_index input ''operation'')) ''''"
    and "owner \<equiv> json_index input ''principal_ref_digest'' = json_index input ''task_owner_ref_digest''"
    and "valid \<equiv> json_index input ''credential_status'' = JStr ''valid'' \<and>
      unwrap_or (as_i64 (json_index input ''minimum_revocation_epoch'')) 0
        \<le> unwrap_or (as_i64 (json_index input ''credential_revocation_epoch'')) 0"
  assumes "P ''audit_record_pruned''" "P ''audit_record_retained''" "P ''audit_record_allowed''" "P ''reject_before_write''"
    "P ''legacy_open_mesh_unchanged''" "P ''unauthenticated''" "P ''forbidden''" "P ''concealed_task''"
    and "valid \<Longrightarrow> op = ''submit'' \<Longrightarrow> has_scope input ''submit'' \<Longrightarrow> P ''allowed_bind_owner''"
    and "valid \<Longrightarrow> op \<noteq> ''submit'' \<Longrightarrow> \<not> owner \<Longrightarrow> json_index input ''operator_override'' = JBool True \<Longrightarrow>
      has_scope input (''operator:'' @ op) \<Longrightarrow> P ''allowed_operator_override''"
    and "valid \<Longrightarrow> op \<noteq> ''submit'' \<Longrightarrow> owner \<Longrightarrow> has_scope input op \<Longrightarrow> P ''allowed''"
  shows "P (evaluate_lifecycle_identity input retention)"
  unfolding evaluate_lifecycle_identity_def Let_def op_def [symmetric]
  by (intro if_cases [where P = P] option_cases [where P = P]; rule assms(4-);
      simp add: valid_def owner_def not_less)

text \<open>An operation is granted only on the credential's merits.  Every answer that grants an operation
  presupposes a valid credential whose revocation epoch is not behind; a plain grant presupposes that the
  caller's reference equals the owner's and that the scope lists the operation, an override that it was
  asked for and that the scope lists its operator form, and a submission that the scope lists it.\<close>

theorem identity_grants:
  assumes "evaluate_lifecycle_identity input retention \<in>
    {''allowed'', ''allowed_operator_override'', ''allowed_bind_owner''}"
  shows "json_index input ''credential_status'' = JStr ''valid'' \<and>
    unwrap_or (as_i64 (json_index input ''minimum_revocation_epoch'')) 0
      \<le> unwrap_or (as_i64 (json_index input ''credential_revocation_epoch'')) 0 \<and>
    (let op = unwrap_or (as_str (json_index input ''operation'')) '''';
         same_owner = (json_index input ''principal_ref_digest'' = json_index input ''task_owner_ref_digest'');
         answer = evaluate_lifecycle_identity input retention
     in answer = ''allowed'' \<and> op \<noteq> ''submit'' \<and> same_owner \<and> has_scope input op \<or>
        answer = ''allowed_operator_override'' \<and> op \<noteq> ''submit'' \<and> \<not> same_owner \<and>
          json_index input ''operator_override'' = JBool True \<and> has_scope input (''operator:'' @ op) \<or>
        answer = ''allowed_bind_owner'' \<and> op = ''submit'' \<and> has_scope input ''submit'')"
  using assms
proof (rule rev_mp)
  show "evaluate_lifecycle_identity input retention \<in> {''allowed'', ''allowed_operator_override'', ''allowed_bind_owner''} \<longrightarrow> ?thesis"
    by (rule identity_rule [where input = input and retention = retention]) (simp_all add: Let_def)
qed

theorem identity_grants_witness:
  "let input = JObj [(''credential_status'', JStr ''valid''), (''operation'', JStr ''status''),
      (''principal_ref_digest'', JStr ''a''), (''task_owner_ref_digest'', JStr ''a''), (''scope'', JArr [JStr ''status''])]
   in evaluate_lifecycle_identity input 0 = ''allowed'' \<and> has_scope input ''status''"
proof -
  let ?input = "JObj [(''credential_status'', JStr ''valid''), (''operation'', JStr ''status''),
      (''principal_ref_digest'', JStr ''a''), (''task_owner_ref_digest'', JStr ''a''), (''scope'', JArr [JStr ''status''])]"
  have "evaluate_lifecycle_identity ?input 0 = ''allowed''"
    by (simp add: evaluate_lifecycle_identity_def json_access has_scope_def Let_def)
  moreover from this identity_grants [of ?input 0] have "has_scope ?input ''status''"
    by (simp add: Let_def json_access)
  ultimately show ?thesis by (simp add: Let_def)
qed

text \<open>Members that are missing compare equal: an append without any sequence numbers is accepted, as is a
  write without any epochs.\<close>

lemma missing_sequence_appended:
  "evaluate_distributed_lifecycle (JObj [(''kind'', JStr ''append_event'')]) = ''event_appended''"
  by (simp add: evaluate_distributed_lifecycle_def json_access Let_def)

lemma missing_epoch_accepted:
  "evaluate_distributed_lifecycle (JObj [(''kind'', JStr ''owner_write'')]) = ''write_accepted''"
  by (simp add: evaluate_distributed_lifecycle_def json_access Let_def)

end
