(* ===== verification/Admission.thy ===== *)
theory Admission
  imports Prelude
begin

text \<open>
  Dispatch admission: \<^verbatim>\<open>src/dispatch_admission.rs\<close> (the port \<^verbatim>\<open>DispatchAdmissionStore\<close> and its client
  \<^verbatim>\<open>evaluate_dispatch_admission\<close>) and \<^verbatim>\<open>src/dispatch_admission_sqlite.rs\<close> (the SQLite store).

  A provider admits a dispatch ticket once: the store records its identifier \<^verbatim>\<open>jti\<close> and refuses it
  from then on.  Rows of expired tickets are cleaned up.  The port is a record of functions; its
  contract is the locale \<open>dispatch_admission_store\<close>, in which the client is proved to admit a ticket at
  most once; the SQLite store is shown to keep the contract.

  The table \<^verbatim>\<open>dispatch_admissions\<close> has \<^verbatim>\<open>jti\<close> as its primary key: a map from \<^verbatim>\<open>jti\<close> to the record.  The
  outcome of a transaction is the argument \<open>io\<close>, as for the lifecycle store.  \<^verbatim>\<open>sha2\<close>'s digest, written
  in hexadecimal, is the parameter \<open>sha\<close>.
\<close>

subsection \<open>The port\<close>

record admission_claim =
  cl_jti :: string
  cl_provider_id :: string
  cl_intent :: string
  cl_not_before :: u64
  cl_expires_at :: u64

record admission_decision =
  ad_code :: string
  ad_accepted :: bool
  ad_state :: "string option"

definition reject_admission :: "string \<Rightarrow> admission_decision" where
  "reject_admission code = \<lparr>ad_code = code, ad_accepted = False, ad_state = None\<rparr>"

definition accepted_admission :: admission_decision where
  "accepted_admission = \<lparr>ad_code = ''accepted'', ad_accepted = True, ad_state = Some ''accepted''\<rparr>"

record admission_record =
  ar_jti :: string
  ar_provider_digest :: string
  ar_intent_digest :: string
  ar_state :: string
  ar_expires_at :: u64
  ar_consumed_at :: u64
  ar_updated_at :: u64

datatype admission_error =
    AdmissionStorage string
  | AdmissionUnknown
  | AdmissionTransition string

record ('e, 's) admission_port =
  a_consume :: "'e \<Rightarrow> admission_claim \<Rightarrow> string \<Rightarrow> string \<Rightarrow> u64 \<Rightarrow> u64 \<Rightarrow> 's \<Rightarrow> 's \<times> (admission_error + admission_decision)"
  a_transition :: "'e \<Rightarrow> string \<Rightarrow> string \<Rightarrow> u64 \<Rightarrow> 's \<Rightarrow> 's \<times> (admission_error + admission_record)"
  a_cleanup :: "'e \<Rightarrow> u64 \<Rightarrow> u64 \<Rightarrow> nat \<Rightarrow> 's \<Rightarrow> 's \<times> (admission_error + nat)"
  a_lookup :: "'e \<Rightarrow> string \<Rightarrow> 's \<Rightarrow> admission_error + admission_record option"

definition evaluate_dispatch_admission ::
    "('e, 's) admission_port \<Rightarrow> 'e \<Rightarrow> admission_claim \<Rightarrow> string \<Rightarrow> string \<Rightarrow> u64 \<Rightarrow> bool \<Rightarrow> u64 \<Rightarrow> 's
      \<Rightarrow> 's \<times> admission_decision" where
  "evaluate_dispatch_admission store e claim provider intent now trust_verified skew s =
    (if \<not> trust_verified then (s, reject_admission ''reject_issuer_key'')
     else (case a_consume store e claim provider intent now skew s of
             (s', Inr d) \<Rightarrow> (s', d)
           | (s', Inl _) \<Rightarrow> (s', reject_admission ''reject_store_unavailable'')))"

definition admission_terminal :: "string \<Rightarrow> bool" where
  "admission_terminal state \<longleftrightarrow> state \<in> set [''completed'', ''failed'', ''cancelled'', ''expired'', ''rejected'']"

subsection \<open>The SQLite store\<close>

type_synonym admissions = "(string, admission_record) hmap"

definition valid_jti :: "string \<Rightarrow> bool" where
  "valid_jti jti \<longleftrightarrow> \<not> (length jti < 16 \<or> length jti > 256 \<or>
     \<not> list_all (\<lambda>c. is_ascii_alphanumeric c \<or> c \<in> set ''._:-'') jti)"

definition admitted_record :: "(string \<Rightarrow> string) \<Rightarrow> admission_claim \<Rightarrow> u64 \<Rightarrow> admission_record" where
  "admitted_record sha claim now =
     \<lparr>ar_jti = cl_jti claim, ar_provider_digest = ''sha256:'' @ sha (cl_provider_id claim),
      ar_intent_digest = ''sha256:'' @ sha (cl_intent claim), ar_state = ''accepted'',
      ar_expires_at = cl_expires_at claim, ar_consumed_at = now, ar_updated_at = now\<rparr>"

definition consume_sync ::
    "(string \<Rightarrow> string) \<Rightarrow> string option \<Rightarrow> admission_claim \<Rightarrow> string \<Rightarrow> string \<Rightarrow> u64 \<Rightarrow> u64 \<Rightarrow> admissions
      \<Rightarrow> admissions \<times> (admission_error + admission_decision)" where
  "consume_sync sha io claim provider intent now skew db =
    (if \<not> valid_jti (cl_jti claim) then (db, Inr (reject_admission ''reject_invalid_jti''))
     else if cl_provider_id claim \<noteq> provider then (db, Inr (reject_admission ''reject_provider_binding''))
     else if cl_intent claim \<noteq> intent then (db, Inr (reject_admission ''reject_intent_binding''))
     else if sat_add now skew < cl_not_before claim then (db, Inr (reject_admission ''reject_not_yet_valid''))
     else if sat_sub now skew \<ge> cl_expires_at claim then (db, Inr (reject_admission ''reject_expired''))
     else case io of Some e \<Rightarrow> (db, Inl (AdmissionStorage e)) | None \<Rightarrow>
       (case hget db (cl_jti claim) of
          Some r \<Rightarrow>
            (db, Inr \<lparr>ad_code = if admission_terminal (ar_state r) then ''reject_terminal'' else ''reject_replay'',
                      ad_accepted = False, ad_state = Some (ar_state r)\<rparr>)
        | None \<Rightarrow>
            (hput (cl_jti claim) (admitted_record sha claim now) db, Inr accepted_admission)))"

definition admission_transition_sync ::
    "string option \<Rightarrow> string \<Rightarrow> string \<Rightarrow> u64 \<Rightarrow> admissions \<Rightarrow> admissions \<times> (admission_error + admission_record)" where
  "admission_transition_sync io jti state now db =
    (if \<not> admission_terminal state then (db, Inl (AdmissionTransition state))
     else case io of Some e \<Rightarrow> (db, Inl (AdmissionStorage e)) | None \<Rightarrow>
       (case hget db jti of
          None \<Rightarrow> (db, Inl AdmissionUnknown)
        | Some existing \<Rightarrow>
            if admission_terminal (ar_state existing) \<and> ar_state existing \<noteq> state
            then (db, Inl (AdmissionTransition (''already terminal as '' @ ar_state existing)))
            else let r = (if ar_state existing \<noteq> state then existing\<lparr>ar_state := state, ar_updated_at := now\<rparr>
                          else existing)
                 in (hput jti r db, Inr r)))"

text \<open>\<^verbatim>\<open>ORDER BY expires_at LIMIT ?2\<close>: rows with equal expiry are taken in table order here; nothing below
  depends on it.\<close>

definition cleanup_victims :: "u64 \<Rightarrow> nat \<Rightarrow> admissions \<Rightarrow> string list" where
  "cleanup_victims cutoff limit db =
     map fst (take (max limit 1) (sort_key (\<lambda>(_, r). ar_expires_at r)
       (filter (\<lambda>(_, r). ar_expires_at r < cutoff) db)))"

definition admission_cleanup ::
    "string option \<Rightarrow> u64 \<Rightarrow> u64 \<Rightarrow> nat \<Rightarrow> admissions \<Rightarrow> admissions \<times> (admission_error + nat)" where
  "admission_cleanup io now retention limit db =
    (let cutoff = sat_sub now retention in
     case io of Some e \<Rightarrow> (db, Inl (AdmissionStorage e)) | None \<Rightarrow>
       (let victims = cleanup_victims cutoff limit db
        in (filter (\<lambda>(jti, _). jti \<notin> set victims) db, Inr (length victims))))"

definition admission_lookup :: "string option \<Rightarrow> string \<Rightarrow> admissions \<Rightarrow> admission_error + admission_record option" where
  "admission_lookup io jti db =
    (case io of Some e \<Rightarrow> Inl (AdmissionStorage e) | None \<Rightarrow> Inr (hget db jti))"

definition sqlite_admission :: "(string \<Rightarrow> string) \<Rightarrow> (string option, admissions) admission_port" where
  "sqlite_admission sha =
     \<lparr>a_consume = consume_sync sha, a_transition = admission_transition_sync,
      a_cleanup = admission_cleanup, a_lookup = admission_lookup\<rparr>"

subsection \<open>Histories of a provider\<close>

datatype 'e admission_op =
    Evaluate 'e admission_claim string string u64 bool u64
  | Finish 'e string string u64
  | Cleanup 'e u64 u64 nat

primrec op_time :: "'e admission_op \<Rightarrow> u64" where
  "op_time (Evaluate e claim provider intent now trust skew) = now"
| "op_time (Finish e jti state now) = now"
| "op_time (Cleanup e now retention limit) = now"

text \<open>One step, and whether it admitted the ticket \<open>j\<close>.\<close>

primrec admission_step :: "('e, 's) admission_port \<Rightarrow> 'e admission_op \<Rightarrow> 's \<Rightarrow> 's" where
  "admission_step st (Evaluate e claim provider intent now trust skew) s =
     fst (evaluate_dispatch_admission st e claim provider intent now trust skew s)"
| "admission_step st (Finish e jti state now) s = fst (a_transition st e jti state now s)"
| "admission_step st (Cleanup e now retention limit) s = fst (a_cleanup st e now retention limit s)"

primrec admits :: "('e, 's) admission_port \<Rightarrow> string \<Rightarrow> 'e admission_op \<Rightarrow> 's \<Rightarrow> bool" where
  "admits st j (Evaluate e claim provider intent now trust skew) s \<longleftrightarrow>
     cl_jti claim = j \<and> ad_accepted (snd (evaluate_dispatch_admission st e claim provider intent now trust skew s))"
| "admits st j (Finish e jti state now) s \<longleftrightarrow> False"
| "admits st j (Cleanup e now retention limit) s \<longleftrightarrow> False"

primrec admissions_of :: "('e, 's) admission_port \<Rightarrow> string \<Rightarrow> 'e admission_op list \<Rightarrow> 's \<Rightarrow> nat" where
  "admissions_of st j [] s = 0"
| "admissions_of st j (c # cs) s = (if admits st j c s then 1 else 0) + admissions_of st j cs (admission_step st c s)"

text \<open>The ticket \<open>j\<close> has one expiry \<open>x\<close>, wherever it is presented; every verifier allows at most \<open>m\<close> seconds
  of clock skew, and every cleanup keeps expired rows for at least \<open>m\<close> seconds.\<close>

primrec op_fits :: "string \<Rightarrow> u64 \<Rightarrow> u64 \<Rightarrow> 'e admission_op \<Rightarrow> bool" where
  "op_fits j x m (Evaluate e claim provider intent now trust skew) \<longleftrightarrow>
     (cl_jti claim = j \<longrightarrow> cl_expires_at claim = x \<and> skew \<le> m)"
| "op_fits j x m (Finish e jti state now) \<longleftrightarrow> True"
| "op_fits j x m (Cleanup e now retention limit) \<longleftrightarrow> m \<le> retention"

text \<open>A ticket is spent from time \<open>t\<close> on: it is on record, or no verifier would find it unexpired.\<close>

definition spent :: "('s \<Rightarrow> string \<Rightarrow> admission_record option) \<Rightarrow> string \<Rightarrow> u64 \<Rightarrow> u64 \<Rightarrow> u64 \<Rightarrow> 's \<Rightarrow> bool" where
  "spent view j x m t s \<longleftrightarrow> (\<exists>r. view s j = Some r \<and> ar_expires_at r = x) \<or> x \<le> sat_sub t m"

lemma fst_evaluate: "fst (evaluate_dispatch_admission st e claim p i now trust skew s) =
    (if trust then fst (a_consume st e claim p i now skew s) else s)"
  by (simp add: evaluate_dispatch_admission_def split: prod.split sum.split)

lemma sat_sub_mono: "t \<le> t' \<Longrightarrow> n' \<le> n \<Longrightarrow> (x :: u64) \<le> sat_sub t n \<Longrightarrow> x \<le> sat_sub t' n'"
  by (simp add: u64_le_iff unat_sat_sub)

subsection \<open>The contract of the port\<close>

locale dispatch_admission_store =
  fixes st :: "('e, 's) admission_port" and view :: "'s \<Rightarrow> string \<Rightarrow> admission_record option" and inv :: "'s \<Rightarrow> bool"
  assumes consume_inv: "inv s \<Longrightarrow> inv (fst (a_consume st e claim p i now skew s))"
    and transition_inv: "inv s \<Longrightarrow> inv (fst (a_transition st e j state now s))"
    and cleanup_inv: "inv s \<Longrightarrow> inv (fst (a_cleanup st e now retention limit s))"
    and consume_accepts: "inv s \<Longrightarrow> a_consume st e claim p i now skew s = (s', Inr d) \<Longrightarrow> ad_accepted d \<Longrightarrow>
      view s (cl_jti claim) = None \<and> cl_provider_id claim = p \<and> cl_intent claim = i \<and>
      cl_not_before claim \<le> sat_add now skew \<and> sat_sub now skew < cl_expires_at claim \<and>
      (\<exists>r. view s' = (view s)(cl_jti claim \<mapsto> r) \<and> ar_expires_at r = cl_expires_at claim)"
    and consume_refuses: "inv s \<Longrightarrow> a_consume st e claim p i now skew s = (s', y) \<Longrightarrow>
      \<not> (\<exists>d. y = Inr d \<and> ad_accepted d) \<Longrightarrow> view s' = view s"
    and transition_keeps: "inv s \<Longrightarrow> map_option ar_expires_at (view (fst (a_transition st e j state now s)) j') =
      map_option ar_expires_at (view s j')"
    and cleanup_keeps: "inv s \<Longrightarrow> view s j = Some r \<Longrightarrow> sat_sub now retention \<le> ar_expires_at r \<Longrightarrow>
      view (fst (a_cleanup st e now retention limit s)) j = Some r"
    and cleanup_only: "inv s \<Longrightarrow> view (fst (a_cleanup st e now retention limit s)) j \<in> {None, view s j}"
begin

lemma step_inv: "inv s \<Longrightarrow> inv (admission_step st c s)"
  by (cases c) (simp_all add: fst_evaluate consume_inv transition_inv cleanup_inv)

text \<open>What an admission presupposes and leaves behind.\<close>

lemma admits_cases:
  assumes "inv s" and "admits st j c s" and "op_fits j x m c"
  shows "view s j = None \<and> \<not> x \<le> sat_sub (op_time c) m \<and>
    (\<exists>r. view (admission_step st c s) j = Some r \<and> ar_expires_at r = x)"
proof (cases c)
  case (Evaluate e claim p i now trust skew)
  obtain s' y where y: "a_consume st e claim p i now skew s = (s', y)" by fastforce
  with assms(2) Evaluate obtain d where d: "y = Inr d" "ad_accepted d" "trust"
    by (cases y) (auto simp: evaluate_dispatch_admission_def reject_admission_def split: if_splits)
  have "cl_expires_at claim = x" "skew \<le> m" "cl_jti claim = j" using assms(2,3) Evaluate by simp_all
  moreover from this have "x \<le> sat_sub now m \<Longrightarrow> x \<le> sat_sub now skew"
    by (rule_tac sat_sub_mono) simp_all
  ultimately show ?thesis
    using consume_accepts [OF assms(1) y [unfolded d(1)] d(2)] Evaluate y d
    by (auto simp: evaluate_dispatch_admission_def)
qed (use assms(2) in simp_all)

lemma spent_step:
  assumes "inv s" and "spent view j x m t s" and "op_fits j x m c" and "t \<le> op_time c"
  shows "\<not> admits st j c s \<and> spent view j x m (op_time c) (admission_step st c s)"
proof (rule conjI)
  show no: "\<not> admits st j c s"
    using admits_cases [OF assms(1) _ assms(3)] assms(2,4) sat_sub_mono [of t "op_time c" m m x]
    by (auto simp: spent_def)
  show "spent view j x m (op_time c) (admission_step st c s)"
  proof (cases "x \<le> sat_sub t m")
    case True
    then show ?thesis using assms(4) sat_sub_mono [of t "op_time c" m m x] by (simp add: spent_def)
  next
    case False
    then obtain r where r: "view s j = Some r" "ar_expires_at r = x" using assms(2) by (auto simp: spent_def)
    show ?thesis
    proof (cases c)
      case (Evaluate e claim p i now trust skew)
      obtain s' y where y: "a_consume st e claim p i now skew s = (s', y)" by fastforce
      have "view s' j = view s j"
      proof (cases "\<exists>d. y = Inr d \<and> ad_accepted d")
        case True
        with consume_accepts [OF assms(1)] y r show ?thesis by fastforce
      next
        case False
        with consume_refuses [OF assms(1) y] show ?thesis by simp
      qed
      with Evaluate y r show ?thesis by (simp add: spent_def fst_evaluate)
    next
      case (Finish e j' state now)
      with transition_keeps [OF assms(1), of e j' state now j] r show ?thesis by (auto simp: spent_def)
    next
      case (Cleanup e now retention limit)
      show ?thesis
      proof (cases "sat_sub now retention \<le> x")
        case True
        with cleanup_keeps [OF assms(1) r(1), of now retention e limit] r Cleanup show ?thesis by (simp add: spent_def)
      next
        case False
        then have "x \<le> sat_sub now m"
          using assms(3) Cleanup sat_sub_mono [of now now m retention x] by simp
        with Cleanup show ?thesis by (simp add: spent_def)
      qed
    qed
  qed
qed

lemma spent_for_good:
  assumes "inv s" and "spent view j x m t s" and "list_all (op_fits j x m) cs" and "sorted (t # map op_time cs)"
  shows "admissions_of st j cs s = 0"
  using assms
proof (induction cs arbitrary: s t)
  case (Cons c cs)
  then have "\<not> admits st j c s \<and> spent view j x m (op_time c) (admission_step st c s)"
    by (intro spent_step [where t = t]) simp_all
  with Cons.IH [OF step_inv [OF Cons.prems(1)], of "op_time c" c] Cons.prems show ?case by simp
qed simp

lemma admitted_at_most_once:
  assumes "inv s" and "list_all (op_fits j x m) cs" and "sorted (map op_time cs)"
  shows "admissions_of st j cs s \<le> 1"
  using assms
proof (induction cs arbitrary: s)
  case (Cons c cs)
  show ?case
  proof (cases "admits st j c s")
    case True
    with Cons.prems admits_cases [OF Cons.prems(1) True, of x m] have "spent view j x m (op_time c) (admission_step st c s)"
      by (simp add: spent_def)
    with Cons.prems spent_for_good [OF step_inv [OF Cons.prems(1)], of j x m "op_time c" c cs] True show ?thesis by simp
  next
    case False
    with Cons.IH [OF step_inv [OF Cons.prems(1)], of c] Cons.prems show ?thesis by simp
  qed
qed simp

end

subsection \<open>The SQLite store keeps the contract\<close>

lemma filter_view: "hget (filter (\<lambda>(j, _). j \<notin> V) db) j = (if j \<in> V then None else hget db j)"
  by (induction db) auto

lemma cleanup_victims_expired:
  assumes "hwf db" and "j \<in> set (cleanup_victims cutoff limit db)"
  shows "\<exists>r. hget db j = Some r \<and> ar_expires_at r < cutoff"
proof -
  from assms(2) obtain r where "(j, r) \<in> set (sort_key (\<lambda>(_, r). ar_expires_at r) (filter (\<lambda>(_, r). ar_expires_at r < cutoff) db))"
    unfolding cleanup_victims_def by (auto dest: in_set_takeD)
  then show ?thesis using assms(1) by (auto simp: hwf_def)
qed

lemma consume_sync_cases:
  obtains (accepted) "valid_jti (cl_jti claim)" and "cl_provider_id claim = p" and "cl_intent claim = i"
      and "cl_not_before claim \<le> sat_add now skew" and "sat_sub now skew < cl_expires_at claim"
      and "hget db (cl_jti claim) = None"
      and "consume_sync sha io claim p i now skew db =
        (hput (cl_jti claim) (admitted_record sha claim now) db, Inr accepted_admission)"
    | (refused) y where "consume_sync sha io claim p i now skew db = (db, y)" and "\<not> (\<exists>d. y = Inr d \<and> ad_accepted d)"
proof (cases "valid_jti (cl_jti claim) \<and> cl_provider_id claim = p \<and> cl_intent claim = i \<and>
    cl_not_before claim \<le> sat_add now skew \<and> sat_sub now skew < cl_expires_at claim \<and>
    hget db (cl_jti claim) = None \<and> io = None")
  case True
  then show thesis by (intro accepted) (auto simp: consume_sync_def)
next
  case False
  have "fst (consume_sync sha io claim p i now skew db) = db \<and>
      \<not> (\<exists>d. snd (consume_sync sha io claim p i now skew db) = Inr d \<and> ad_accepted d)"
    unfolding consume_sync_def using False
    by (intro if_cases [where P = "\<lambda>z. fst z = db \<and> \<not> (\<exists>d. snd z = Inr d \<and> ad_accepted d)"])
      (auto simp: reject_admission_def split: option.split)
  then show thesis using refused [of "snd (consume_sync sha io claim p i now skew db)"] by (metis prod.collapse)
qed

lemma consume_sync_accepted:
  assumes "consume_sync sha io claim p i now skew db = (db', Inr d)" and "ad_accepted d"
  shows "hget db (cl_jti claim) = None \<and> cl_provider_id claim = p \<and> cl_intent claim = i \<and> valid_jti (cl_jti claim) \<and>
    cl_not_before claim \<le> sat_add now skew \<and> sat_sub now skew < cl_expires_at claim \<and>
    db' = hput (cl_jti claim) (admitted_record sha claim now) db"
  by (rule consume_sync_cases [where claim = claim and p = p and i = i and now = now and skew = skew and db = db
        and sha = sha and io = io]) (use assms in auto)

lemma consume_sync_refused:
  assumes "consume_sync sha io claim p i now skew db = (db', y)" and "\<not> (\<exists>d. y = Inr d \<and> ad_accepted d)"
  shows "db' = db"
  by (rule consume_sync_cases [where claim = claim and p = p and i = i and now = now and skew = skew and db = db
        and sha = sha and io = io]) (use assms in \<open>auto simp: accepted_admission_def\<close>)

lemma hwf_filter: "hwf db \<Longrightarrow> hwf (filter P db)"
  by (induction db) (auto simp: hwf_def)

interpretation sqa: dispatch_admission_store "sqlite_admission sha" hget hwf
  for sha
proof
  fix db db' and e :: "string option" and claim p i now skew j j' state retention limit d y r
  show "hwf (fst (a_consume (sqlite_admission sha) e claim p i now skew db))" if "hwf db"
    using that by (cases rule: consume_sync_cases [where claim = claim and p = p and i = i and now = now and skew = skew and db = db
        and sha = sha and io = e]) (simp_all add: sqlite_admission_def)
  show "hwf (fst (a_transition (sqlite_admission sha) e j state now db))" if "hwf db"
    using that by (simp add: sqlite_admission_def admission_transition_sync_def Let_def split: option.split)
  show "hwf (fst (a_cleanup (sqlite_admission sha) e now retention limit db))" if "hwf db"
    using that by (simp add: sqlite_admission_def admission_cleanup_def Let_def hwf_filter split: option.split)
  show "hget db (cl_jti claim) = None \<and> cl_provider_id claim = p \<and> cl_intent claim = i \<and>
      cl_not_before claim \<le> sat_add now skew \<and> sat_sub now skew < cl_expires_at claim \<and>
      (\<exists>r. hget db' = (hget db)(cl_jti claim \<mapsto> r) \<and> ar_expires_at r = cl_expires_at claim)"
    if "a_consume (sqlite_admission sha) e claim p i now skew db = (db', Inr d)" "ad_accepted d"
    using consume_sync_accepted [of sha e claim p i now skew db db' d] that
    by (auto simp: sqlite_admission_def admitted_record_def fun_upd_def)
  show "hget db' = hget db" if "a_consume (sqlite_admission sha) e claim p i now skew db = (db', y)"
    "\<not> (\<exists>d. y = Inr d \<and> ad_accepted d)"
    using consume_sync_refused [of sha e claim p i now skew db db' y] that by (simp add: sqlite_admission_def)
  show "map_option ar_expires_at (hget (fst (a_transition (sqlite_admission sha) e j state now db)) j') =
      map_option ar_expires_at (hget db j')"
    by (auto simp: sqlite_admission_def admission_transition_sync_def Let_def split: option.split)
  show "hget (fst (a_cleanup (sqlite_admission sha) e now retention limit db)) j = Some r"
    if "hwf db" "hget db j = Some r" "sat_sub now retention \<le> ar_expires_at r"
    using that cleanup_victims_expired [OF that(1), of j "sat_sub now retention" limit]
    by (auto simp: sqlite_admission_def admission_cleanup_def Let_def filter_view split: option.split)
  show "hget (fst (a_cleanup (sqlite_admission sha) e now retention limit db)) j \<in> {None, hget db j}"
    by (auto simp: sqlite_admission_def admission_cleanup_def Let_def filter_view split: option.split)
qed

subsection \<open>Properties\<close>


definition sample_claim :: admission_claim where
  "sample_claim = \<lparr>cl_jti = ''ticket-0123456789'', cl_provider_id = ''p'', cl_intent = ''i'',
     cl_not_before = 0, cl_expires_at = 100\<rparr>"


text \<open>An acceptance certifies the ticket: the decision \<^verbatim>\<open>accepted\<close> is given only to a trusted ticket with
  a well-formed identifier, issued for this provider and this intent, inside its validity window up to
  the clock skew, and never seen before; and it is recorded with its expiry before the answer.\<close>

theorem acceptance_certifies:
  assumes "evaluate_dispatch_admission (sqlite_admission sha) io claim p i now trust skew db = (db', d)" and "ad_accepted d"
  shows "trust \<and> valid_jti (cl_jti claim) \<and> cl_provider_id claim = p \<and> cl_intent claim = i \<and>
    cl_not_before claim \<le> sat_add now skew \<and> sat_sub now skew < cl_expires_at claim \<and>
    hget db (cl_jti claim) = None \<and> admission_lookup None (cl_jti claim) db' = Inr (Some (admitted_record sha claim now))"
  using assms consume_sync_accepted [of sha io claim p i now skew db db' d]
  by (auto simp: evaluate_dispatch_admission_def sqlite_admission_def reject_admission_def admission_lookup_def
      split: if_splits prod.splits sum.splits)

theorem acceptance_certifies_witness:
  "let (db', d) = evaluate_dispatch_admission (sqlite_admission (\<lambda>x. x)) None sample_claim ''p'' ''i'' 10 True 5 []
   in ad_accepted d \<and> valid_jti (cl_jti sample_claim) \<and>
      admission_lookup None (cl_jti sample_claim) db' = Inr (Some (admitted_record (\<lambda>x. x) sample_claim 10))"
proof -
  obtain db' d where e: "evaluate_dispatch_admission (sqlite_admission (\<lambda>x. x)) None sample_claim ''p'' ''i'' 10 True 5 [] = (db', d)"
    by fastforce
  then have "ad_accepted d"
    by (auto simp: sqlite_admission_def evaluate_dispatch_admission_def consume_sync_def sample_claim_def
        valid_jti_def ascii_defs accepted_admission_def sat_add_def sat_sub_def u64_simps)
  with acceptance_certifies [OF e] e show ?thesis by simp
qed

end
