(* ===== verification/Native.thy ===== *)
theory Native
  imports Json
begin

text \<open>
  The native transport's guards: \<^verbatim>\<open>src/native_response_sequence.rs\<close> checks the responses of one call,
  \<^verbatim>\<open>src/native_call_identity.rs\<close> the identifiers of the calls themselves.  The first is shown to accept
  exactly the streams of a declarative specification, the second to keep calls and tasks apart.
\<close>

subsection \<open>Response sequences\<close>

record native_envelope =
  en_task_id :: string
  en_sequence :: u64
  en_event :: string
  en_is_final :: bool

record native_frame =
  fr_session_id :: string
  fr_call_id :: string
  fr_status :: string
  fr_is_final :: bool
  fr_lifecycle :: native_envelope
  fr_result :: json
  fr_error :: json
  fr_tokens_used :: "u64 option"

record response_sequence =
  rs_session_id :: string
  rs_call_id :: string
  rs_task_id :: string
  rs_next_sequence :: u64
  rs_terminal_seen :: bool

definition new_sequence :: "string \<Rightarrow> string \<Rightarrow> string \<Rightarrow> response_sequence" where
  "new_sequence session call task =
     \<lparr>rs_session_id = session, rs_call_id = call, rs_task_id = task, rs_next_sequence = 0, rs_terminal_seen = False\<rparr>"

definition status_matches :: "string \<Rightarrow> string \<Rightarrow> bool" where
  "status_matches status event \<longleftrightarrow>
    (if status = ''partial'' then event = ''partial''
     else if status = ''success'' then event = ''completed''
     else if status = ''error'' then event \<in> set [''failed'', ''cancelled'']
     else if status = ''timeout'' then event \<in> set [''timed_out'', ''expired'']
     else False)"

definition accept_frame :: "native_frame \<Rightarrow> response_sequence \<Rightarrow> response_sequence \<times> (string + unit)" where
  "accept_frame f s =
    (if rs_terminal_seen s then (s, Inl ''response_after_terminal'')
     else if fr_session_id f \<noteq> rs_session_id s then (s, Inl ''session_id_drift'')
     else if fr_call_id f \<noteq> rs_call_id s then (s, Inl ''call_id_drift'')
     else if en_task_id (fr_lifecycle f) \<noteq> rs_task_id s then (s, Inl ''task_id_drift'')
     else if en_sequence (fr_lifecycle f) \<noteq> rs_next_sequence s then (s, Inl ''sequence_drift'')
     else if fr_is_final f \<noteq> en_is_final (fr_lifecycle f) then (s, Inl ''finality_disagreement'')
     else if \<not> status_matches (fr_status f) (en_event (fr_lifecycle f)) then (s, Inl ''status_event_disagreement'')
     else if (fr_status f = ''partial'' \<and> fr_is_final f) \<or> (fr_status f \<noteq> ''partial'' \<and> \<not> fr_is_final f)
     then (s, Inl ''terminal_flag_mismatch'')
     else (s\<lparr>rs_next_sequence := rs_next_sequence s + 1, rs_terminal_seen := fr_is_final f\<rparr>, Inr ()))"

definition finish_sequence :: "response_sequence \<Rightarrow> string + unit" where
  "finish_sequence s = (if rs_terminal_seen s then Inr () else Inl ''missing_terminal_response'')"

subsection \<open>Call identity\<close>

definition LIFECYCLE_PROFILE :: string where
  "LIFECYCLE_PROFILE = ''urn:iicp:profile:service-lifecycle:v1''"

datatype call_identity_error =
    MissingTaskId | MissingCallId | MissingIdempotencyKey | CallIdReuse | TaskIdentityConflict

record call_registry =
  cr_tasks :: "(string, string) hmap"
  cr_calls :: "string list"

definition empty_calls :: call_registry where
  "empty_calls = \<lparr>cr_tasks = [], cr_calls = []\<rparr>"

definition required_member :: "json \<Rightarrow> string \<Rightarrow> call_identity_error \<Rightarrow> call_identity_error + string" where
  "required_member call key err =
    (case get_str call key of
       Some v \<Rightarrow> if v \<noteq> [] then Inr v else Inl err
     | None \<Rightarrow> Inl err)"

definition accept_call :: "json \<Rightarrow> call_registry \<Rightarrow> call_registry \<times> (call_identity_error + unit)" where
  "accept_call call s =
    (if get_str call ''profile'' \<noteq> Some LIFECYCLE_PROFILE then (s, Inr ())
     else case required_member call ''task_id'' MissingTaskId of Inl e \<Rightarrow> (s, Inl e) | Inr task_id \<Rightarrow>
     (case required_member call ''call_id'' MissingCallId of Inl e \<Rightarrow> (s, Inl e) | Inr call_id \<Rightarrow>
     (case required_member call ''idempotency_key'' MissingIdempotencyKey of Inl e \<Rightarrow> (s, Inl e) | Inr key \<Rightarrow>
       (if call_id \<in> set (cr_calls s) then (s, Inl CallIdReuse)
        else if (case hget (cr_tasks s) task_id of Some known \<Rightarrow> known \<noteq> key | None \<Rightarrow> False)
        then (s, Inl TaskIdentityConflict)
        else (s\<lparr>cr_tasks := hput task_id key (cr_tasks s), cr_calls := List.insert call_id (cr_calls s)\<rparr>, Inr ())))))"

subsection \<open>The streams that pass\<close>

text \<open>Feeding a list of frames, stopping at the first error.\<close>

fun accept_frames :: "native_frame list \<Rightarrow> response_sequence \<Rightarrow> string + response_sequence" where
  "accept_frames [] s = Inr s"
| "accept_frames (f # fs) s =
    (case accept_frame f s of (s', Inl e) \<Rightarrow> Inl e | (s', Inr _) \<Rightarrow> accept_frames fs s')"

definition complete_stream :: "string \<Rightarrow> string \<Rightarrow> string \<Rightarrow> native_frame list \<Rightarrow> bool" where
  "complete_stream session call task fs \<longleftrightarrow>
    (case accept_frames fs (new_sequence session call task) of Inl _ \<Rightarrow> False | Inr s \<Rightarrow> \<not> isl (finish_sequence s))"

text \<open>The specification: partial frames numbered from zero, then one closing frame.\<close>

definition frame_of :: "string \<Rightarrow> string \<Rightarrow> string \<Rightarrow> u64 \<Rightarrow> native_frame \<Rightarrow> bool" where
  "frame_of session call task n f \<longleftrightarrow> fr_session_id f = session \<and> fr_call_id f = call \<and>
     en_task_id (fr_lifecycle f) = task \<and> en_sequence (fr_lifecycle f) = n \<and>
     fr_is_final f = en_is_final (fr_lifecycle f)"

definition partial_frame :: "native_frame \<Rightarrow> bool" where
  "partial_frame f \<longleftrightarrow> fr_status f = ''partial'' \<and> en_event (fr_lifecycle f) = ''partial'' \<and> \<not> fr_is_final f"

definition closing_frame :: "native_frame \<Rightarrow> bool" where
  "closing_frame f \<longleftrightarrow> fr_is_final f \<and>
     (fr_status f, en_event (fr_lifecycle f)) \<in> {(''success'', ''completed''), (''error'', ''failed''),
        (''error'', ''cancelled''), (''timeout'', ''timed_out''), (''timeout'', ''expired'')}"

definition stream_spec :: "string \<Rightarrow> string \<Rightarrow> string \<Rightarrow> native_frame list \<Rightarrow> bool" where
  "stream_spec session call task fs \<longleftrightarrow> fs \<noteq> [] \<and>
     (\<forall>i < length fs. frame_of session call task (of_nat i) (fs ! i)) \<and>
     list_all partial_frame (butlast fs) \<and> closing_frame (last fs)"

lemma accept_frame_iff:
  "snd (accept_frame f s) = Inr () \<longleftrightarrow> \<not> rs_terminal_seen s \<and>
     frame_of (rs_session_id s) (rs_call_id s) (rs_task_id s) (rs_next_sequence s) f \<and> (partial_frame f \<or> closing_frame f)"
  by (auto simp: accept_frame_def frame_of_def partial_frame_def closing_frame_def status_matches_def)

lemma partial_or_closing: "partial_frame f \<Longrightarrow> \<not> fr_is_final f" "closing_frame f \<Longrightarrow> fr_is_final f"
  by (simp_all add: partial_frame_def closing_frame_def)

lemma accept_frame_next:
  "snd (accept_frame f s) = Inr () \<longrightarrow>
    fst (accept_frame f s) = s\<lparr>rs_next_sequence := rs_next_sequence s + 1, rs_terminal_seen := fr_is_final f\<rparr>"
  unfolding accept_frame_def
  by (rule if_cases [where P = "\<lambda>z. snd z = Inr () \<longrightarrow>
        fst z = s\<lparr>rs_next_sequence := rs_next_sequence s + 1, rs_terminal_seen := fr_is_final f\<rparr>"]; simp)+

text \<open>The same from any point of a stream.\<close>

lemma accept_frames_iff:
  assumes "\<not> rs_terminal_seen s"
  shows "(case accept_frames fs s of Inl _ \<Rightarrow> False | Inr s' \<Rightarrow> rs_terminal_seen s') \<longleftrightarrow> fs \<noteq> [] \<and>
    (\<forall>i < length fs. frame_of (rs_session_id s) (rs_call_id s) (rs_task_id s) (rs_next_sequence s + of_nat i) (fs ! i)) \<and>
    list_all partial_frame (butlast fs) \<and> closing_frame (last fs)"
  using assms
proof (induction fs arbitrary: s)
  case (Cons f fs)
  let ?fr = "frame_of (rs_session_id s) (rs_call_id s) (rs_task_id s)"
  obtain s' y where a: "accept_frame f s = (s', y)" by fastforce
  have all: "(\<forall>i < length (f # fs). ?fr (rs_next_sequence s + of_nat i) ((f # fs) ! i)) \<longleftrightarrow>
      ?fr (rs_next_sequence s) f \<and> (\<forall>i < length fs. ?fr (rs_next_sequence s + 1 + of_nat i) (fs ! i))"
    unfolding All_less_Suc2 length_Cons by (simp add: add.assoc)
  show ?case
  proof (cases "y = Inr ()")
    case False
    with a accept_frame_iff [of f s] Cons.prems have "\<not> (?fr (rs_next_sequence s) f \<and> (partial_frame f \<or> closing_frame f))"
      by simp
    with False a show ?thesis unfolding all by (cases y; cases fs) auto
  next
    case True
    then have s': "s' = s\<lparr>rs_next_sequence := rs_next_sequence s + 1, rs_terminal_seen := fr_is_final f\<rparr>"
      and ok: "?fr (rs_next_sequence s) f" "partial_frame f \<or> closing_frame f"
      using accept_frame_next [of f s] accept_frame_iff [of f s] a by simp_all
    show ?thesis
    proof (cases "fr_is_final f")
      case final: False
      with ok have p: "partial_frame f" "\<not> closing_frame f" using partial_or_closing by auto
      with Cons.IH [of s'] final True a ok show ?thesis unfolding all by (cases fs) (simp_all add: s')
    next
      case final: True
      with ok have p: "closing_frame f" "\<not> partial_frame f" using partial_or_closing by auto
      show ?thesis
      proof (cases fs)
        case Nil
        with True a ok p final show ?thesis unfolding all by (simp add: s')
      next
        case (Cons g gs)
        have "accept_frame g s' = (s', Inl ''response_after_terminal'')" using final by (simp add: accept_frame_def s')
        with Cons True a p show ?thesis by simp
      qed
    qed
  qed
qed simp

text \<open>C15. The response checker accepts a stream exactly when it is one complete, well-formed answer: every
  frame carries the session, call and task of the request and the two final flags agree, the frames
  are numbered from zero without a gap, all but the last are partial, and the last one, and only the
  last, is final with a status that fits its event.\<close>

theorem complete_stream_iff: "complete_stream session call task fs \<longleftrightarrow> stream_spec session call task fs"
proof -
  have "complete_stream session call task fs \<longleftrightarrow>
      (case accept_frames fs (new_sequence session call task) of Inl _ \<Rightarrow> False | Inr s' \<Rightarrow> rs_terminal_seen s')"
    by (simp add: complete_stream_def finish_sequence_def split: sum.split)
  also have "\<dots> \<longleftrightarrow> stream_spec session call task fs"
    by (subst accept_frames_iff) (simp_all add: new_sequence_def stream_spec_def)
  finally show ?thesis .
qed

subsection \<open>Calls and tasks stay apart\<close>

text \<open>The lifecycle calls accepted along a run, in order.\<close>

fun accepted_calls :: "json list \<Rightarrow> call_registry \<Rightarrow> json list" where
  "accepted_calls [] s = []"
| "accepted_calls (c # cs) s =
    (if get_str c ''profile'' = Some LIFECYCLE_PROFILE \<and> snd (accept_call c s) = Inr () then [c] else []) @
    accepted_calls cs (fst (accept_call c s))"

definition call_identity :: "json \<Rightarrow> string option \<times> string option \<times> string option" where
  "call_identity c = (get_str c ''task_id'', get_str c ''call_id'', get_str c ''idempotency_key'')"

lemma accept_call_cases:
  obtains (ignored) "get_str c ''profile'' \<noteq> Some LIFECYCLE_PROFILE" "accept_call c s = (s, Inr ())"
  | (refused) e where "accept_call c s = (s, Inl e)"
  | (accepted) t i k where "get_str c ''profile'' = Some LIFECYCLE_PROFILE"
      "call_identity c = (Some t, Some i, Some k)" "i \<notin> set (cr_calls s)"
      "hget (cr_tasks s) t \<in> {None, Some k}"
      "accept_call c s = (s\<lparr>cr_tasks := hput t k (cr_tasks s), cr_calls := i # cr_calls s\<rparr>, Inr ())"
proof (cases "get_str c ''profile'' = Some LIFECYCLE_PROFILE")
  case True
  show thesis
  proof (cases "snd (accept_call c s)")
    case (Inl e)
    then have "fst (accept_call c s) = s"
      by (auto simp: accept_call_def split: sum.splits if_splits)
    with Inl show thesis by (intro refused [of e]) (metis prod.collapse)
  next
    case (Inr u)
    with True show thesis
      by (auto simp: accept_call_def required_member_def call_identity_def split: sum.splits if_splits option.splits
          intro: accepted)
  qed
qed (simp add: ignored accept_call_def)

lemma accepted_calls_new:
  assumes "c \<in> set (accepted_calls cs s)"
  shows "\<exists>t i k. call_identity c = (Some t, Some i, Some k) \<and> i \<notin> set (cr_calls s) \<and> hget (cr_tasks s) t \<in> {None, Some k}"
  using assms
proof (induction cs arbitrary: s)
  case (Cons d cs)
  show ?case
  proof (cases rule: accept_call_cases [of d s])
    case ignored
    with Cons show ?thesis by simp
  next
    case (refused e)
    with Cons show ?thesis by simp
  next
    case (accepted t i k)
    show ?thesis
    proof (cases "c = d")
      case True
      with accepted show ?thesis by blast
    next
      case False
      with Cons.prems accepted have "c \<in> set (accepted_calls cs (fst (accept_call d s)))" by simp
      from Cons.IH [OF this] accepted show ?thesis by (auto split: if_splits)
    qed
  qed
qed simp

lemma single_valued_insert: "single_valued r \<Longrightarrow> (\<And>b. (x, b) \<in> r \<Longrightarrow> b = y) \<Longrightarrow> single_valued (insert (x, y) r)"
  by (fastforce simp: single_valued_def)

lemma accepted_calls_apart:
  "distinct (map (\<lambda>c. get_str c ''call_id'') (accepted_calls cs s)) \<and>
   single_valued ((\<lambda>c. (get_str c ''task_id'', get_str c ''idempotency_key'')) ` set (accepted_calls cs s))"
proof (induction cs arbitrary: s)
  case (Cons d cs)
  show ?case
  proof (cases rule: accept_call_cases [of d s])
    case ignored
    with Cons show ?thesis by simp
  next
    case (refused e)
    with Cons show ?thesis by simp
  next
    case (accepted t i k)
    let ?s = "fst (accept_call d s)" and ?key = "\<lambda>c. (get_str c ''task_id'', get_str c ''idempotency_key'')"
    have A: "accepted_calls (d # cs) s = d # accepted_calls cs ?s" using accepted by simp
    have d: "get_str d ''call_id'' = Some i" "?key d = (Some t, Some k)" using accepted by (simp_all add: call_identity_def)
    have new: "get_str c ''call_id'' \<noteq> Some i \<and> (get_str c ''task_id'' = Some t \<longrightarrow> get_str c ''idempotency_key'' = Some k)"
      if "c \<in> set (accepted_calls cs ?s)" for c
      using accepted_calls_new [OF that] accepted by (auto simp: call_identity_def split: if_splits)
    have "single_valued (insert (Some t, Some k) (?key ` set (accepted_calls cs ?s)))"
    proof (rule single_valued_insert)
      show "single_valued (?key ` set (accepted_calls cs ?s))" using Cons [of ?s] by (rule conjunct2)
      show "b = Some k" if "(Some t, b) \<in> ?key ` set (accepted_calls cs ?s)" for b
        using that new by force
    qed
    moreover have "Some i \<notin> set (map (\<lambda>c. get_str c ''call_id'') (accepted_calls cs ?s))"
      using new by fastforce
    moreover have "distinct (map (\<lambda>c. get_str c ''call_id'') (accepted_calls cs ?s))"
      using Cons [of ?s] by (rule conjunct1)
    ultimately show ?thesis unfolding A by (simp only: list.map list.set image_insert d distinct.simps simp_thms)
  qed
qed (simp add: single_valued_def)

text \<open>Among the lifecycle calls a connection accepts, in any sequence of calls, no two carry the same call
  identifier, and all that name the same task carry the same idempotency key.\<close>

theorem accepted_calls_identified:
  "distinct (map (\<lambda>c. get_str c ''call_id'') (accepted_calls cs empty_calls)) \<and>
   single_valued ((\<lambda>c. (get_str c ''task_id'', get_str c ''idempotency_key'')) ` set (accepted_calls cs empty_calls))"
  by (rule accepted_calls_apart)

end
