(* ===== verification/Gates.thy ===== *)
theory Gates
  imports Complex_Main Prelude
begin

text \<open>
  The small guards in front of a provider's handler: \<^verbatim>\<open>src/concurrency.rs\<close> (the lock-free slot counter),
  \<^verbatim>\<open>src/idempotency.rs\<close> (duplicate suppression), \<^verbatim>\<open>src/availability.rs\<close> (capacity by time of day),
  \<^verbatim>\<open>src/scheduler.rs\<close> (queueing by quality of service) and \<^verbatim>\<open>src/token_validator.rs\<close> (bearer tokens).

  The slot counter is shared by threads that interleave at its atomic operations.  Its model is a step
  relation on the counter and the program points of the threads, one rule per atomic operation or
  branch of \<^verbatim>\<open>acquire\<close>, \<^verbatim>\<open>release\<close> and \<^verbatim>\<open>run\<close>.
\<close>

subsection \<open>The concurrency gate\<close>

text \<open>Where a thread stands: outside, in the loop of \<^verbatim>\<open>acquire\<close> with the value it last read, running its
  future with a slot held (the drop guard exists), or turned away with \<^verbatim>\<open>CapacityExceededError\<close>.\<close>

datatype gate_point = Outside | Trying nat | Holding | Refused

record gate =
  gt_max_concurrent :: nat
  gt_active :: nat
  gt_threads :: "gate_point list"

definition new_gate :: "nat \<Rightarrow> nat \<Rightarrow> gate option" where
  "new_gate max_concurrent threads =
    (if max_concurrent \<ge> 1
     then Some \<lparr>gt_max_concurrent = max_concurrent, gt_active = 0, gt_threads = replicate threads Outside\<rparr>
     else None)"

definition at_point :: "gate \<Rightarrow> nat \<Rightarrow> gate_point \<Rightarrow> bool" where
  "at_point g i p \<longleftrightarrow> i < length (gt_threads g) \<and> gt_threads g ! i = p"

definition goto_point :: "nat \<Rightarrow> gate_point \<Rightarrow> gate \<Rightarrow> gate" where
  "goto_point i p g = g\<lparr>gt_threads := (gt_threads g)[i := p]\<rparr>"

inductive gate_step :: "gate \<Rightarrow> gate \<Rightarrow> bool" where
  load: "at_point g i Outside \<Longrightarrow> gate_step g (goto_point i (Trying (gt_active g)) g)"
| full: "at_point g i (Trying cur) \<Longrightarrow> cur \<ge> gt_max_concurrent g \<Longrightarrow> gate_step g (goto_point i Refused g)"
| cas_ok: "at_point g i (Trying cur) \<Longrightarrow> cur < gt_max_concurrent g \<Longrightarrow> gt_active g = cur \<Longrightarrow>
    gate_step g (goto_point i Holding (g\<lparr>gt_active := cur + 1\<rparr>))"
| cas_failed: "at_point g i (Trying cur) \<Longrightarrow> cur < gt_max_concurrent g \<Longrightarrow> gt_active g \<noteq> cur \<Longrightarrow>
    gate_step g (goto_point i (Trying (gt_active g)) g)"
| release: "at_point g i Holding \<Longrightarrow> gate_step g (goto_point i Outside (g\<lparr>gt_active := gt_active g - 1\<rparr>))"
| leave: "at_point g i Refused \<Longrightarrow> gate_step g (goto_point i Outside g)"

inductive_cases gate_stepE: "gate_step g g'"

definition active_jobs :: "gate \<Rightarrow> nat" where
  "active_jobs g = gt_active g"

text \<open>\<^verbatim>\<open>load()\<close>: the quotient of two integers, before it is rounded to a float.\<close>

definition gate_load :: "gate \<Rightarrow> rat" where
  "gate_load g = (if gt_max_concurrent g = 0 then 1 else of_nat (active_jobs g) / of_nat (gt_max_concurrent g))"

subsection \<open>The idempotency guard\<close>

text \<open>Times are readings of the monotonic clock, in any unit.\<close>

record idempotency_guard =
  ig_ttl :: nat
  ig_seen :: "(string, nat) hmap"

definition new_guard :: "nat \<Rightarrow> idempotency_guard" where
  "new_guard ttl = \<lparr>ig_ttl = ttl, ig_seen = []\<rparr>"

definition check_and_register :: "string \<Rightarrow> nat \<Rightarrow> idempotency_guard \<Rightarrow> idempotency_guard \<times> bool" where
  "check_and_register task_id now g =
    (if task_id = [] then (g, True)
     else let seen = hretain (\<lambda>_ exp. exp > now) (ig_seen g) in
       if hget seen task_id \<noteq> None then (g\<lparr>ig_seen := seen\<rparr>, False)
       else (g\<lparr>ig_seen := hput task_id (now + ig_ttl g) seen\<rparr>, True))"

definition guard_size :: "idempotency_guard \<Rightarrow> nat" where
  "guard_size g = length (ig_seen g)"

subsection \<open>Availability windows\<close>

record window =
  w_start :: string
  w_end :: string
  w_share :: rat

text \<open>Strings compare byte by byte.\<close>

fun str_le :: "string \<Rightarrow> string \<Rightarrow> bool" where
  "str_le [] ys = True"
| "str_le (x # xs) [] = False"
| "str_le (x # xs) (y # ys) =
    (if (of_char x :: nat) < of_char y then True else if x = y then str_le xs ys else False)"

fun share_in :: "window list \<Rightarrow> string \<Rightarrow> rat" where
  "share_in [] current = 1 / 2"
| "share_in (w # ws) current =
    (if str_le (w_start w) (w_end w) then
       (if str_le (w_start w) current \<and> str_le current (w_end w) then w_share w else share_in ws current)
     else if str_le (w_start w) current \<or> str_le current (w_end w) then w_share w
     else share_in ws current)"

definition share_at :: "window list \<Rightarrow> string \<Rightarrow> rat" where
  "share_at ws current = (if ws = [] then 1 else share_in ws current)"

text \<open>\<open>fl\<close> rounds an exact product to the float the processor computes; the cast to \<^verbatim>\<open>usize\<close> truncates.\<close>

definition effective_at :: "(rat \<Rightarrow> rat) \<Rightarrow> window list \<Rightarrow> nat \<Rightarrow> string \<Rightarrow> nat" where
  "effective_at fl ws base_max current =
    (if base_max = 0 then 0
     else let share = share_at ws current in
       if share \<le> 0 then 0 else max 1 (nat \<lfloor>fl (of_nat base_max * share)\<rfloor>))"

subsection \<open>Queueing and tokens\<close>

definition qos_priority :: "string \<Rightarrow> nat" where
  "qos_priority qos =
    (if qos = ''realtime'' then 0 else if qos = ''interactive'' then 1 else if qos = ''batch'' then 2 else 3)"

definition is_queue_eligible :: "string \<Rightarrow> bool" where
  "is_queue_eligible qos \<longleftrightarrow> qos \<in> set [''realtime'', ''interactive'']"

record token_validator =
  tv_expected :: string

text \<open>\<open>ct_eq\<close> is \<^verbatim>\<open>subtle\<close>'s comparison of two byte strings of equal length.\<close>

definition is_valid_token :: "(string \<Rightarrow> string \<Rightarrow> bool) \<Rightarrow> token_validator \<Rightarrow> string \<Rightarrow> bool" where
  "is_valid_token ct_eq v presented =
    (if tv_expected v = [] \<or> presented = [] then False
     else if length (tv_expected v) \<noteq> length presented then False
     else ct_eq (tv_expected v) presented)"

definition update_token :: "string \<Rightarrow> token_validator \<Rightarrow> token_validator" where
  "update_token t v = v\<lparr>tv_expected := t\<rparr>"

lemma queue_eligible_priority: "is_queue_eligible qos \<longleftrightarrow> qos_priority qos < 2"
  by (simp add: is_queue_eligible_def qos_priority_def)

lemma token_valid_iff:
  assumes "\<And>a b. length a = length b \<Longrightarrow> ct_eq a b \<longleftrightarrow> a = b"
  shows "is_valid_token ct_eq (update_token t v) presented \<longleftrightarrow> presented = t \<and> t \<noteq> []"
  using assms by (auto simp: is_valid_token_def update_token_def)

subsection \<open>The gate never admits too many\<close>

definition holders :: "gate \<Rightarrow> nat" where
  "holders g = length (filter (\<lambda>p. p = Holding) (gt_threads g))"

lemma holders_update:
  assumes "i < length ps"
  shows "length (filter Q (ps[i := p])) + (if Q (ps ! i) then 1 else 0) = length (filter Q ps) + (if Q p then 1 else 0)"
  using assms
proof (induction ps arbitrary: i)
  case (Cons q ps)
  then show ?case by (cases i) (auto split: if_splits)
qed simp

lemma holders_goto:
  assumes "at_point g i p0"
  shows "holders (goto_point i p g) + (if p0 = Holding then 1 else 0) = holders g + (if p = Holding then 1 else 0)"
  using assms holders_update [of i "gt_threads g" "\<lambda>p. p = Holding" p]
  by (simp add: holders_def goto_point_def at_point_def)

lemma goto_sel [simp]: "gt_active (goto_point i p g) = gt_active g" "gt_max_concurrent (goto_point i p g) = gt_max_concurrent g"
  by (simp_all add: goto_point_def)

lemma at_point_active [simp]: "at_point (g\<lparr>gt_active := n\<rparr>) i p = at_point g i p" "holders (g\<lparr>gt_active := n\<rparr>) = holders g"
  by (simp_all add: at_point_def holders_def)

definition gate_ok :: "gate \<Rightarrow> bool" where
  "gate_ok g \<longleftrightarrow> gt_active g = holders g \<and> gt_active g \<le> gt_max_concurrent g"

lemma gate_step_ok:
  assumes "gate_step g g'" and "gate_ok g"
  shows "gate_ok g' \<and> gt_max_concurrent g' = gt_max_concurrent g"
  using assms
proof (cases rule: gate_step.cases)
  case (load i)
  with holders_goto [OF load(2), of "Trying (gt_active g)"] assms(2) show ?thesis by (simp add: gate_ok_def)
next
  case (full i cur)
  with holders_goto [OF full(2), of Refused] assms(2) show ?thesis by (simp add: gate_ok_def)
next
  case (cas_ok i cur)
  with holders_goto [of "g\<lparr>gt_active := cur + 1\<rparr>" i "Trying cur" Holding] assms(2) show ?thesis by (simp add: gate_ok_def)
next
  case (cas_failed i cur)
  with holders_goto [OF cas_failed(2), of "Trying (gt_active g)"] assms(2) show ?thesis by (simp add: gate_ok_def)
next
  case (release i)
  with holders_goto [of "g\<lparr>gt_active := gt_active g - 1\<rparr>" i Holding Outside] assms(2) show ?thesis by (auto simp: gate_ok_def)
next
  case (leave i)
  with holders_goto [OF leave(2), of Outside] assms(2) show ?thesis by (simp add: gate_ok_def)
qed

text \<open>C11. However the threads interleave, at most \<open>max_concurrent\<close> of them hold a slot at any time, the counter
  is exactly the number of holders (so a release never takes it below zero), and the reported load
  lies between 0 and 1.\<close>

theorem gate_bounded:
  assumes "new_gate n k = Some g" and "gate_step\<^sup>*\<^sup>* g g'"
  shows "holders g' \<le> n \<and> active_jobs g' = holders g' \<and> 0 \<le> gate_load g' \<and> gate_load g' \<le> 1"
proof -
  have "gate_ok g' \<and> gt_max_concurrent g' = n"
    using assms(2)
  proof (induction rule: rtranclp_induct)
    case base
    show ?case using assms(1) by (auto simp: new_gate_def gate_ok_def holders_def split: if_splits)
  next
    case (step y z)
    with gate_step_ok [of y z] show ?case by simp
  qed
  moreover have "n \<ge> 1" using assms(1) by (simp add: new_gate_def split: if_splits)
  ultimately show ?thesis by (simp add: gate_ok_def gate_load_def active_jobs_def)
qed

theorem gate_bounded_witness:
  "\<exists>g g'. new_gate 1 2 = Some g \<and> gate_step\<^sup>*\<^sup>* g g' \<and> holders g' = 1 \<and> holders g' \<le> 1 \<and> gate_load g' \<le> 1"
proof -
  let ?g = "\<lparr>gt_max_concurrent = 1, gt_active = 0, gt_threads = [Outside, Outside]\<rparr>"
  let ?g1 = "\<lparr>gt_max_concurrent = 1, gt_active = 0, gt_threads = [Trying 0, Outside]\<rparr>"
  let ?g2 = "\<lparr>gt_max_concurrent = 1, gt_active = 1, gt_threads = [Holding, Outside]\<rparr>"
  have g: "new_gate 1 2 = Some ?g" by (simp add: new_gate_def numeral_2_eq_2)
  have "gate_step ?g ?g1" using gate_step.load [of ?g 0] by (simp add: at_point_def goto_point_def)
  moreover have "gate_step ?g1 ?g2" using gate_step.cas_ok [of ?g1 0 0] by (simp add: at_point_def goto_point_def)
  ultimately have r: "gate_step\<^sup>*\<^sup>* ?g ?g2" by simp
  have "holders ?g2 = 1" by (simp add: holders_def)
  with g r gate_bounded [OF g r] show ?thesis by blast
qed

subsection \<open>The guard against its history\<close>

text \<open>The reference: remember every registration for ever and look for one that is still fresh.\<close>

definition fresh_duplicate :: "nat \<Rightarrow> (string \<times> nat) list \<Rightarrow> string \<Rightarrow> nat \<Rightarrow> bool" where
  "fresh_duplicate ttl hist task_id now \<longleftrightarrow>
     task_id \<noteq> [] \<and> list_ex (\<lambda>(k, t). k = task_id \<and> now < t + ttl) hist"

primrec reference_answers :: "nat \<Rightarrow> (string \<times> nat) list \<Rightarrow> (string \<times> nat) list \<Rightarrow> bool list" where
  "reference_answers ttl hist [] = []"
| "reference_answers ttl hist (q # qs) =
    (let dup = fresh_duplicate ttl hist (fst q) (snd q)
     in (\<not> dup) # reference_answers ttl (if dup then hist else q # hist) qs)"

primrec guard_answers :: "idempotency_guard \<Rightarrow> (string \<times> nat) list \<Rightarrow> bool list" where
  "guard_answers g [] = []"
| "guard_answers g (q # qs) =
    (let (g', ok) = check_and_register (fst q) (snd q) g in ok # guard_answers g' qs)"

text \<open>At time \<open>now\<close> the guard holds exactly the registrations of the history that have not expired.\<close>

definition guard_tracks :: "idempotency_guard \<Rightarrow> (string \<times> nat) list \<Rightarrow> nat \<Rightarrow> bool" where
  "guard_tracks g hist now \<longleftrightarrow> hwf (ig_seen g) \<and>
     (\<forall>k. k \<noteq> [] \<longrightarrow> (\<forall>now' \<ge> now. (\<exists>e. hget (ig_seen g) k = Some e \<and> now' < e) \<longleftrightarrow> fresh_duplicate (ig_ttl g) hist k now'))"

lemma retained:
  "hwf m \<Longrightarrow> hget (hretain (\<lambda>_ exp. exp > now) m) k = (case hget m k of Some e \<Rightarrow> if e > now then Some e else None | None \<Rightarrow> None)"
  by (simp add: hget_hretain split: option.split)

lemma guard_tracks_step:
  assumes "guard_tracks g hist t" and "t \<le> now"
  shows "snd (check_and_register k now g) = (\<not> fresh_duplicate (ig_ttl g) hist k now) \<and>
    ig_ttl (fst (check_and_register k now g)) = ig_ttl g \<and>
    guard_tracks (fst (check_and_register k now g)) (if fresh_duplicate (ig_ttl g) hist k now then hist else (k, now) # hist) now"
proof (cases "k = []")
  case True
  with assms show ?thesis by (auto simp: check_and_register_def guard_tracks_def fresh_duplicate_def)
next
  case False
  let ?seen = "hretain (\<lambda>_ exp. exp > now) (ig_seen g)"
  have wf: "hwf (ig_seen g)" using assms(1) by (simp add: guard_tracks_def)
  have tr: "(\<exists>e. hget (ig_seen g) k' = Some e \<and> now' < e) \<longleftrightarrow> fresh_duplicate (ig_ttl g) hist k' now'"
    if "k' \<noteq> []" "now \<le> now'" for k' now'
    using assms that by (simp add: guard_tracks_def)
  have kept: "(\<exists>e. hget ?seen k' = Some e \<and> now' < e) \<longleftrightarrow> fresh_duplicate (ig_ttl g) hist k' now'"
    if "k' \<noteq> []" "now \<le> now'" for k' now'
    using tr [OF that] that(2) by (auto simp: retained [OF wf] split: option.splits if_splits)
  have dup: "hget ?seen k \<noteq> None \<longleftrightarrow> fresh_duplicate (ig_ttl g) hist k now"
    using tr [OF False order_refl] by (auto simp: retained [OF wf] split: option.splits if_splits)
  show ?thesis
  proof (cases "fresh_duplicate (ig_ttl g) hist k now")
    case True
    with dup kept False wf show ?thesis
      by (simp add: check_and_register_def Let_def guard_tracks_def)
  next
    case new: False
    have "(\<exists>e. hget (hput k (now + ig_ttl g) ?seen) k' = Some e \<and> now' < e) \<longleftrightarrow>
        fresh_duplicate (ig_ttl g) ((k, now) # hist) k' now'" if "k' \<noteq> []" "now \<le> now'" for k' now'
      using kept [OF that] new kept [OF False, of now'] that dup tr [OF False order_refl] that(2)
      by (cases "k' = k") (auto simp: fresh_duplicate_def list_ex_iff)
    with new dup False wf show ?thesis
      by (simp add: check_and_register_def Let_def guard_tracks_def)
  qed
qed

lemma guard_answers_tracks:
  assumes "guard_tracks g hist t" and "sorted (t # map snd qs)"
  shows "guard_answers g qs = reference_answers (ig_ttl g) hist qs"
  using assms
proof (induction qs arbitrary: g hist t)
  case (Cons q qs)
  let ?hist = "if fresh_duplicate (ig_ttl g) hist (fst q) (snd q) then hist else (fst q, snd q) # hist"
  note step = guard_tracks_step [OF Cons.prems(1), of "snd q" "fst q"]
  with Cons.prems Cons.IH [of "fst (check_and_register (fst q) (snd q) g)" ?hist "snd q"] show ?case
    by (simp add: Let_def case_prod_beta)
qed simp

text \<open>C16. Evicting expired entries is invisible: over any requests in clock order the guard answers exactly as
  one that remembers every registration for ever and rejects a task identifier when it was last
  registered less than the time-to-live ago; the empty identifier is never a duplicate.\<close>

theorem guard_equals_reference:
  assumes "sorted (map snd qs)"
  shows "guard_answers (new_guard ttl) qs = reference_answers ttl [] qs"
  using guard_answers_tracks [of "new_guard ttl" "[]" 0 qs] assms
  by (simp add: new_guard_def guard_tracks_def fresh_duplicate_def hwf_def)

theorem guard_equals_reference_witness:
  "guard_answers (new_guard 300) [(''a'', 0), (''a'', 299), (''a'', 300)] = [True, False, True]"
  using guard_equals_reference [of "[(''a'', 0), (''a'', 299), (''a'', 300)]" 300]
  by (simp add: fresh_duplicate_def)

subsection \<open>Capacity by the clock\<close>

lemma share_at_bounds:
  assumes "list_all (\<lambda>w. 0 \<le> w_share w \<and> w_share w \<le> 1) ws"
  shows "0 \<le> share_at ws current \<and> share_at ws current \<le> 1"
proof -
  have "0 \<le> share_in ws current \<and> share_in ws current \<le> 1" using assms by (induction ws) simp_all
  then show ?thesis by (simp add: share_at_def)
qed

text \<open>The effective limit never exceeds the configured one and is never zero by rounding: with shares
  between 0 and 1 and a rounding that is monotone and exact on the configured limit and on zero, it is zero
  exactly when the limit is zero or the share in force is zero, and at most the configured limit.\<close>

theorem effective_limit_bounds:
  assumes "list_all (\<lambda>w. 0 \<le> w_share w \<and> w_share w \<le> 1) ws"
    and "\<And>x y. x \<le> y \<Longrightarrow> fl x \<le> fl y" and "fl (of_nat base_max) = of_nat base_max" and "fl 0 = 0"
  shows "effective_at fl ws base_max current \<le> base_max \<and>
    (effective_at fl ws base_max current = 0 \<longleftrightarrow> base_max = 0 \<or> share_at ws current = 0)"
proof -
  let ?s = "share_at ws current"
  have s: "0 \<le> ?s" "?s \<le> 1" using share_at_bounds [OF assms(1)] by simp_all
  have "of_nat base_max * ?s \<le> of_nat base_max" using s by (simp add: mult_left_le)
  then have "fl (of_nat base_max * ?s) \<le> of_nat base_max" using assms(2,3) by (metis (no_types))
  then have "nat \<lfloor>fl (of_nat base_max * ?s)\<rfloor> \<le> base_max" by linarith
  with s show ?thesis by (auto simp: effective_at_def Let_def)
qed

theorem effective_limit_bounds_witness:
  "let ws = [\<lparr>w_start = ''22:00'', w_end = ''06:00'', w_share = 1 / 2\<rparr>]
   in effective_at (\<lambda>x. x) ws 10 ''23:30'' = 5 \<and> effective_at (\<lambda>x. x) ws 10 ''23:30'' \<le> 10"
proof -
  let ?ws = "[\<lparr>w_start = ''22:00'', w_end = ''06:00'', w_share = 1 / 2\<rparr>]"
  have "effective_at (\<lambda>x. x) ?ws 10 ''23:30'' \<le> 10 \<and> (effective_at (\<lambda>x. x) ?ws 10 ''23:30'' = 0 \<longleftrightarrow>
      (10 :: nat) = 0 \<or> share_at ?ws ''23:30'' = 0)"
    by (rule effective_limit_bounds) simp_all
  moreover have "effective_at (\<lambda>x. x) ?ws 10 ''23:30'' = 5"
    by (simp add: effective_at_def share_at_def Let_def)
  ultimately show ?thesis by (simp add: Let_def)
qed

end
