(* ===== verification/Endpoint.thy ===== *)
theory Endpoint
  imports Text "HOL-Library.List_Lexorder"
begin

unbundle bit_operations_syntax

text \<open>
  Where a client may connect: \<^verbatim>\<open>src/endpoint_security.rs\<close> (hostname and address policy, resolution) and the
  request loop of \<^verbatim>\<open>post_json_ct_with_policy\<close> in \<^verbatim>\<open>src/http.rs\<close> that pins every hop to a checked address,
  with the first, textual guard \<^verbatim>\<open>is_ssrf_safe\<close> of \<^verbatim>\<open>src/client.rs\<close>.

  \<^verbatim>\<open>IpAddr::from_str\<close> is written out after the standard library's parser, as functions from the input to
  a value and the unread rest.  \<^verbatim>\<open>Url::parse\<close>, the resolver and the network are parameters.
  The environment variable that permits private endpoints is the argument \<open>allow_private\<close>.
\<close>

subsection \<open>Addresses\<close>

datatype ip = V4 nat nat nat nat | V6 "nat list"

text \<open>Octets are below 256 and segments below 65536; an IPv6 address has eight of them.\<close>

fun ip_wf :: "ip \<Rightarrow> bool" where
  "ip_wf (V4 a b c d) \<longleftrightarrow> a < 256 \<and> b < 256 \<and> c < 256 \<and> d < 256"
| "ip_wf (V6 gs) \<longleftrightarrow> length gs = 8 \<and> list_all (\<lambda>g. g < 65536) gs"

definition digit_value :: "nat \<Rightarrow> char \<Rightarrow> nat option" where
  "digit_value radix c =
    (let n = of_char c :: nat;
         v = (if 48 \<le> n \<and> n \<le> 57 then Some (n - 48)
              else if 97 \<le> n \<and> n \<le> 122 then Some (n - 87)
              else if 65 \<le> n \<and> n \<le> 90 then Some (n - 55)
              else None)
     in case v of Some d \<Rightarrow> if d < radix then Some d else None | None \<Rightarrow> None)"

text \<open>\<^verbatim>\<open>read_number\<close>: digits up to a count and a bound, counting the digits read.\<close>

fun read_digits :: "nat \<Rightarrow> nat \<Rightarrow> nat \<Rightarrow> nat \<Rightarrow> nat \<Rightarrow> string \<Rightarrow> (nat \<times> nat \<times> string) option" where
  "read_digits radix bound max_digits n v [] = Some (n, v, [])"
| "read_digits radix bound max_digits n v (c # cs) =
    (case digit_value radix c of
       None \<Rightarrow> Some (n, v, c # cs)
     | Some d \<Rightarrow>
         if v * radix + d \<ge> bound then None
         else if Suc n > max_digits then None
         else read_digits radix bound max_digits (Suc n) (v * radix + d) cs)"

definition read_number :: "nat \<Rightarrow> nat \<Rightarrow> nat \<Rightarrow> bool \<Rightarrow> string \<Rightarrow> (nat \<times> string) option" where
  "read_number radix bound max_digits allow_zero_prefix s =
    (case read_digits radix bound max_digits 0 0 s of
       None \<Rightarrow> None
     | Some (n, v, rest) \<Rightarrow>
         if n = 0 then None
         else if \<not> allow_zero_prefix \<and> hd s = CHR ''0'' \<and> n > 1 then None
         else Some (v, rest))"

definition read_char :: "char \<Rightarrow> string \<Rightarrow> string option" where
  "read_char c s = (case s of x # xs \<Rightarrow> if x = c then Some xs else None | [] \<Rightarrow> None)"

definition read_octet :: "string \<Rightarrow> (nat \<times> string) option" where
  "read_octet = read_number 10 256 3 False"

definition read_ipv4 :: "string \<Rightarrow> ((nat \<times> nat \<times> nat \<times> nat) \<times> string) option" where
  "read_ipv4 s0 =
    Option.bind (read_octet s0) (\<lambda>(a, s1). Option.bind (read_char CHR ''.'' s1) (\<lambda>s2.
    Option.bind (read_octet s2) (\<lambda>(b, s3). Option.bind (read_char CHR ''.'' s3) (\<lambda>s4.
    Option.bind (read_octet s4) (\<lambda>(c, s5). Option.bind (read_char CHR ''.'' s5) (\<lambda>s6.
    Option.bind (read_octet s6) (\<lambda>(d, s7). Some ((a, b, c, d), s7))))))))"

text \<open>\<^verbatim>\<open>read_separator\<close> and \<^verbatim>\<open>read_groups\<close>; \<open>k\<close> is the number of groups that may still follow.\<close>

definition read_sep :: "bool \<Rightarrow> (string \<Rightarrow> ('a \<times> string) option) \<Rightarrow> string \<Rightarrow> ('a \<times> string) option" where
  "read_sep first inner s =
    (if first then inner s else Option.bind (read_char CHR '':'' s) inner)"

fun read_groups :: "nat \<Rightarrow> bool \<Rightarrow> string \<Rightarrow> nat list \<times> bool \<times> string" where
  "read_groups 0 first s = ([], False, s)"
| "read_groups (Suc k) first s =
    (case (if k > 0 then read_sep first read_ipv4 s else None) of
       Some ((a, b, c, d), rest) \<Rightarrow> ([a * 256 + b, c * 256 + d], True, rest)
     | None \<Rightarrow>
         (case read_sep first (read_number 16 65536 4 True) s of
            None \<Rightarrow> ([], False, s)
          | Some (g, rest) \<Rightarrow>
              (let (gs, v4, rest') = read_groups k False rest in (g # gs, v4, rest'))))"

definition read_ipv6 :: "string \<Rightarrow> (nat list \<times> string) option" where
  "read_ipv6 s =
    (let (front, v4, s1) = read_groups 8 True s in
     if length front = 8 then Some (front, s1)
     else if v4 then None
     else Option.bind (read_char CHR '':'' s1) (\<lambda>s2. Option.bind (read_char CHR '':'' s2) (\<lambda>s3.
       (let (back, _, s4) = read_groups (8 - (length front + 1)) True s3
        in Some (front @ replicate (8 - length front - length back) 0 @ back, s4)))))"

text \<open>\<^verbatim>\<open>IpAddr::from_str\<close>: an IPv4 address, else an IPv6 address, with nothing left over.\<close>

definition parse_ip :: "string \<Rightarrow> ip option" where
  "parse_ip s =
    (case read_ipv4 s of
       Some ((a, b, c, d), []) \<Rightarrow> Some (V4 a b c d)
     | Some (_, _ # _) \<Rightarrow> None
     | None \<Rightarrow>
         (case read_ipv6 s of Some (gs, []) \<Rightarrow> Some (V6 gs) | _ \<Rightarrow> None))"

lemma read_groups_numeral [simp]:
  "read_groups (numeral n) first s =
    (case (if pred_numeral n > 0 then read_sep first read_ipv4 s else None) of
       Some ((a, b, c, d), rest) \<Rightarrow> ([a * 256 + b, c * 256 + d], True, rest)
     | None \<Rightarrow>
         (case read_sep first (read_number 16 65536 4 True) s of
            None \<Rightarrow> ([], False, s)
          | Some (g, rest) \<Rightarrow>
              (let (gs, v4, rest') = read_groups (pred_numeral n) False rest in (g # gs, v4, rest'))))"
  by (simp add: numeral_eq_Suc)

lemma replicate_numeral: "replicate (numeral n) x = x # replicate (pred_numeral n) x"
  by (simp add: numeral_eq_Suc)

lemmas ip_parsing = parse_ip_def read_ipv4_def read_ipv6_def read_sep_def read_octet_def read_number_def
  digit_value_def read_char_def Let_def replicate_numeral

lemma parse_ip_samples:
  "parse_ip ''127.0.0.1'' = Some (V4 127 0 0 1)"
  "parse_ip ''127.0.0.1?x'' = None"
  "parse_ip ''01.0.0.1'' = None"
  "parse_ip ''::1'' = Some (V6 [0, 0, 0, 0, 0, 0, 0, 1])"
  "parse_ip ''::ffff:10.0.0.5'' = Some (V6 [0, 0, 0, 0, 0, 65535, 2560, 5])"
  by (simp_all add: ip_parsing)

subsection \<open>The address policy\<close>

definition ipv4_allowed :: "nat \<Rightarrow> nat \<Rightarrow> nat \<Rightarrow> nat \<Rightarrow> bool" where
  "ipv4_allowed a b c d \<longleftrightarrow>
     \<not> (a = 0 \<or> a = 10 \<or> a = 127 \<or> (a = 100 \<and> 64 \<le> b \<and> b \<le> 127) \<or> (a = 169 \<and> b = 254) \<or>
        (a = 172 \<and> 16 \<le> b \<and> b \<le> 31) \<or> (a = 192 \<and> b = 0 \<and> (c = 0 \<or> c = 2)) \<or> (a = 192 \<and> b = 168) \<or>
        (a = 198 \<and> (b = 18 \<or> b = 19)) \<or> (a = 198 \<and> b = 51 \<and> c = 100) \<or> (a = 203 \<and> b = 0 \<and> c = 113) \<or>
        a \<ge> 224)"

definition ipv6_unspecified :: "nat list \<Rightarrow> bool" where
  "ipv6_unspecified gs \<longleftrightarrow> gs = [0, 0, 0, 0, 0, 0, 0, 0]"

definition ipv6_loopback :: "nat list \<Rightarrow> bool" where
  "ipv6_loopback gs \<longleftrightarrow> gs = [0, 0, 0, 0, 0, 0, 0, 1]"

definition ipv6_multicast :: "nat list \<Rightarrow> bool" where
  "ipv6_multicast gs \<longleftrightarrow> gs ! 0 AND 0xff00 = 0xff00"

definition ipv6_allowed :: "nat list \<Rightarrow> bool" where
  "ipv6_allowed gs \<longleftrightarrow>
     \<not> (ipv6_unspecified gs \<or> ipv6_loopback gs \<or> ipv6_multicast gs \<or> gs ! 0 AND 0xfe00 = 0xfc00 \<or>
        gs ! 0 AND 0xffc0 = 0xfe80 \<or> gs ! 0 = 0x0100 \<or> (gs ! 0 = 0x2001 \<and> gs ! 1 = 0x0db8))"

text \<open>\<^verbatim>\<open>to_ipv4_mapped\<close>\<close>

definition ipv4_mapped :: "nat list \<Rightarrow> (nat \<times> nat \<times> nat \<times> nat) option" where
  "ipv4_mapped gs =
    (if take 6 gs = [0, 0, 0, 0, 0, 65535]
     then Some (gs ! 6 div 256, gs ! 6 mod 256, gs ! 7 div 256, gs ! 7 mod 256) else None)"

fun address_allowed :: "bool \<Rightarrow> ip \<Rightarrow> bool" where
  "address_allowed allow_private (V4 a b c d) \<longleftrightarrow> allow_private \<or> ipv4_allowed a b c d"
| "address_allowed allow_private (V6 gs) \<longleftrightarrow> allow_private \<or>
     (case ipv4_mapped gs of Some (a, b, c, d) \<Rightarrow> ipv4_allowed a b c d | None \<Rightarrow> ipv6_allowed gs)"

definition BLOCKED_SUFFIXES :: "string list" where
  "BLOCKED_SUFFIXES = [''.local'', ''.internal'', ''.lan'', ''.test'', ''.invalid'', ''.localhost'']"

definition hostname_allowed :: "bool \<Rightarrow> string \<Rightarrow> bool" where
  "hostname_allowed allow_private host0 =
    (if host0 = [] then False
     else if allow_private then True
     else let host = to_ascii_lowercase (trim_end_char CHR ''.'' host0) in
       if host \<in> set [''localhost'', ''0.0.0.0'', ''::1'', ''::''] then False
       else if list_ex (\<lambda>suffix. ends_with host suffix) BLOCKED_SUFFIXES then False
       else parse_ip host \<noteq> None \<or> CHR ''.'' \<in> set host \<or> CHR '':'' \<in> set host)"

subsection \<open>Errors\<close>

datatype iicp_error =
    HttpError string
  | EndpointRefused string
  | ProtocolError string string nat
  | InvalidIntent string
  | PolicyRefused string string
  | TimeoutTooLarge nat
  | NoNodes string
  | SerdeError string
  | NodeError string

fun is_transient :: "iicp_error \<Rightarrow> bool" where
  "is_transient (ProtocolError code message status) \<longleftrightarrow> status \<in> set [429, 502, 503, 504]"
| "is_transient (HttpError e) \<longleftrightarrow> True"
| "is_transient _ \<longleftrightarrow> False"

subsection \<open>Resolution\<close>

text \<open>A parsed URL, as far as it is looked at: \<^verbatim>\<open>scheme()\<close>, \<^verbatim>\<open>username()\<close>, \<^verbatim>\<open>password()\<close>, \<^verbatim>\<open>host_str()\<close>,
  \<^verbatim>\<open>port_or_known_default()\<close>, \<^verbatim>\<open>origin()\<close> and \<^verbatim>\<open>to_string()\<close>.\<close>

record url =
  u_scheme :: string
  u_username :: string
  u_password :: "string option"
  u_host :: "string option"
  u_port :: "nat option"
  u_origin :: string
  u_text :: string

type_synonym socket = "ip \<times> nat"

record resolved_endpoint =
  re_url :: url
  re_host :: string
  re_addresses :: "socket list"

text \<open>The order of the \<^verbatim>\<open>BTreeSet\<close> of socket addresses.\<close>

fun socket_key :: "socket \<Rightarrow> nat list" where
  "socket_key (V4 a b c d, port) = [0, a, b, c, d, port]"
| "socket_key (V6 gs, port) = 1 # gs @ [port]"

text \<open>\<open>parse_url\<close> stands for \<^verbatim>\<open>Url::parse\<close>, \<open>lookup\<close> for the system resolver.\<close>

definition resolve_endpoint_with_policy ::
    "(string \<Rightarrow> url option) \<Rightarrow> (string \<Rightarrow> nat \<Rightarrow> socket list option) \<Rightarrow> bool \<Rightarrow> string
      \<Rightarrow> iicp_error + resolved_endpoint" where
  "resolve_endpoint_with_policy parse_url lookup allow_private text =
    (case parse_url text of
       None \<Rightarrow> Inl (EndpointRefused ''provider endpoint is not a valid URL'')
     | Some parsed \<Rightarrow>
     if u_scheme parsed \<notin> set [''http'', ''https'']
     then Inl (EndpointRefused ''provider endpoint must use HTTP or HTTPS'')
     else if u_username parsed \<noteq> [] \<or> u_password parsed \<noteq> None
     then Inl (EndpointRefused ''provider endpoint must not contain user info'')
     else case u_host parsed of
       None \<Rightarrow> Inl (EndpointRefused ''provider endpoint has no host'')
     | Some h \<Rightarrow>
       let host = to_ascii_lowercase (trim_end_char CHR ''.'' h) in
       if \<not> hostname_allowed allow_private host
       then Inl (EndpointRefused ''provider hostname is prohibited by network policy'')
       else case u_port parsed of
         None \<Rightarrow> Inl (EndpointRefused ''provider endpoint has no usable port'')
       | Some port \<Rightarrow>
         (case (case parse_ip host of Some ip \<Rightarrow> Some [(ip, port)] | None \<Rightarrow> lookup host port) of
            None \<Rightarrow> Inl (EndpointRefused ''provider hostname resolution failed'')
          | Some found \<Rightarrow>
              if found = [] then Inl (EndpointRefused ''provider hostname returned no addresses'')
              else if list_ex (\<lambda>(ip, _). \<not> address_allowed allow_private ip) found
              then Inl (EndpointRefused ''provider hostname resolved to a prohibited address'')
              else Inr \<lparr>re_url = parsed, re_host = host,
                        re_addresses = sort_key socket_key (remdups found)\<rparr>))"

subsection \<open>The textual guard of the client\<close>

text \<open>\<open>lower\<close> is \<^verbatim>\<open>str::to_lowercase\<close>, which maps by the Unicode tables.\<close>

definition url_host :: "string \<Rightarrow> string" where
  "url_host rest =
    (if starts_with rest ''['' then trim_start_char CHR ''['' (hd (split_on CHR '']'' rest))
     else hd (split_on CHR '':'' (hd (split_on CHR ''/'' rest))))"

fun ssrf_literal_ok :: "ip \<Rightarrow> bool" where
  "ssrf_literal_ok (V4 a b c d) \<longleftrightarrow>
     \<not> (a = 127 \<or> (a = 10 \<or> (a = 172 \<and> 16 \<le> b \<and> b \<le> 31) \<or> (a = 192 \<and> b = 168)) \<or> (a = 169 \<and> b = 254) \<or>
        (a = 255 \<and> b = 255 \<and> c = 255 \<and> d = 255) \<or> (a = 0 \<and> b = 0 \<and> c = 0 \<and> d = 0)) \<and>
     \<not> (a = 100 \<and> 64 \<le> b \<and> b \<le> 127)"
| "ssrf_literal_ok (V6 gs) \<longleftrightarrow> \<not> (ipv6_loopback gs \<or> ipv6_multicast gs \<or> ipv6_unspecified gs)"

definition is_ssrf_safe :: "(string \<Rightarrow> string) \<Rightarrow> bool \<Rightarrow> string \<Rightarrow> bool" where
  "is_ssrf_safe lower allow_loopback url =
    (case (case strip_prefix ''https://'' (lower url) of
             Some s \<Rightarrow> Some s
           | None \<Rightarrow> strip_prefix ''http://'' (lower url)) of
       None \<Rightarrow> False
     | Some rest \<Rightarrow>
         let host = url_host rest in
         if host = [] then False
         else if allow_loopback then True
         else if host \<in> set [''localhost'', ''0.0.0.0'', ''::1'', ''::''] then False
         else if list_ex (\<lambda>s. ends_with host s) BLOCKED_SUFFIXES then False
         else if CHR ''.'' \<notin> set host \<and> CHR '':'' \<notin> set host then False
         else case parse_ip host of Some ip \<Rightarrow> ssrf_literal_ok ip | None \<Rightarrow> True)"

text \<open>\<^verbatim>\<open>is_browser_usable_endpoint\<close>\<close>

definition is_browser_usable_endpoint :: "(string \<Rightarrow> string) \<Rightarrow> string \<Rightarrow> bool" where
  "is_browser_usable_endpoint lower url =
    (if starts_with (lower url) ''https://'' then True
     else case strip_prefix ''http://'' (lower url) of
       None \<Rightarrow> False
     | Some rest \<Rightarrow> url_host rest \<in> set [''localhost'', ''127.0.0.1'', ''::1''])"

subsection \<open>What the policies mean\<close>

text \<open>The refused IPv4 addresses as the blocks of the registries they come from.\<close>

definition ipv4_number :: "nat \<Rightarrow> nat \<Rightarrow> nat \<Rightarrow> nat \<Rightarrow> nat" where
  "ipv4_number a b c d = ((a * 256 + b) * 256 + c) * 256 + d"

definition in_block :: "nat \<Rightarrow> (nat \<times> nat \<times> nat \<times> nat) \<times> nat \<Rightarrow> bool" where
  "in_block n blk \<longleftrightarrow> (case blk of ((a, b, c, d), len) \<Rightarrow>
     n div 2 ^ (32 - len) = ipv4_number a b c d div 2 ^ (32 - len))"

definition SPECIAL_BLOCKS :: "((nat \<times> nat \<times> nat \<times> nat) \<times> nat) list" where
  "SPECIAL_BLOCKS = [((0, 0, 0, 0), 8), ((10, 0, 0, 0), 8), ((127, 0, 0, 0), 8), ((100, 64, 0, 0), 10),
     ((169, 254, 0, 0), 16), ((172, 16, 0, 0), 12), ((192, 0, 0, 0), 24), ((192, 0, 2, 0), 24),
     ((192, 168, 0, 0), 16), ((198, 18, 0, 0), 15), ((198, 51, 100, 0), 24), ((203, 0, 113, 0), 24),
     ((224, 0, 0, 0), 3)]"

lemma mixed_radix: "(q :: nat) < k \<Longrightarrow> r < k \<Longrightarrow> a * k + q = n * k + r \<longleftrightarrow> a = n \<and> q = r"
proof
  assume "q < k" "r < k" "a * k + q = n * k + r"
  then show "a = n \<and> q = r"
    by (metis add.commute div_less div_mult_self3 add_0 mod_less mod_mult_self3 less_nat_zero_code)
qed simp

lemma div_step: "n div (k * m) = (n div k) div (m :: nat)"
  by (rule div_mult2_eq)

lemma ipv4_number_div:
  assumes "a < 256" "b < 256" "c < 256" "d < 256"
  shows "ipv4_number a b c d div 256 = (a * 256 + b) * 256 + c"
    "ipv4_number a b c d div 65536 = a * 256 + b"
    "ipv4_number a b c d div 131072 = a * 128 + b div 2"
    "ipv4_number a b c d div 1048576 = a * 16 + b div 16"
    "ipv4_number a b c d div 4194304 = a * 4 + b div 64"
    "ipv4_number a b c d div 16777216 = a"
    "ipv4_number a b c d div 536870912 = a div 32"
proof -
  let ?n = "ipv4_number a b c d"
  show 8: "?n div 256 = (a * 256 + b) * 256 + c" using assms by (simp add: ipv4_number_def)
  show 16: "?n div 65536 = a * 256 + b" using div_step [of ?n 256 256] assms by (simp add: 8)
  show 24: "?n div 16777216 = a" using div_step [of ?n 65536 256] assms by (simp add: 16)
  show "?n div 131072 = a * 128 + b div 2" using div_step [of ?n 65536 2] by (simp add: 16)
  show "?n div 1048576 = a * 16 + b div 16" using div_step [of ?n 65536 16] by (simp add: 16)
  show "?n div 4194304 = a * 4 + b div 64" using div_step [of ?n 65536 64] by (simp add: 16)
  show "?n div 536870912 = a div 32" using div_step [of ?n 16777216 32] by (simp add: 24)
qed

lemma ipv4_blocks:
  assumes "ip_wf (V4 a b c d)"
  shows "list_ex (in_block (ipv4_number a b c d)) SPECIAL_BLOCKS \<longleftrightarrow>
    a = 0 \<or> a = 10 \<or> a = 127 \<or> a * 4 + b div 64 = 401 \<or> a * 256 + b = 43518 \<or> a * 16 + b div 16 = 2753 \<or>
    (a * 256 + b) * 256 + c = 12582912 \<or> (a * 256 + b) * 256 + c = 12582914 \<or> a * 256 + b = 49320 \<or>
    a * 128 + b div 2 = 25353 \<or> (a * 256 + b) * 256 + c = 12989284 \<or> (a * 256 + b) * 256 + c = 13303921 \<or> a div 32 = 7"
  using assms by (simp add: SPECIAL_BLOCKS_def in_block_def ipv4_number_div)

text \<open>The octet tests of the address policy are exactly the special-purpose blocks: an IPv4 address is
  refused if and only if it lies in one of 0/8, 10/8, 127/8, 100.64/10, 169.254/16, 172.16/12,
  192.0.0/24, 192.0.2/24, 192.168/16, 198.18/15, 198.51.100/24, 203.0.113/24 and 224/3.\<close>

theorem ipv4_policy_is_blocks:
  assumes "ip_wf (V4 a b c d)"
  shows "address_allowed False (V4 a b c d) \<longleftrightarrow> \<not> list_ex (in_block (ipv4_number a b c d)) SPECIAL_BLOCKS"
proof -
  have w: "a < 256" "b < 256" "c < 256" using assms by simp_all
  have b: "b div 64 < 4" "b div 16 < 16" "b div 2 < 128" using w by linarith+
  have "a * 4 + b div 64 = 401 \<longleftrightarrow> a = 100 \<and> b div 64 = 1" using b mixed_radix [of "b div 64" 4 1 a 100] by simp
  moreover have "b div 64 = 1 \<longleftrightarrow> 64 \<le> b \<and> b \<le> 127" by linarith
  moreover have "a * 16 + b div 16 = 2753 \<longleftrightarrow> a = 172 \<and> b div 16 = 1" using b mixed_radix [of "b div 16" 16 1 a 172] by simp
  moreover have "b div 16 = 1 \<longleftrightarrow> 16 \<le> b \<and> b \<le> 31" by linarith
  moreover have "a * 128 + b div 2 = 25353 \<longleftrightarrow> a = 198 \<and> b div 2 = 9" using b mixed_radix [of "b div 2" 128 9 a 198] by simp
  moreover have "b div 2 = 9 \<longleftrightarrow> b = 18 \<or> b = 19" by linarith
  moreover have "a * 256 + b = 43518 \<longleftrightarrow> a = 169 \<and> b = 254" "a * 256 + b = 49320 \<longleftrightarrow> a = 192 \<and> b = 168"
    "a * 256 + b = 49152 \<longleftrightarrow> a = 192 \<and> b = 0" "a * 256 + b = 50739 \<longleftrightarrow> a = 198 \<and> b = 51" "a * 256 + b = 51968 \<longleftrightarrow> a = 203 \<and> b = 0"
    using w mixed_radix [of b 256 254 a 169] mixed_radix [of b 256 168 a 192] mixed_radix [of b 256 0 a 192]
      mixed_radix [of b 256 51 a 198] mixed_radix [of b 256 0 a 203] by simp_all
  moreover have "(a * 256 + b) * 256 + c = 12582912 \<longleftrightarrow> a * 256 + b = 49152 \<and> c = 0"
    "(a * 256 + b) * 256 + c = 12582914 \<longleftrightarrow> a * 256 + b = 49152 \<and> c = 2"
    "(a * 256 + b) * 256 + c = 12989284 \<longleftrightarrow> a * 256 + b = 50739 \<and> c = 100"
    "(a * 256 + b) * 256 + c = 13303921 \<longleftrightarrow> a * 256 + b = 51968 \<and> c = 113"
    using w mixed_radix [of c 256 0 "a * 256 + b" 49152] mixed_radix [of c 256 2 "a * 256 + b" 49152]
      mixed_radix [of c 256 100 "a * 256 + b" 50739] mixed_radix [of c 256 113 "a * 256 + b" 51968] by simp_all
  moreover have "a div 32 = 7 \<longleftrightarrow> a \<ge> 224" using w by linarith
  ultimately have "list_ex (in_block (ipv4_number a b c d)) SPECIAL_BLOCKS \<longleftrightarrow> \<not> ipv4_allowed a b c d"
    unfolding ipv4_blocks [OF assms] ipv4_allowed_def by (simp only: not_not) argo
  then show ?thesis by simp
qed

theorem ipv4_policy_is_blocks_witness:
  "\<not> address_allowed False (V4 100 64 0 1) \<and> list_ex (in_block (ipv4_number 100 64 0 1)) SPECIAL_BLOCKS"
proof -
  have "\<not> address_allowed False (V4 100 64 0 1)" by (simp add: ipv4_allowed_def)
  moreover have "ip_wf (V4 100 64 0 1)" by simp
  ultimately show ?thesis using ipv4_policy_is_blocks [of 100 64 0 1] by blast
qed

text \<open>A resolved endpoint has only addresses the policy allows.\<close>

lemma resolve_endpoint_ok:
  assumes "resolve_endpoint_with_policy parse_url lookup allow_private text = Inr re"
  shows "re_addresses re \<noteq> [] \<and> list_all (\<lambda>(ip, _). address_allowed allow_private ip) (re_addresses re) \<and>
    parse_url text = Some (re_url re) \<and> u_scheme (re_url re) \<in> {''http'', ''https''} \<and> u_username (re_url re) = [] \<and>
    hostname_allowed allow_private (re_host re)"
proof -
  have "sort_key socket_key (remdups xs) = [] \<longleftrightarrow> xs = []" for xs
    by (metis set_empty set_remdups set_sort)
  then show ?thesis using assms
    by (auto simp: resolve_endpoint_with_policy_def Let_def list_all_iff list_ex_iff
        split: option.splits if_splits)
qed

text \<open>The textual guard reads the host up to the first slash or colon, so a query or user information can
  hide a loopback address from it; the resolution above refuses both.\<close>

lemma ssrf_guard_query: "is_ssrf_safe to_ascii_lowercase False ''http://127.0.0.1?x''"
  by (simp add: is_ssrf_safe_def url_host_def strip_prefix_def starts_with_def ascii_defs parse_ip_samples
      BLOCKED_SUFFIXES_def ends_with_def Let_def)

lemma ssrf_guard_userinfo: "is_ssrf_safe to_ascii_lowercase False ''http://a.b:1@127.0.0.1''"
  by (simp add: is_ssrf_safe_def url_host_def strip_prefix_def starts_with_def ascii_defs ip_parsing
      BLOCKED_SUFFIXES_def ends_with_def)

end
