(* ===== verification/Http_Task.thy ===== *)
theory Http_Task
  imports Endpoint Json
begin

text \<open>
  The HTTP binding of \<^verbatim>\<open>POST /v1/task\<close>: the resource limits of \<^verbatim>\<open>src/http_resource.rs\<close> on both sides, and
  the client's request loop and response reader of \<^verbatim>\<open>src/http.rs\<close>.

  A header is a lower-case name with its value, \<open>None\<close> for a value that is not text.  A response body
  arrives in chunks, each of which the transport may fail to deliver.  Serialisation (\<^verbatim>\<open>serde_json\<close>),
  URL joining and the network are parameters.
\<close>

subsection \<open>Resource limits\<close>

definition MAX_HTTP_TASK_BODY_BYTES :: nat where
  "MAX_HTTP_TASK_BODY_BYTES = 1048576"

record resource_error =
  he_status :: nat
  he_code :: string
  he_message :: string

type_synonym headers = "(string \<times> string option) list"

definition resource_error :: "nat \<Rightarrow> string \<Rightarrow> string \<Rightarrow> resource_error" where
  "resource_error status code message = \<lparr>he_status = status, he_code = code, he_message = message\<rparr>"

definition header_values :: "headers \<Rightarrow> string \<Rightarrow> string option list" where
  "header_values hs name = map snd (filter (\<lambda>(n, _). n = name) hs)"

fun split_values :: "string option list \<Rightarrow> resource_error + string list" where
  "split_values [] = Inr []"
| "split_values (None # vs) = Inl (resource_error 400 ''invalid_http_body'' ''invalid HTTP header'')"
| "split_values (Some v # vs) =
    (case split_values vs of Inl e \<Rightarrow> Inl e | Inr ps \<Rightarrow> Inr (map trim (split_on CHR '','' v) @ ps))"

definition split_header_values :: "headers \<Rightarrow> string \<Rightarrow> resource_error + string list" where
  "split_header_values hs name = split_values (header_values hs name)"

definition validate_identity_encoding :: "headers \<Rightarrow> resource_error + unit" where
  "validate_identity_encoding hs =
    (case split_header_values hs ''content-encoding'' of
       Inl e \<Rightarrow> Inl e
     | Inr encodings \<Rightarrow>
         if list_ex (\<lambda>v. \<not> eq_ignore_ascii_case v ''identity'') encodings
         then Inl (resource_error 415 ''unsupported_content_encoding''
           ''supported HTTP task binding accepts identity encoding only'')
         else Inr ())"

definition invalid_content_length :: "string \<Rightarrow> resource_error" where
  "invalid_content_length message = resource_error 400 ''invalid_http_body'' message"

definition parse_content_length_value :: "string \<Rightarrow> resource_error + nat" where
  "parse_content_length_value v =
    (if v = [] \<or> \<not> list_all is_ascii_digit v then Inl (invalid_content_length ''invalid Content-Length'')
     else case parse_u64_digits v of
       None \<Rightarrow> Inl (invalid_content_length ''invalid Content-Length'')
     | Some n \<Rightarrow> Inr n)"

fun parse_lengths :: "string list \<Rightarrow> resource_error + nat list" where
  "parse_lengths [] = Inr []"
| "parse_lengths (v # vs) =
    (case parse_content_length_value v of Inl e \<Rightarrow> Inl e | Inr n \<Rightarrow>
      (case parse_lengths vs of Inl e \<Rightarrow> Inl e | Inr ns \<Rightarrow> Inr (n # ns)))"

fun require_matching_content_lengths :: "nat list \<Rightarrow> resource_error + unit" where
  "require_matching_content_lengths (a # b # ns) =
    (if a \<noteq> b then Inl (resource_error 400 ''invalid_http_body'' ''conflicting Content-Length'')
     else require_matching_content_lengths (b # ns))"
| "require_matching_content_lengths _ = Inr ()"

definition content_length :: "headers \<Rightarrow> resource_error + nat option" where
  "content_length hs =
    (case split_header_values hs ''content-length'' of
       Inl e \<Rightarrow> Inl e
     | Inr [] \<Rightarrow> Inr None
     | Inr vs \<Rightarrow>
         (case parse_lengths vs of Inl e \<Rightarrow> Inl e | Inr ns \<Rightarrow>
           (case require_matching_content_lengths ns of Inl e \<Rightarrow> Inl e | Inr _ \<Rightarrow>
             Inr (case ns of n # _ \<Rightarrow> Some n | [] \<Rightarrow> None))))"

definition too_large :: "nat \<Rightarrow> string \<Rightarrow> string \<Rightarrow> resource_error" where
  "too_large status code what =
     resource_error status code (''encoded task '' @ what @ '' exceeds '' @ show_nat MAX_HTTP_TASK_BODY_BYTES @ '' bytes'')"

definition validate_request_headers :: "headers \<Rightarrow> resource_error + unit" where
  "validate_request_headers hs =
    (case validate_identity_encoding hs of Inl e \<Rightarrow> Inl e | Inr _ \<Rightarrow>
    (case content_length hs of Inl e \<Rightarrow> Inl e | Inr length_opt \<Rightarrow>
      if header_values hs ''transfer-encoding'' \<noteq> [] \<and> length_opt \<noteq> None
      then Inl (resource_error 400 ''invalid_http_body'' ''Content-Length and Transfer-Encoding cannot be combined'')
      else if (case length_opt of Some n \<Rightarrow> n > MAX_HTTP_TASK_BODY_BYTES | None \<Rightarrow> False)
      then Inl (too_large 413 ''request_too_large'' ''request'')
      else Inr ()))"

definition validate_response_headers :: "headers \<Rightarrow> resource_error + unit" where
  "validate_response_headers hs =
    (case validate_identity_encoding hs of Inl e \<Rightarrow> Inl e | Inr _ \<Rightarrow>
    (case content_length hs of Inl e \<Rightarrow> Inl e | Inr length_opt \<Rightarrow>
      if (case length_opt of Some n \<Rightarrow> n > MAX_HTTP_TASK_BODY_BYTES | None \<Rightarrow> False)
      then Inl (too_large 500 ''response_too_large'' ''response'')
      else Inr ()))"

text \<open>\<open>to_vec\<close> is \<^verbatim>\<open>serde_json::to_vec\<close>.\<close>

definition encode_request :: "('b \<Rightarrow> string option) \<Rightarrow> 'b \<Rightarrow> resource_error + string" where
  "encode_request to_vec v =
    (case to_vec v of
       None \<Rightarrow> Inl (resource_error 400 ''invalid_http_body'' ''task request is not valid JSON'')
     | Some b \<Rightarrow>
         if length b > MAX_HTTP_TASK_BODY_BYTES then Inl (too_large 413 ''request_too_large'' ''request'') else Inr b)"

text \<open>\<open>to_bytes\<close> is \<^verbatim>\<open>axum::body::to_bytes\<close>, which fails on a body longer than the limit it is given.\<close>

definition read_request_body :: "(nat \<Rightarrow> 'body \<Rightarrow> string option) \<Rightarrow> headers \<Rightarrow> 'body \<Rightarrow> resource_error + string" where
  "read_request_body to_bytes hs body =
    (case validate_request_headers hs of Inl e \<Rightarrow> Inl e | Inr _ \<Rightarrow>
      (case to_bytes MAX_HTTP_TASK_BODY_BYTES body of
         Some bytes \<Rightarrow> Inr bytes
       | None \<Rightarrow> Inl (too_large 413 ''request_too_large'' ''request'')))"

subsection \<open>Reading a response\<close>

record http_reply =
  hr_status :: nat
  hr_location :: "string option"
  hr_headers :: headers
  hr_chunks :: "(iicp_error + string) list"

definition protocol_error :: "resource_error \<Rightarrow> iicp_error" where
  "protocol_error e = ProtocolError (he_code e) (he_message e) (he_status e)"

fun read_chunks :: "string \<Rightarrow> (iicp_error + string) list \<Rightarrow> iicp_error + string" where
  "read_chunks encoded [] = Inr encoded"
| "read_chunks encoded (Inl e # cs) = Inl e"
| "read_chunks encoded (Inr c # cs) =
    (if length encoded + length c > MAX_HTTP_TASK_BODY_BYTES
     then Inl (protocol_error (too_large 500 ''response_too_large'' ''response''))
     else read_chunks (encoded @ c) cs)"

definition error_member :: "json \<Rightarrow> string \<Rightarrow> string \<Rightarrow> string" where
  "error_member body key otherwise = unwrap_or (as_str (json_index (json_index body ''error'') key)) otherwise"

definition decode_task_response :: "(string \<Rightarrow> json option) \<Rightarrow> http_reply \<Rightarrow> iicp_error + json" where
  "decode_task_response from_slice reply =
    (let status = hr_status reply in
     case validate_response_headers (hr_headers reply) of
       Inl e \<Rightarrow> Inl (protocol_error e)
     | Inr _ \<Rightarrow>
       (case read_chunks [] (hr_chunks reply) of
          Inl e \<Rightarrow> Inl e
        | Inr encoded \<Rightarrow>
          (case from_slice encoded of
             None \<Rightarrow> Inl (ProtocolError ''invalid_http_body'' ''provider returned invalid JSON''
                            (if status \<ge> 400 then status else 500))
           | Some body \<Rightarrow>
               if status \<ge> 400
               then Inl (ProtocolError (error_member body ''code'' ''unknown'') (error_member body ''message'' '''') status)
               else Inr body)))"

subsection \<open>The request loop\<close>

record network =
  nw_parse_url :: "string \<Rightarrow> url option"
  nw_lookup :: "nat \<Rightarrow> string \<Rightarrow> nat \<Rightarrow> socket list option"
  nw_join :: "url \<Rightarrow> string \<Rightarrow> url option"
  nw_send :: "nat \<Rightarrow> url \<Rightarrow> socket \<Rightarrow> string \<Rightarrow> iicp_error + http_reply"

text \<open>One hop: resolve, pin the first address, send, look at the status.  The result is what was contacted,
  and the address to try next or the final outcome.  The hop number tells apart successive answers of
  the resolver and of the network.\<close>

definition post_hop ::
    "network \<Rightarrow> bool \<Rightarrow> string \<Rightarrow> nat \<Rightarrow> string \<Rightarrow> (url \<times> socket) list \<times> (string + (iicp_error + http_reply))" where
  "post_hop nw allow_private encoded redirects current =
    (case resolve_endpoint_with_policy (nw_parse_url nw) (nw_lookup nw redirects) allow_private current of
       Inl e \<Rightarrow> ([], Inr (Inl e))
     | Inr re \<Rightarrow>
       (case re_addresses re of
          [] \<Rightarrow> ([], Inr (Inl (EndpointRefused ''provider hostname returned no addresses'')))
        | selected # _ \<Rightarrow>
          ([(re_url re, selected)],
           (case nw_send nw redirects (re_url re) selected encoded of
              Inl e \<Rightarrow> Inr (Inl e)
            | Inr candidate \<Rightarrow>
              if hr_status candidate \<in> set [307, 308] then
                (if redirects \<ge> 3 then Inr (Inl (EndpointRefused ''provider redirect limit exceeded''))
                 else case hr_location candidate of
                   None \<Rightarrow> Inr (Inl (EndpointRefused ''provider redirect omitted Location''))
                 | Some location \<Rightarrow>
                   (case nw_join nw (re_url re) location of
                      None \<Rightarrow> Inr (Inl (EndpointRefused ''provider redirect Location is invalid''))
                    | Some next_url \<Rightarrow>
                        if u_origin next_url \<noteq> u_origin (re_url re)
                        then Inr (Inl (EndpointRefused ''cross-origin provider redirect is not allowed''))
                        else Inl (u_text next_url)))
              else if 300 \<le> hr_status candidate \<and> hr_status candidate < 400
              then Inr (Inl (EndpointRefused ''provider redirect method is not allowed''))
              else Inr (Inr candidate)))))"

lemma post_hop_redirects: "post_hop nw ap encoded redirects current = (c, Inl next_text) \<Longrightarrow> redirects < 3"
  by (auto simp: post_hop_def split: sum.splits list.splits if_splits option.splits)

function post_hops ::
    "network \<Rightarrow> bool \<Rightarrow> string \<Rightarrow> nat \<Rightarrow> string \<Rightarrow> (url \<times> socket) list \<times> (iicp_error + http_reply)" where
  "post_hops nw allow_private encoded redirects current =
    (case post_hop nw allow_private encoded redirects current of
       (contacted, Inr result) \<Rightarrow> (contacted, result)
     | (contacted, Inl next_text) \<Rightarrow>
         (let (more, result) = post_hops nw allow_private encoded (redirects + 1) next_text
          in (contacted @ more, result)))"
  by pat_completeness auto

termination
  by (relation "measure (\<lambda>(nw, ap, encoded, redirects, current). 4 - redirects)")
    (simp, force dest: post_hop_redirects [OF sym])

declare post_hops.simps [simp del]

text \<open>\<open>from_value\<close> is \<^verbatim>\<open>serde_json::from_value\<close> at the response type.\<close>

definition post_json_ct ::
    "network \<Rightarrow> ('b \<Rightarrow> string option) \<Rightarrow> (string \<Rightarrow> json option) \<Rightarrow> (json \<Rightarrow> string + 'r) \<Rightarrow> bool \<Rightarrow> string \<Rightarrow> 'b
      \<Rightarrow> (url \<times> socket) list \<times> (iicp_error + 'r)" where
  "post_json_ct nw to_vec from_slice from_value allow_private url body =
    (case encode_request to_vec body of
       Inl e \<Rightarrow> ([], Inl (protocol_error e))
     | Inr encoded \<Rightarrow>
       (case post_hops nw allow_private encoded 0 url of
          (contacted, Inl e) \<Rightarrow> (contacted, Inl e)
        | (contacted, Inr reply) \<Rightarrow>
            (contacted,
             case decode_task_response from_slice reply of
               Inl e \<Rightarrow> Inl e
             | Inr v \<Rightarrow> (case from_value v of Inl e \<Rightarrow> Inl (SerdeError e) | Inr r \<Rightarrow> Inr r))))"

subsection \<open>Where requests go\<close>

lemma post_hop_contacted:
  assumes "post_hop nw ap encoded redirects current = (contacted, outcome)"
  shows "length contacted \<le> 1 \<and>
    list_all (\<lambda>(u, ip, _). address_allowed ap ip \<and> nw_parse_url nw current = Some u \<and> u_username u = [] \<and>
      u_scheme u \<in> {''http'', ''https''}) contacted"
proof (cases "resolve_endpoint_with_policy (nw_parse_url nw) (nw_lookup nw redirects) ap current")
  case (Inl e)
  with assms show ?thesis by (simp add: post_hop_def)
next
  case (Inr re)
  note ok = resolve_endpoint_ok [OF Inr]
  then obtain s ss where a: "re_addresses re = s # ss" by (cases "re_addresses re") simp_all
  with assms Inr have "contacted = [(re_url re, s)]" by (simp add: post_hop_def)
  with ok a show ?thesis by (auto split: prod.split)
qed

lemma post_hop_next:
  assumes "post_hop nw ap encoded redirects current = (contacted, Inl next_text)"
  shows "\<exists>u s v. contacted = [(u, s)] \<and> u_text v = next_text \<and> u_origin v = u_origin u \<and> (\<exists>loc. nw_join nw u loc = Some v)"
  using assms by (auto simp: post_hop_def split: sum.splits list.splits if_splits option.splits)

lemma post_hops_cases:
  obtains (stop) contacted result where "post_hop nw ap encoded r current = (contacted, Inr result)"
      "post_hops nw ap encoded r current = (contacted, result)"
  | (more) contacted next_text others result where "post_hop nw ap encoded r current = (contacted, Inl next_text)"
      "post_hops nw ap encoded (r + 1) next_text = (others, result)"
      "post_hops nw ap encoded r current = (contacted @ others, result)"
proof (cases "post_hop nw ap encoded r current")
  case (Pair contacted outcome)
  show thesis
  proof (cases outcome)
    case (Inr result)
    with Pair stop show thesis by (subst (asm) post_hops.simps) simp
  next
    case (Inl next_text)
    obtain others result where "post_hops nw ap encoded (r + 1) next_text = (others, result)" by fastforce
    with Pair Inl more show thesis by (subst (asm) (2) post_hops.simps) simp
  qed
qed

lemma post_hops_count: "length (fst (post_hops nw ap encoded r current)) \<le> (if r \<le> 3 then 4 - r else 1)"
proof (induction "4 - r" arbitrary: r current rule: less_induct)
  case less
  show ?case
  proof (cases rule: post_hops_cases [of nw ap encoded r current])
    case (stop contacted result)
    with post_hop_contacted [OF stop(1)] show ?thesis by auto
  next
    case (more contacted next_text others result)
    have r: "4 - (r + 1) < 4 - r" "r < 3" using post_hop_redirects [OF more(1)] by linarith+
    have "length others \<le> 4 - (r + 1)" "length contacted \<le> 1"
      using less [OF r(1), of next_text] more r(2) post_hop_contacted [OF more(1)] by simp_all
    with more r show ?thesis by simp
  qed
qed

lemma post_hops_allowed:
  "list_all (\<lambda>(u, ip, _). address_allowed ap ip \<and> u_username u = [] \<and> u_scheme u \<in> {''http'', ''https''})
     (fst (post_hops nw ap encoded r current))"
proof (induction "4 - r" arbitrary: r current rule: less_induct)
  case less
  show ?case
  proof (cases rule: post_hops_cases [of nw ap encoded r current])
    case (stop contacted result)
    with post_hop_contacted [OF stop(1)] show ?thesis by (auto simp: list_all_iff)
  next
    case (more contacted next_text others result)
    have r: "4 - (r + 1) < 4 - r" using post_hop_redirects [OF more(1)] by linarith
    have "list_all (\<lambda>(u, ip, _). address_allowed ap ip \<and> u_username u = [] \<and> u_scheme u \<in> {''http'', ''https''}) others"
      using less [OF r, of next_text] more by simp
    with more post_hop_contacted [OF more(1)] show ?thesis by (auto simp: list_all_iff)
  qed
qed

lemma post_hops_origin:
  assumes rt: "\<And>u loc v. nw_join nw u loc = Some v \<Longrightarrow> nw_parse_url nw (u_text v) = Some v"
    and "nw_parse_url nw current = Some u0"
  shows "list_all (\<lambda>(u, _). u_origin u = u_origin u0) (fst (post_hops nw ap encoded r current))"
  using assms(2)
proof (induction "4 - r" arbitrary: r current u0 rule: less_induct)
  case less
  show ?case
  proof (cases rule: post_hops_cases [of nw ap encoded r current])
    case (stop contacted result)
    with post_hop_contacted [OF stop(1)] less(2) show ?thesis by (auto simp: list_all_iff)
  next
    case (more contacted next_text others result)
    have r: "4 - (r + 1) < 4 - r" using post_hop_redirects [OF more(1)] by linarith
    obtain u s v loc where n: "contacted = [(u, s)]" "u_text v = next_text" "u_origin v = u_origin u" "nw_join nw u loc = Some v"
      using post_hop_next [OF more(1)] by blast
    have u: "u = u0" using post_hop_contacted [OF more(1)] n less(2) by (simp split: prod.splits)
    have "nw_parse_url nw next_text = Some v" using rt [OF n(4)] n(2) by simp
    from less(1) [OF r this] more n u show ?thesis by simp
  qed
qed


definition sample_url :: url where
  "sample_url = \<lparr>u_scheme = ''https'', u_username = [], u_password = None, u_host = Some ''93.184.216.34'',
     u_port = Some 443, u_origin = ''o'', u_text = ''x''\<rparr>"

definition sample_network :: network where
  "sample_network = \<lparr>nw_parse_url = \<lambda>_. Some sample_url, nw_lookup = \<lambda>_ _ _. None, nw_join = \<lambda>_ _. Some sample_url,
     nw_send = \<lambda>_ _ _ _. Inr \<lparr>hr_status = 200, hr_location = None, hr_headers = [], hr_chunks = [Inr ''{}'']\<rparr>\<rparr>"


subsection \<open>What is read\<close>

lemma read_chunks_bound:
  "read_chunks encoded cs = Inr bytes \<Longrightarrow> length encoded \<le> MAX_HTTP_TASK_BODY_BYTES \<Longrightarrow>
    length bytes \<le> MAX_HTTP_TASK_BODY_BYTES \<and> bytes = encoded @ concat (map projr cs)"
  by (induction encoded cs rule: read_chunks.induct) (auto split: if_splits)

lemma matching_lengths:
  "require_matching_content_lengths ns = Inr () \<Longrightarrow> ns = [] \<or> (\<exists>n. set ns = {n} \<and> hd ns = n)"
  by (induction ns rule: require_matching_content_lengths.induct) (auto split: if_splits)

lemma parse_lengths_all: "parse_lengths vs = Inr ns \<Longrightarrow> map (\<lambda>v. Inr v) ns = map parse_content_length_value vs"
  by (induction vs arbitrary: ns) (auto split: sum.splits)

text \<open>A request whose headers pass has one unambiguous, bounded length: all \<^verbatim>\<open>Content-Length\<close> values, over
  repeated headers and comma-separated lists, denote the same number, it is at most 1 MiB, and it does
  not come with a \<^verbatim>\<open>Transfer-Encoding\<close>.\<close>

theorem request_length_unambiguous:
  assumes "validate_request_headers hs = Inr ()" and "split_header_values hs ''content-length'' = Inr vs" and "vs \<noteq> []"
  shows "(\<exists>n. set (map parse_content_length_value vs) = {Inr n} \<and> n \<le> MAX_HTTP_TASK_BODY_BYTES) \<and>
    header_values hs ''transfer-encoding'' = []"
proof -
  obtain lo where lo: "content_length hs = Inr lo"
    using assms(1) by (auto simp: validate_request_headers_def split: sum.splits)
  obtain ns where ns: "parse_lengths vs = Inr ns" and m: "require_matching_content_lengths ns = Inr ()"
    and l: "lo = (case ns of n # _ \<Rightarrow> Some n | [] \<Rightarrow> None)"
    using lo assms(2,3) by (cases vs) (auto simp: content_length_def split: sum.splits)
  have "length ns = length vs" using arg_cong [OF parse_lengths_all [OF ns], of length] by simp
  then obtain n where n: "set ns = {n}" "hd ns = n" using matching_lengths [OF m] assms(3) by auto
  then have "lo = Some n" using l by (cases ns) auto
  moreover have "set (map parse_content_length_value vs) = {Inr n}"
    using arg_cong [OF parse_lengths_all [OF ns], of set] n by simp
  ultimately show ?thesis
    using assms(1) lo by (auto simp: validate_request_headers_def split: sum.splits if_splits)
qed

theorem request_length_unambiguous_witness:
  "let hs = [(''content-length'', Some ''42''), (''content-length'', Some ''42'')]
   in set (map parse_content_length_value [''42'', ''42'']) = {Inr 42} \<and> header_values hs ''transfer-encoding'' = []"
proof -
  let ?hs = "[(''content-length'', Some ''42''), (''content-length'', Some ''42'')]"
  have t: "trim ''42'' = ''42''"
    by (simp add: trim_def trim_start_def trim_end_def strip_tokens_id whitespace_def starts_with_def)
  have v: "split_header_values ?hs ''content-length'' = Inr [''42'', ''42'']"
    by (simp add: split_header_values_def header_values_def t)
  have p: "parse_content_length_value ''42'' = Inr 42"
    by (simp add: parse_content_length_value_def parse_u64_digits_def ascii_defs dec_value_def)
  have "validate_request_headers ?hs = Inr ()"
    by (simp add: validate_request_headers_def validate_identity_encoding_def split_header_values_def header_values_def
        content_length_def t p MAX_HTTP_TASK_BODY_BYTES_def)
  from request_length_unambiguous [OF this v] p show ?thesis by (simp add: Let_def)
qed

end
