(* ===== verification/Intent_Policy.thy ===== *)
theory Intent_Policy
  imports Endpoint
begin

text \<open>
  \<^verbatim>\<open>src/policy.rs\<close>: the refusal of restricted intents before discovery, and \<^verbatim>\<open>validate_intent\<close> of
  \<^verbatim>\<open>src/client.rs\<close>, which every discovery and submission passes first.  The pattern
  \<^verbatim>\<open>^urn:iicp:intent:[a-z0-9_:/-]+$\<close> is the function \<open>intent_matches\<close>.
\<close>

subsection \<open>The rules\<close>

datatype intent_risk = Prohibited | HighRisk | TransparencyRisk | MinimalOrGeneral

record intent_rule =
  rule_id :: string
  rule_label :: string
  fragments :: "string list"

definition POLICY_REFUSAL_CODE :: string where
  "POLICY_REFUSAL_CODE = ''IICP-POLICY-001''"

definition PROHIBITED_INTENT_RULES :: "intent_rule list" where
  "PROHIBITED_INTENT_RULES = [
    \<lparr>rule_id = ''eu-ai-act-social-scoring'', rule_label = ''social scoring'',
      fragments = [''social-scoring'', ''social_scoring'', ''social:scoring'']\<rparr>,
    \<lparr>rule_id = ''eu-ai-act-criminal-risk'', rule_label = ''individual criminal risk prediction'',
      fragments = [''criminal-risk'', ''criminal_risk'', ''criminal:risk'', ''predict-crime'']\<rparr>,
    \<lparr>rule_id = ''eu-ai-act-workplace-education-emotion'', rule_label = ''workplace or education emotion recognition'',
      fragments = [''emotion:workplace'', ''emotion:education'', ''workplace-monitoring'',
        ''education-monitoring'', ''worker-monitoring'']\<rparr>,
    \<lparr>rule_id = ''eu-ai-act-protected-trait-biometric'', rule_label = ''biometric protected-trait classification'',
      fragments = [''protected-trait'', ''protected_trait'', ''biometric:protected'']\<rparr>,
    \<lparr>rule_id = ''eu-ai-act-untargeted-face-scraping'', rule_label = ''untargeted facial image scraping for recognition databases'',
      fragments = [''untargeted-scraping'', ''untargeted_scraping'', ''face-scraping'',
        ''facial-scraping'']\<rparr>,
    \<lparr>rule_id = ''eu-ai-act-realtime-remote-biometric-id'', rule_label = ''real-time remote biometric identification'',
      fragments = [''remote-biometric:realtime'', ''realtime-remote-biometric'',
        ''real-time-remote-biometric'']\<rparr>,
    \<lparr>rule_id = ''eu-ai-act-nonconsensual-sexual-deepfake'', rule_label = ''non-consensual sexual deepfake or CSAM generation'',
      fragments = [''nonconsensual-sexual'', ''non-consensual-sexual'', ''child-sexual-abuse'',
        ''csam'']\<rparr>]"

definition HIGH_RISK_INTENT_RULES :: "intent_rule list" where
  "HIGH_RISK_INTENT_RULES = [
    \<lparr>rule_id = ''eu-ai-act-employment-workforce'', rule_label = ''employment or workforce decision'',
      fragments = [''employment:hiring'', ''employment:screen'', ''employment:rank'',
        ''recruitment:decision'', ''workforce:decision'', ''worker-management'',
        ''worker:performance'', ''worker:discipline'']\<rparr>,
    \<lparr>rule_id = ''eu-ai-act-education-admission-grading'', rule_label = ''education admission or grading decision'',
      fragments = [''education:admission'', ''education:grading'', ''education:grade'',
        ''student:admission'', ''student:assess'', ''exam-grading'']\<rparr>,
    \<lparr>rule_id = ''eu-ai-act-credit-essential-services'', rule_label = ''credit or essential-services decision'',
      fragments = [''credit-scoring'', ''credit:score'', ''credit:decision'', ''essential-services'',
        ''benefits:eligibility'', ''public-benefit:eligibility'']\<rparr>,
    \<lparr>rule_id = ''eu-ai-act-law-enforcement-border-justice'', rule_label = ''law enforcement, border, justice or democratic-process decision'',
      fragments = [''law-enforcement'', ''law_enforcement'', ''migration:decision'',
        ''asylum:decision'', ''border-control'', ''justice:decision'',
        ''democratic-process'', ''election:decision'']\<rparr>,
    \<lparr>rule_id = ''eu-ai-act-healthcare-critical-infrastructure'', rule_label = ''healthcare or critical-infrastructure safety decision'',
      fragments = [''healthcare:decision'', ''medical:diagnosis'', ''medical:triage'',
        ''clinical:decision'', ''critical-infrastructure'', ''grid:stabilize'',
        ''hospital:surge-capacity'']\<rparr>,
    \<lparr>rule_id = ''eu-ai-act-physical-world-control'', rule_label = ''physical-world control'',
      fragments = [''robotics:control'', ''robotics:fleet'', ''drone:control'', ''drone:search'',
        ''iot:actuate'', ''physical-world'', ''system_control'']\<rparr>]"

definition TRANSPARENCY_FRAGMENTS :: "string list" where
  "TRANSPARENCY_FRAGMENTS = [''chatbot'', ''ai-assistant'', ''synthetic-media'', ''deepfake:labelled'', ''content:generate-public'', ''creative:generate'']"

subsection \<open>Classification\<close>

definition contains_fragment :: "string \<Rightarrow> string \<Rightarrow> bool" where
  "contains_fragment s f \<longleftrightarrow> list_ex (\<lambda>i. starts_with (drop i s) f) [0..<Suc (length s)]"

definition normalize_intent :: "string \<Rightarrow> string" where
  "normalize_intent intent = to_ascii_lowercase (trim intent)"

definition rule_applies :: "string \<Rightarrow> intent_rule \<Rightarrow> bool" where
  "rule_applies normalized r \<longleftrightarrow> list_ex (\<lambda>f. contains_fragment normalized f) (fragments r)"

definition classify_intent :: "string \<Rightarrow> intent_risk" where
  "classify_intent intent =
    (let normalized = normalize_intent intent in
     if list_ex (rule_applies normalized) PROHIBITED_INTENT_RULES then Prohibited
     else if list_ex (rule_applies normalized) HIGH_RISK_INTENT_RULES then HighRisk
     else if list_ex (\<lambda>f. contains_fragment normalized f) TRANSPARENCY_FRAGMENTS then TransparencyRisk
     else MinimalOrGeneral)"

definition rule_reason :: "intent_rule \<Rightarrow> string" where
  "rule_reason r = rule_label r @ '' ('' @ rule_id r @ '')''"

definition prohibited_intent_reason :: "string \<Rightarrow> string option" where
  "prohibited_intent_reason intent =
     map_option rule_reason (List.find (rule_applies (normalize_intent intent)) PROHIBITED_INTENT_RULES)"

fun risk_name :: "intent_risk \<Rightarrow> string" where
  "risk_name Prohibited = ''Prohibited''"
| "risk_name HighRisk = ''HighRisk''"
| "risk_name TransparencyRisk = ''TransparencyRisk''"
| "risk_name MinimalOrGeneral = ''MinimalOrGeneral''"

definition ensure_intent_allowed :: "string \<Rightarrow> iicp_error + unit" where
  "ensure_intent_allowed intent =
    (let category = classify_intent intent;
         normalized = normalize_intent intent;
         rule = List.find (rule_applies normalized) (PROHIBITED_INTENT_RULES @ HIGH_RISK_INTENT_RULES)
     in if category \<in> set [Prohibited, HighRisk]
        then let reason = (case rule of Some r \<Rightarrow> rule_reason r | None \<Rightarrow> ''restricted intent'')
             in Inl (PolicyRefused POLICY_REFUSAL_CODE
                  (''Intent refused by IICP client policy before discovery/routing: '' @ reason @ '' ['' @
                   risk_name category @ '']. Use an explicit private, documented, human-reviewed compliance path '' @
                   ''outside the public mesh for restricted/high-risk workflows.''))
        else Inr ())"

definition intent_matches :: "string \<Rightarrow> bool" where
  "intent_matches intent \<longleftrightarrow>
    (case strip_prefix ''urn:iicp:intent:'' intent of
       None \<Rightarrow> False
     | Some rest \<Rightarrow> rest \<noteq> [] \<and> list_all (\<lambda>c. is_ascii_lower c \<or> is_ascii_digit c \<or> c \<in> set ''_:/-'') rest)"

definition validate_intent :: "string \<Rightarrow> iicp_error + unit" where
  "validate_intent intent =
    (if \<not> intent_matches intent then Inl (InvalidIntent intent) else ensure_intent_allowed intent)"

subsection \<open>What passes\<close>

lemma contains_fragment_iff: "contains_fragment s f \<longleftrightarrow> (\<exists>a b. s = a @ f @ b)"
proof
  assume "contains_fragment s f"
  then obtain i where "starts_with (drop i s) f" unfolding contains_fragment_def list_ex_iff by blast
  then show "\<exists>a b. s = a @ f @ b" by (metis append_take_drop_id starts_with_iff)
next
  assume "\<exists>a b. s = a @ f @ b"
  then obtain a b where "s = a @ f @ b" by blast
  then have "starts_with (drop (length a) s) f \<and> length a < Suc (length s)" by (simp add: starts_with_def)
  then show "contains_fragment s f" unfolding contains_fragment_def list_ex_iff
    by (intro bexI [of _ "length a"]) (simp_all del: upt_Suc)
qed

definition restricted_fragments :: "string list" where
  "restricted_fragments = concat (map fragments (PROHIBITED_INTENT_RULES @ HIGH_RISK_INTENT_RULES))"

lemma rules_apply: "list_ex (rule_applies s) rs \<longleftrightarrow> list_ex (contains_fragment s) (concat (map fragments rs))"
  by (induction rs) (auto simp: rule_applies_def)

lemma ensure_intent_allowed_cases:
  "if list_ex (contains_fragment (normalize_intent intent)) restricted_fragments
   then \<exists>r m. r \<in> set (PROHIBITED_INTENT_RULES @ HIGH_RISK_INTENT_RULES) \<and> rule_applies (normalize_intent intent) r \<and>
     ensure_intent_allowed intent = Inl (PolicyRefused POLICY_REFUSAL_CODE m) \<and> contains_fragment m (rule_reason r)
   else ensure_intent_allowed intent = Inr ()"
proof -
  let ?n = "normalize_intent intent" and ?rs = "PROHIBITED_INTENT_RULES @ HIGH_RISK_INTENT_RULES"
  have c: "classify_intent intent \<in> set [Prohibited, HighRisk] \<longleftrightarrow> list_ex (rule_applies ?n) ?rs"
    by (simp add: classify_intent_def Let_def)
  show ?thesis
  proof (cases "list_ex (rule_applies ?n) ?rs")
    case True
    then obtain r where r: "List.find (rule_applies ?n) ?rs = Some r" by (auto simp: find_ex)
    then have "r \<in> set ?rs \<and> rule_applies ?n r" by (rule find_mem)
    moreover have "\<exists>m. ensure_intent_allowed intent = Inl (PolicyRefused POLICY_REFUSAL_CODE m) \<and>
        (\<exists>a b. m = a @ rule_reason r @ b)"
      using c True r unfolding ensure_intent_allowed_def Let_def by (simp only: if_True option.case) blast
    ultimately show ?thesis
      using True unfolding restricted_fragments_def rules_apply [symmetric] by (auto simp: contains_fragment_iff)
  next
    case False
    with c show ?thesis unfolding restricted_fragments_def rules_apply [symmetric]
      by (simp add: ensure_intent_allowed_def Let_def)
  qed
qed

text \<open>On an intent of the required form normalisation changes nothing.\<close>

lemma intent_chars:
  assumes "intent_matches intent"
  shows "list_all (\<lambda>c. is_ascii_lower c \<or> is_ascii_digit c \<or> c \<in> set ''_:/-'') intent \<and> intent \<noteq> []"
proof -
  obtain rest where "intent = ''urn:iicp:intent:'' @ rest"
      "list_all (\<lambda>c. is_ascii_lower c \<or> is_ascii_digit c \<or> c \<in> set ''_:/-'') rest"
    using assms by (auto simp: intent_matches_def strip_prefix_Some split: option.splits)
  then show ?thesis by (simp add: ascii_defs)
qed

definition no_space_byte :: "char \<Rightarrow> bool" where
  "no_space_byte c \<longleftrightarrow> 33 \<le> (of_char c :: nat) \<and> of_char c \<le> (126 :: nat)"

lemma trim_plain:
  assumes "list_all no_space_byte s"
  shows "trim s = s"
proof -
  have w: "list_all (\<lambda>t. t \<noteq> [] \<and> \<not> no_space_byte (hd t) \<and> \<not> no_space_byte (last t)) whitespace"
    by (simp add: whitespace_def no_space_byte_def)
  have "list_all (\<lambda>t. t = [] \<or> \<not> starts_with s t) whitespace"
    using w assms by (auto simp: list_all_iff starts_with_iff)
  then have s: "trim_start s = s" by (simp add: trim_start_def strip_tokens_id)
  have "list_all (\<lambda>t. t = [] \<or> \<not> starts_with (rev s) t) (map rev whitespace)"
  proof -
    have "\<not> starts_with (rev s) (rev t)" if "t \<in> set whitespace" for t
    proof
      assume "starts_with (rev s) (rev t)"
      then obtain r where "rev s = rev t @ r" by (auto simp: starts_with_iff)
      then have "s = rev r @ t" by (metis rev_append rev_rev_ident)
      with assms w that show False by (auto simp: list_all_iff)
    qed
    then show ?thesis by (auto simp: list_all_iff)
  qed
  then show ?thesis by (simp add: trim_def s trim_end_def strip_tokens_id)
qed

lemma normalize_valid:
  assumes "intent_matches intent"
  shows "normalize_intent intent = intent"
proof -
  have c: "list_all (\<lambda>c. is_ascii_lower c \<or> is_ascii_digit c \<or> c \<in> set ''_:/-'') intent"
    using intent_chars [OF assms] by simp
  have "list_all no_space_byte intent"
    using c by (rule list.pred_mono_strong) (auto simp: no_space_byte_def ascii_defs Let_def)
  moreover have "to_ascii_lowercase intent = intent"
    unfolding to_ascii_lowercase_def using c
    by (induction intent) (auto simp: ascii_lower_char_def ascii_defs Let_def)
  ultimately show ?thesis by (simp add: normalize_intent_def trim_plain)
qed

text \<open>The client acts for an intent exactly when it has the required form and contains none of the
  restricted fragments; a refusal for a fragment always names a rule that applies.\<close>

theorem validate_intent_iff:
  "(validate_intent intent = Inr () \<longleftrightarrow>
     intent_matches intent \<and> \<not> list_ex (contains_fragment intent) restricted_fragments) \<and>
   (case validate_intent intent of
      Inl (PolicyRefused code message) \<Rightarrow> code = POLICY_REFUSAL_CODE \<and>
        list_ex (\<lambda>r. rule_applies intent r \<and> contains_fragment message (rule_reason r)) (PROHIBITED_INTENT_RULES @ HIGH_RISK_INTENT_RULES)
    | Inl e \<Rightarrow> e = InvalidIntent intent | Inr _ \<Rightarrow> True)"
proof (cases "intent_matches intent")
  case False
  then show ?thesis by (simp add: validate_intent_def)
next
  case True
  note n = normalize_valid [OF True]
  show ?thesis
  proof (cases "list_ex (contains_fragment intent) restricted_fragments")
    case rf: True
    then obtain r m where "r \<in> set (PROHIBITED_INTENT_RULES @ HIGH_RISK_INTENT_RULES)" "rule_applies intent r"
      "ensure_intent_allowed intent = Inl (PolicyRefused POLICY_REFUSAL_CODE m)" "contains_fragment m (rule_reason r)"
      using ensure_intent_allowed_cases [of intent] unfolding n by auto
    with True rf show ?thesis by (auto simp: validate_intent_def list_ex_iff)
  next
    case rf: False
    then have "ensure_intent_allowed intent = Inr ()" using ensure_intent_allowed_cases [of intent] unfolding n by simp
    with True rf show ?thesis by (simp add: validate_intent_def)
  qed
qed

end
