(* ===== verification/Routing.thy ===== *)
theory Routing
  imports Endpoint Json "HOL-Library.Char_ord"
begin

text \<open>
  Choosing providers: \<^verbatim>\<open>src/routing_policy.rs\<close> (which discovered nodes a prompt may go to) and
  \<^verbatim>\<open>src/selection.rs\<close> (in which order, with an optional local ranker), over the types of \<^verbatim>\<open>src/types.rs\<close>.

  Scores, loads and weights are floats; here they are rationals, and \<open>fl\<close> stands for the rounding of
  each operation.  Nothing below depends on it.  \<^verbatim>\<open>sha2\<close> and the ranker, code of the embedding program,
  are parameters.
\<close>

subsection \<open>Nodes and policies\<close>

record cx_key =
  cx_algorithm :: string
  cx_encoding :: "string option"
  cx_key :: string
  cx_key_id :: string
  cx_features :: "string list"

text \<open>The fields of \<^verbatim>\<open>Node\<close> that the client reads.\<close>

record node =
  n_node_id :: string
  n_endpoint :: string
  n_score :: rat
  n_load :: rat
  n_available :: bool
  n_region :: string
  n_models :: "string list option"
  n_health_label :: "string option"
  n_cx_public_key :: "cx_key option"
  n_directory_observed_reachable :: "bool option"
  n_node_policy_manifest :: "json option"
  n_dispatch_ticket_id_prefix :: "string option"

datatype routing_profile = Standard | Sensitive | EuRestricted | StrictPolicy | DebugOverride

definition profile_from_cli :: "string \<Rightarrow> routing_profile" where
  "profile_from_cli value =
    (let v = to_ascii_lowercase (map (\<lambda>c. if c = CHR ''-'' then CHR ''_'' else c) value) in
     if v = ''sensitive'' then Sensitive else if v = ''eu_restricted'' then EuRestricted
     else if v = ''strict_policy'' then StrictPolicy else if v = ''debug_override'' then DebugOverride
     else Standard)"

record routing_policy =
  rp_profile :: routing_profile
  rp_allowed_regions :: "string list"
  rp_require_encryption :: "bool option"
  rp_require_policy_manifest :: "bool option"
  rp_require_no_payload_retention :: "bool option"
  rp_allow_remote_executor :: "bool option"
  rp_known_operator_only :: "bool option"
  rp_required_manifest_identity_level :: "string option"

record effective_policy =
  ep_profile :: routing_profile
  ep_allowed_regions :: "string list"
  ep_require_encryption :: bool
  ep_require_policy_manifest :: bool
  ep_require_no_payload_retention :: bool
  ep_allow_remote_executor :: bool
  ep_known_operator_only :: bool
  ep_required_manifest_identity_level :: "string option"

definition profile_defaults :: "routing_profile \<Rightarrow> effective_policy" where
  "profile_defaults profile =
    (let base = \<lparr>ep_profile = profile, ep_allowed_regions = [], ep_require_encryption = True,
                 ep_require_policy_manifest = False, ep_require_no_payload_retention = False,
                 ep_allow_remote_executor = True, ep_known_operator_only = False,
                 ep_required_manifest_identity_level = None\<rparr>
     in case profile of
          Standard \<Rightarrow> base
        | Sensitive \<Rightarrow> base\<lparr>ep_allow_remote_executor := False\<rparr>
        | EuRestricted \<Rightarrow> base\<lparr>ep_allowed_regions := [''eu'', ''eea'']\<rparr>
        | StrictPolicy \<Rightarrow> base\<lparr>ep_require_policy_manifest := True, ep_require_no_payload_retention := True\<rparr>
        | DebugOverride \<Rightarrow> base\<lparr>ep_require_encryption := False\<rparr>)"

definition resolved_policy :: "routing_policy option \<Rightarrow> effective_policy" where
  "resolved_policy policy =
    (case policy of
       None \<Rightarrow> profile_defaults Standard
     | Some p \<Rightarrow>
         let e = profile_defaults (rp_profile p)
         in \<lparr>ep_profile = ep_profile e,
             ep_allowed_regions = (if rp_allowed_regions p \<noteq> [] then rp_allowed_regions p else ep_allowed_regions e),
             ep_require_encryption = unwrap_or (rp_require_encryption p) (ep_require_encryption e),
             ep_require_policy_manifest = unwrap_or (rp_require_policy_manifest p) (ep_require_policy_manifest e),
             ep_require_no_payload_retention =
               unwrap_or (rp_require_no_payload_retention p) (ep_require_no_payload_retention e),
             ep_allow_remote_executor = unwrap_or (rp_allow_remote_executor p) (ep_allow_remote_executor e),
             ep_known_operator_only = unwrap_or (rp_known_operator_only p) (ep_known_operator_only e),
             ep_required_manifest_identity_level =
               (if rp_required_manifest_identity_level p \<noteq> None then rp_required_manifest_identity_level p
                else ep_required_manifest_identity_level e)\<rparr>)"

subsection \<open>The filter\<close>

definition manifest_signed_verified :: "node \<Rightarrow> bool" where
  "manifest_signed_verified n =
    (case n_node_policy_manifest n of
       None \<Rightarrow> False
     | Some m \<Rightarrow>
         Option.bind (json_get m ''verification'') (\<lambda>v. get_str v ''status'') = Some ''signed_valid'' \<or>
         get_str m ''evidence'' = Some ''signed_verified'')"

definition manifest_identity_rank :: "string \<Rightarrow> int" where
  "manifest_identity_rank level =
    (if level = ''self_attested'' then 0 else if level = ''signed_valid'' then 1
     else if level = ''operator_bound'' then 2 else if level = ''known_operator'' then 3 else -1)"

definition manifest_identity_rejection_reason :: "node \<Rightarrow> string \<Rightarrow> string option" where
  "manifest_identity_rejection_reason n required_level =
    (let required = (if required_level \<in> set [''signed_valid'', ''operator_bound'', ''known_operator'']
                     then required_level else ''known_operator'')
     in case Option.bind (n_node_policy_manifest n) (\<lambda>m. get_str m ''manifest_identity_level'') of
          None \<Rightarrow> Some ''missing_manifest_identity''
        | Some level \<Rightarrow>
            if level = ''revoked'' \<or> level = ''rotated'' then Some ''policy_manifest_revoked_or_rotated''
            else if manifest_identity_rank level < manifest_identity_rank required
            then Some ''manifest_identity_level_too_low''
            else None)"

definition region_allowed :: "string \<Rightarrow> string list \<Rightarrow> bool" where
  "region_allowed region allowed =
    (let value = to_ascii_lowercase (trim region) in
     list_ex (\<lambda>raw. let item = to_ascii_lowercase (trim raw) in
       item \<noteq> [] \<and> (value = item \<or> starts_with value (item @ ''-'') \<or>
         (item = ''eea'' \<and> starts_with value ''eu-''))) allowed)"

definition declares_no_payload_retention :: "node \<Rightarrow> bool" where
  "declares_no_payload_retention n \<longleftrightarrow>
     Option.bind (Option.bind (n_node_policy_manifest n) (\<lambda>m. json_get m ''retention'')) (\<lambda>r. get_str r ''task_payload'')
       = Some ''none''"

definition required_identity_level :: "effective_policy \<Rightarrow> string option" where
  "required_identity_level p =
    (case ep_required_manifest_identity_level p of
       Some level \<Rightarrow> Some level
     | None \<Rightarrow> if ep_known_operator_only p then Some ''known_operator'' else None)"

definition node_rejection_reason :: "node \<Rightarrow> effective_policy \<Rightarrow> bool \<Rightarrow> string option" where
  "node_rejection_reason n p allow_plaintext_debug =
    (if \<not> ep_allow_remote_executor p then Some ''remote_executor_disabled''
     else if ep_allowed_regions p \<noteq> [] \<and> \<not> region_allowed (n_region n) (ep_allowed_regions p)
     then Some ''region_not_allowed''
     else if ep_require_encryption p \<and> n_cx_public_key n = None \<and> \<not> allow_plaintext_debug
     then Some ''missing_encryption_key''
     else if ep_require_policy_manifest p \<and> n_node_policy_manifest n = None then Some ''missing_policy_manifest''
     else if ep_profile p = StrictPolicy \<and> \<not> manifest_signed_verified n then Some ''policy_manifest_not_signed''
     else if ep_require_no_payload_retention p \<and> \<not> declares_no_payload_retention n
     then Some ''payload_retention_not_none''
     else case required_identity_level p of
       Some level \<Rightarrow> manifest_identity_rejection_reason n level
     | None \<Rightarrow> None)"

record policy_decision =
  pd_eligible :: "node list"
  pd_rejected_reasons :: "string list"
  pd_skipped_keyless :: nat

fun filter_loop :: "effective_policy \<Rightarrow> bool \<Rightarrow> node list \<Rightarrow> policy_decision \<Rightarrow> policy_decision" where
  "filter_loop p debug [] d = d"
| "filter_loop p debug (n # ns) d =
    (case node_rejection_reason n p debug of
       Some reason \<Rightarrow>
         filter_loop p debug ns
           (d\<lparr>pd_rejected_reasons := pd_rejected_reasons d @ [reason],
              pd_skipped_keyless := pd_skipped_keyless d + (if reason = ''missing_encryption_key'' then 1 else 0)\<rparr>)
     | None \<Rightarrow> filter_loop p debug ns (d\<lparr>pd_eligible := pd_eligible d @ [n]\<rparr>))"

definition filter_nodes_for_routing_policy :: "node list \<Rightarrow> effective_policy \<Rightarrow> bool \<Rightarrow> policy_decision" where
  "filter_nodes_for_routing_policy ns p debug =
     filter_loop p debug ns \<lparr>pd_eligible = [], pd_rejected_reasons = [], pd_skipped_keyless = 0\<rparr>"

text \<open>\<^verbatim>\<open>summarize\<close>: the \<^verbatim>\<open>BTreeMap\<close> of counts, printed in key order.\<close>

definition summarize :: "string list \<Rightarrow> string" where
  "summarize reasons =
    (if reasons = [] then ''none''
     else join_with '', '' (map (\<lambda>r. r @ ''='' @ show_nat (count_list reasons r)) (sort (remdups reasons))))"

fun profile_name :: "routing_profile \<Rightarrow> string" where
  "profile_name Standard = ''Standard''"
| "profile_name Sensitive = ''Sensitive''"
| "profile_name EuRestricted = ''EuRestricted''"
| "profile_name StrictPolicy = ''StrictPolicy''"
| "profile_name DebugOverride = ''DebugOverride''"

definition ROUTING_POLICY_REFUSAL_CODE :: string where
  "ROUTING_POLICY_REFUSAL_CODE = ''IICP-POLICY-ROUTING''"

definition QUOTE :: string where
  "QUOTE = [CHR 0x27]"

definition routing_policy_refusal_message :: "string \<Rightarrow> policy_decision \<Rightarrow> effective_policy \<Rightarrow> string" where
  "routing_policy_refusal_message intent d p =
     ''Routing policy '' @ QUOTE @ profile_name (ep_profile p) @ QUOTE @ '' refused all discovered nodes for '' @ QUOTE @
     intent @ QUOTE @ '' before prompt dispatch; no prompt was sent. Reasons: '' @ summarize (pd_rejected_reasons d) @
     ''. Remote nodes can read prompts they execute; use local/browser mode for sensitive data or relax the policy explicitly.''"

subsection \<open>Selection\<close>

definition CANDIDATE_EVIDENCE_SCHEMA_V0 :: string where
  "CANDIDATE_EVIDENCE_SCHEMA_V0 = ''iicp-candidate-evidence-v0''"

record candidate_evidence =
  ce_schema_version :: string
  ce_candidate_ref :: string
  ce_models :: "string list"
  ce_directory_score :: rat
  ce_load :: rat
  ce_health_label :: "string option"
  ce_directory_observed_reachable :: "bool option"

datatype ranker_mode = Normal | Exploration

fun receipt_value :: "ranker_mode \<Rightarrow> string" where
  "receipt_value Normal = ''normal''"
| "receipt_value Exploration = ''exploration''"

record ranker_decision =
  rd_candidate_ref :: string
  rd_policy_id :: string
  rd_mode :: ranker_mode

text \<open>\<open>sha_hex\<close> is the hexadecimal SHA-256 digest.\<close>

definition opaque_ref :: "(string \<Rightarrow> string) \<Rightarrow> string \<Rightarrow> string \<Rightarrow> string" where
  "opaque_ref sha_hex domain value = sha_hex (''iicp:'' @ domain @ '':v0'' @ [CHR 0x0A] @ value)"

definition candidate_evidence_v0 :: "(string \<Rightarrow> string) \<Rightarrow> node \<Rightarrow> candidate_evidence" where
  "candidate_evidence_v0 sha_hex n =
     \<lparr>ce_schema_version = CANDIDATE_EVIDENCE_SCHEMA_V0, ce_candidate_ref = opaque_ref sha_hex ''candidate'' (n_node_id n),
      ce_models = unwrap_or (n_models n) [], ce_directory_score = n_score n, ce_load = n_load n,
      ce_health_label = n_health_label n, ce_directory_observed_reachable = n_directory_observed_reachable n\<rparr>"

definition validate_policy_id :: "string \<Rightarrow> string + unit" where
  "validate_policy_id value =
    (if value = [] \<or> length value > 64 \<or> \<not> list_all (\<lambda>c. is_ascii_alphanumeric c \<or> c \<in> set ''._-'') value
     then Inl (''candidate ranker policy_id must be 1-64 ASCII letters, digits, '' @ QUOTE @ ''.'' @ QUOTE @ '', '' @
               QUOTE @ ''_'' @ QUOTE @ '' or '' @ QUOTE @ ''-'' @ QUOTE)
     else Inr ())"

fun position :: "('a \<Rightarrow> bool) \<Rightarrow> 'a list \<Rightarrow> nat option" where
  "position P [] = None"
| "position P (x # xs) = (if P x then Some 0 else map_option Suc (position P xs))"

type_synonym ranker = "string \<Rightarrow> string \<Rightarrow> candidate_evidence list \<Rightarrow> string + ranker_decision option"

definition apply_candidate_ranker ::
    "(string \<Rightarrow> string) \<Rightarrow> ranker \<Rightarrow> string \<Rightarrow> string \<Rightarrow> node list \<Rightarrow> node list \<Rightarrow> nat
      \<Rightarrow> string + (node list \<times> ranker_decision option)" where
  "apply_candidate_ranker sha_hex rank task_id intent eligible built_in_order limit =
    (let evidence = map (candidate_evidence_v0 sha_hex) eligible;
         request_ref = opaque_ref sha_hex ''request'' task_id
     in case rank request_ref intent evidence of
       Inl e \<Rightarrow> Inl e
     | Inr None \<Rightarrow> Inr (built_in_order, None)
     | Inr (Some d) \<Rightarrow>
       (case validate_policy_id (rd_policy_id d) of
          Inl e \<Rightarrow> Inl e
        | Inr _ \<Rightarrow>
          (case position (\<lambda>c. ce_candidate_ref c = rd_candidate_ref d) evidence of
             None \<Rightarrow> Inl ''candidate ranker selected a reference outside the eligible candidate set''
           | Some i \<Rightarrow>
               let selected = eligible ! i
               in Inr (selected # take (limit - 1) (filter (\<lambda>c. n_node_id c \<noteq> n_node_id selected) built_in_order), Some d))))"

definition ranker_receipt_profile :: "ranker_decision \<Rightarrow> nat \<Rightarrow> string" where
  "ranker_receipt_profile d i =
    ''external_ranker/'' @ rd_policy_id d @ ''/'' @ (if i = 0 then receipt_value (rd_mode d) else ''fallback'')"

definition clamp :: "rat \<Rightarrow> rat \<Rightarrow> rat \<Rightarrow> rat" where
  "clamp x lo hi = (if x < lo then lo else if x > hi then hi else x)"

definition weight_v1 :: "(rat \<Rightarrow> rat) \<Rightarrow> rat \<Rightarrow> rat \<Rightarrow> rat" where
  "weight_v1 fl score load = fl (max score (1 / 100) / fl (1 + clamp load 0 1))"

fun pick_index :: "(rat \<Rightarrow> rat) \<Rightarrow> rat \<Rightarrow> rat list \<Rightarrow> nat option" where
  "pick_index fl remaining [] = None"
| "pick_index fl remaining (w # ws) =
    (let r = fl (remaining - w) in if r \<le> 0 then Some 0 else map_option Suc (pick_index fl r ws))"

definition weighted_v1_index :: "(rat \<Rightarrow> rat) \<Rightarrow> rat list \<Rightarrow> rat list \<Rightarrow> rat \<Rightarrow> nat" where
  "weighted_v1_index fl scores loads random_value =
    (let weights = map2 (weight_v1 fl) scores loads;
         remaining = fl (clamp random_value 0 (999999999 / 1000000000) * foldl (\<lambda>a w. fl (a + w)) 0 weights)
     in unwrap_or (pick_index fl remaining weights) (length weights - 1))"

subsection \<open>What passes the filter\<close>

definition satisfies_policy :: "node \<Rightarrow> effective_policy \<Rightarrow> bool \<Rightarrow> bool" where
  "satisfies_policy n p allow_plaintext \<longleftrightarrow>
     ep_allow_remote_executor p \<and>
     (ep_allowed_regions p = [] \<or> region_allowed (n_region n) (ep_allowed_regions p)) \<and>
     (\<not> ep_require_encryption p \<or> n_cx_public_key n \<noteq> None \<or> allow_plaintext) \<and>
     (\<not> ep_require_policy_manifest p \<or> n_node_policy_manifest n \<noteq> None) \<and>
     (ep_profile p \<noteq> StrictPolicy \<or> manifest_signed_verified n) \<and>
     (\<not> ep_require_no_payload_retention p \<or> declares_no_payload_retention n) \<and>
     (case required_identity_level p of None \<Rightarrow> True
      | Some level \<Rightarrow>
          (case Option.bind (n_node_policy_manifest n) (\<lambda>m. get_str m ''manifest_identity_level'') of
             None \<Rightarrow> False
           | Some l \<Rightarrow> manifest_identity_rank l \<ge>
               manifest_identity_rank (if level \<in> {''signed_valid'', ''operator_bound''} then level else ''known_operator'')))"

lemma identity_rejection_None:
  "manifest_identity_rejection_reason n level = None \<longleftrightarrow>
    (case Option.bind (n_node_policy_manifest n) (\<lambda>m. get_str m ''manifest_identity_level'') of
       None \<Rightarrow> False
     | Some l \<Rightarrow> manifest_identity_rank l \<ge>
         manifest_identity_rank (if level \<in> {''signed_valid'', ''operator_bound''} then level else ''known_operator''))"
  by (auto simp: manifest_identity_rejection_reason_def manifest_identity_rank_def Let_def split: option.split)

lemma node_rejection_None: "node_rejection_reason n p debug = None \<longleftrightarrow> satisfies_policy n p debug"
proof -
  have "(case required_identity_level p of Some level \<Rightarrow> manifest_identity_rejection_reason n level | None \<Rightarrow> None) = None \<longleftrightarrow>
     (case required_identity_level p of None \<Rightarrow> True
      | Some level \<Rightarrow>
          (case Option.bind (n_node_policy_manifest n) (\<lambda>m. get_str m ''manifest_identity_level'') of
             None \<Rightarrow> False
           | Some l \<Rightarrow> manifest_identity_rank l \<ge>
               manifest_identity_rank (if level \<in> {''signed_valid'', ''operator_bound''} then level else ''known_operator'')))"
    by (cases "required_identity_level p") (simp_all only: option.case identity_rejection_None simp_thms)
  then show ?thesis unfolding node_rejection_reason_def satisfies_policy_def by auto
qed

lemma filter_loop_result:
  "filter_loop p debug ns d =
    d\<lparr>pd_eligible := pd_eligible d @ filter (\<lambda>n. satisfies_policy n p debug) ns,
      pd_rejected_reasons := pd_rejected_reasons d @
        map (\<lambda>n. the (node_rejection_reason n p debug)) (filter (\<lambda>n. \<not> satisfies_policy n p debug) ns),
      pd_skipped_keyless := pd_skipped_keyless d +
        length (filter (\<lambda>n. node_rejection_reason n p debug = Some ''missing_encryption_key'') ns)\<rparr>"
proof (induction ns arbitrary: d)
  case (Cons n ns)
  show ?case
  proof (cases "node_rejection_reason n p debug")
    case None
    then have "satisfies_policy n p debug" by (simp add: node_rejection_None)
    with None Cons show ?thesis by simp
  next
    case (Some reason)
    then have "\<not> satisfies_policy n p debug" by (simp flip: node_rejection_None)
    with Some Cons show ?thesis by simp
  qed
qed simp


subsection \<open>What a ranker can do\<close>

lemma position_Some: "position P xs = Some i \<Longrightarrow> i < length xs \<and> P (xs ! i)"
  by (induction xs arbitrary: i) (auto split: if_splits)

lemma pick_index_less: "pick_index fl r ws = Some i \<Longrightarrow> i < length ws"
  by (induction ws arbitrary: r i) (auto simp: Let_def split: if_splits)

lemma weighted_v1_index_less: "scores \<noteq> [] \<Longrightarrow> length loads = length scores \<Longrightarrow> weighted_v1_index fl scores loads rnd < length scores"
  using pick_index_less [of fl _ "map2 (weight_v1 fl) scores loads"]
  by (auto simp: weighted_v1_index_def Let_def unwrap_or_def split: option.split)

lemma ranker_result:
  assumes "apply_candidate_ranker sha_hex rank task intent eligible built_in limit = Inr (cs, d)"
  shows "set cs \<subseteq> set eligible \<union> set built_in \<and>
    (case d of None \<Rightarrow> cs = built_in
     | Some dec \<Rightarrow> cs \<noteq> [] \<and> hd cs \<in> set eligible \<and> opaque_ref sha_hex ''candidate'' (n_node_id (hd cs)) = rd_candidate_ref dec \<and>
         length cs \<le> max limit 1)"
proof -
  let ?ev = "map (candidate_evidence_v0 sha_hex) eligible"
  obtain o' where rk: "rank (opaque_ref sha_hex ''request'' task) intent ?ev = Inr o'"
    using assms by (auto simp: apply_candidate_ranker_def Let_def split: sum.splits)
  show ?thesis
  proof (cases o')
    case None
    with assms rk show ?thesis by (auto simp: apply_candidate_ranker_def)
  next
    case (Some dec)
    with assms rk obtain i where i: "position (\<lambda>c. ce_candidate_ref c = rd_candidate_ref dec) ?ev = Some i"
      and cs: "cs = eligible ! i # take (limit - 1) (filter (\<lambda>c. n_node_id c \<noteq> n_node_id (eligible ! i)) built_in)" "d = Some dec"
      by (auto simp: apply_candidate_ranker_def Let_def split: sum.splits option.splits)
    have "i < length eligible" "opaque_ref sha_hex ''candidate'' (n_node_id (eligible ! i)) = rd_candidate_ref dec"
      using position_Some [OF i] by (auto simp: candidate_evidence_v0_def)
    then show ?thesis using cs by (auto dest: in_set_takeD)
  qed
qed

text \<open>A local ranker can only reorder: when it names a candidate, the result starts with an eligible node
  whose opaque reference is the one named, goes on with nodes of the built-in order other than it, and is
  no longer than the limit; when it declines, the built-in order stands; a name outside the eligible set,
  or a malformed policy identifier, stops the dispatch.\<close>

theorem ranker_only_reorders:
  assumes "apply_candidate_ranker sha_hex rank task intent eligible built_in limit = Inr (cs, d)"
    and "set built_in \<subseteq> set eligible" and "1 \<le> limit" and "length built_in \<le> limit"
  shows "set cs \<subseteq> set eligible \<and> length cs \<le> limit \<and>
    (case d of None \<Rightarrow> cs = built_in
     | Some dec \<Rightarrow> cs \<noteq> [] \<and> opaque_ref sha_hex ''candidate'' (n_node_id (hd cs)) = rd_candidate_ref dec)"
  using ranker_result [OF assms(1)] assms(2-4) by (auto split: option.splits)

definition sample_node :: "string \<Rightarrow> node" where
  "sample_node i = \<lparr>n_node_id = i, n_endpoint = ''https://a.example'', n_score = 1, n_load = 0, n_available = True,
     n_region = ''eu-central'', n_models = None, n_health_label = None,
     n_cx_public_key = Some \<lparr>cx_algorithm = ''X25519'', cx_encoding = None, cx_key = '''', cx_key_id = '''', cx_features = []\<rparr>,
     n_directory_observed_reachable = None, n_node_policy_manifest = None, n_dispatch_ticket_id_prefix = None\<rparr>"

theorem ranker_only_reorders_witness:
  "let e = [sample_node ''a'', sample_node ''b'']; rk = (\<lambda>_ _ evs. Inr (Some \<lparr>rd_candidate_ref = ce_candidate_ref (evs ! 1),
         rd_policy_id = ''p'', rd_mode = Normal\<rparr>));
       r = apply_candidate_ranker (\<lambda>s. s) rk ''t'' ''i'' e e 3
   in r = Inr ([sample_node ''b'', sample_node ''a''], Some \<lparr>rd_candidate_ref = opaque_ref (\<lambda>s. s) ''candidate'' ''b'',
         rd_policy_id = ''p'', rd_mode = Normal\<rparr>) \<and>
      (case r of Inr (cs, d) \<Rightarrow> set cs \<subseteq> set e \<and> length cs \<le> 3 | Inl _ \<Rightarrow> False)"
proof -
  let ?e = "[sample_node ''a'', sample_node ''b'']"
  let ?rk = "\<lambda>_ _ evs. Inr (Some \<lparr>rd_candidate_ref = ce_candidate_ref (evs ! 1), rd_policy_id = ''p'', rd_mode = Normal\<rparr>)"
  have r: "apply_candidate_ranker (\<lambda>s. s) ?rk ''t'' ''i'' ?e ?e 3 =
      Inr ([sample_node ''b'', sample_node ''a''], Some \<lparr>rd_candidate_ref = opaque_ref (\<lambda>s. s) ''candidate'' ''b'',
         rd_policy_id = ''p'', rd_mode = Normal\<rparr>)"
    by (simp add: apply_candidate_ranker_def candidate_evidence_v0_def opaque_ref_def sample_node_def validate_policy_id_def
        ascii_defs Let_def)
  from ranker_only_reorders [OF r] r show ?thesis by (simp add: Let_def)
qed

end
