(* ===== verification/Submit.thy ===== *)
theory Submit
  imports Intent_Policy Routing
begin

text \<open>
  \<^verbatim>\<open>submit_internal\<close> of \<^verbatim>\<open>src/client.rs\<close>: from a task request over the discovered nodes to the provider that
  answers.  The record \<open>world\<close> has what the function gets from elsewhere: the discovery calls, the
  environment variables, the random draws, the optional ranker, the consumer-token exchange, the
  payload encryption and the network.  The result is \<open>None\<close> where the code panics, else the requests
  that were sent, in order, and the outcome.

  Node identifiers are cut to eight bytes for messages and receipts.  Slicing a string inside a
  character panics, so the cut is a partial function.
\<close>

subsection \<open>Requests, responses, surroundings\<close>

record task_request =
  tq_task_id :: string
  tq_intent :: string
  tq_payload :: json
  tq_routing_policy :: "routing_policy option"

record submit_config =
  sc_consumer_auth_mode :: string
  sc_node_token :: "string option"
  sc_routing_epsilon :: rat
  sc_routing_strategy :: string
  sc_routing_top_k :: nat
  sc_routing_softmax_tau :: rat
  sc_routing_policy :: routing_policy
  sc_route_discovery_mode :: string
  sc_profile_requested :: bool
  sc_restricted :: bool

datatype ticket_route_error = LegacyRequired | TicketIicp iicp_error

record routing_receipt =
  rr_selection_profile :: string
  rr_eligible_candidate_count :: nat
  rr_selected_node_id_prefix :: string

record 'c task_response =
  rs_body :: json
  rs_conf :: "'c option"
  rs_generated_by_ai :: bool
  rs_ticket_prefix :: "string option"
  rs_receipt :: "routing_receipt option"

text \<open>What is sent: an encrypted envelope, with the flag that asks for an encrypted response, or plaintext.\<close>

datatype 'c sent = EncryptedBody 'c bool | PlainBody json

record ('c, 'k) world =
  w_uuid :: string
  w_discover :: "iicp_error + node list \<times> bool"
  w_ticketed :: "ticket_route_error + node list"
  w_lower :: "string \<Rightarrow> string"
  w_allow_loopback :: bool
  w_cx_allow_plaintext :: "string option"
  w_fl :: "rat \<Rightarrow> rat"
  w_exp :: "rat \<Rightarrow> rat"
  w_random :: rat
  w_gen_range :: "nat \<Rightarrow> nat"
  w_sha_hex :: "string \<Rightarrow> string"
  w_ranker :: "ranker option"
  w_payload :: "(node \<Rightarrow> nat \<Rightarrow> iicp_error + json) option"
  w_consumer_token :: "node \<Rightarrow> iicp_error + string option"
  w_encrypt :: "node \<Rightarrow> json \<Rightarrow> iicp_error + 'c \<times> 'k"
  w_open :: "'k \<Rightarrow> 'c \<Rightarrow> iicp_error + 'c task_response"
  w_post :: "nat \<Rightarrow> nat \<Rightarrow> node \<Rightarrow> 'c sent \<Rightarrow> string option \<Rightarrow> iicp_error + 'c task_response"

definition MAX_RETRIES :: nat where
  "MAX_RETRIES = 3"

definition cx_plaintext_fallback_allowed :: "string option \<Rightarrow> bool" where
  "cx_plaintext_fallback_allowed var =
    (case var of
       Some v \<Rightarrow> to_ascii_lowercase (trim v) \<in> set [''1'', ''true'', ''yes'', ''on'']
     | None \<Rightarrow> False)"

text \<open>\<^verbatim>\<open>&node_id[..node_id.len().min(8)]\<close>\<close>

definition is_continuation :: "char \<Rightarrow> bool" where
  "is_continuation c \<longleftrightarrow> (let n = of_char c :: nat in 128 \<le> n \<and> n < 192)"

definition node_short_id :: "string \<Rightarrow> string option" where
  "node_short_id node_id =
    (let k = min (length node_id) 8 in
     if k < length node_id \<and> is_continuation (node_id ! k) then None else Some (take k node_id))"

subsection \<open>Candidates\<close>

text \<open>The first filter; a node refused for its endpoint is named in a message.\<close>

fun pre_policy_nodes :: "('c, 'k) world \<Rightarrow> string list option \<Rightarrow> node list \<Rightarrow> node list option" where
  "pre_policy_nodes w allowed [] = Some []"
| "pre_policy_nodes w allowed (n # ns) =
    (if (case allowed of Some ids \<Rightarrow> n_node_id n \<notin> set ids | None \<Rightarrow> False) then pre_policy_nodes w allowed ns
     else if \<not> is_ssrf_safe (w_lower w) (w_allow_loopback w) (n_endpoint n)
     then Option.bind (node_short_id (n_node_id n)) (\<lambda>_. pre_policy_nodes w allowed ns)
     else if \<not> n_available n then pre_policy_nodes w allowed ns
     else map_option (\<lambda>rest. n # rest) (pre_policy_nodes w allowed ns))"

text \<open>The messages about keyless nodes.\<close>

definition keyless_messages_ok :: "bool \<Rightarrow> node list \<Rightarrow> bool" where
  "keyless_messages_ok allow_plaintext ns \<longleftrightarrow>
     list_all (\<lambda>n. n_cx_public_key n = None \<and> \<not> allow_plaintext \<longrightarrow> node_short_id (n_node_id n) \<noteq> None) ns"

definition chosen_first :: "node list \<Rightarrow> node \<Rightarrow> node list" where
  "chosen_first safe chosen =
     chosen # take (MAX_RETRIES - 1) (filter (\<lambda>n. n_node_id n \<noteq> n_node_id chosen) (take MAX_RETRIES safe))"

definition softmax_choice :: "('c, 'k) world \<Rightarrow> rat \<Rightarrow> node list \<Rightarrow> node" where
  "softmax_choice w tau0 pool =
    (let fl = w_fl w;
         max_score = Max (set (map n_score pool));
         tau = max tau0 (1 / 1000);
         weights = map (\<lambda>n. w_exp w (fl (fl (n_score n - max_score) / tau))) pool;
         r = fl (w_random w * foldl (\<lambda>a x. fl (a + x)) 0 weights)
     in pool ! unwrap_or (pick_index fl r weights) 0)"

definition built_in_candidates :: "submit_config \<Rightarrow> ('c, 'k) world \<Rightarrow> node list \<Rightarrow> node list" where
  "built_in_candidates cfg w safe =
    (if sc_routing_strategy cfg = ''deterministic'' \<or> length safe \<le> 1 then take MAX_RETRIES safe
     else if sc_routing_strategy cfg = ''weighted_v1'' then
       (let pool = take (min (max (sc_routing_top_k cfg) 1) (length safe)) safe;
            i = weighted_v1_index (w_fl w) (map n_score pool) (map n_load pool) (w_random w)
        in chosen_first safe (safe ! i))
     else if sc_routing_strategy cfg = ''softmax_top_k'' then
       (let pool = take (min (max (sc_routing_top_k cfg) 1) (length safe)) safe
        in chosen_first safe (softmax_choice w (sc_routing_softmax_tau cfg) pool))
     else if w_random w < sc_routing_epsilon cfg then chosen_first safe (safe ! w_gen_range w (length safe))
     else take MAX_RETRIES safe)"

subsection \<open>Dispatch\<close>

type_synonym 'c posted = "node \<times> 'c sent \<times> string option"

definition response_encryption :: "node \<Rightarrow> bool" where
  "response_encryption n =
    (case n_cx_public_key n of
       Some k \<Rightarrow> ''response_encryption_v1'' \<in> set (cx_features k)
     | None \<Rightarrow> False)"

text \<open>A successful response: opened if it has to be encrypted, and completed with the receipt.\<close>

definition finish_response ::
    "submit_config \<Rightarrow> ('c, 'k) world \<Rightarrow> bool \<Rightarrow> ranker_decision option \<Rightarrow> nat \<Rightarrow> nat \<Rightarrow> node \<Rightarrow> 'k option
      \<Rightarrow> 'c task_response \<Rightarrow> (iicp_error + 'c task_response) option" where
  "finish_response cfg w negotiated rd eligible_count i n secret resp =
    (let opened = (if response_encryption n then
                     (case rs_conf resp of
                        None \<Rightarrow> Inl (NodeError ''node advertised response encryption but returned plaintext'')
                      | Some envelope \<Rightarrow>
                          (case secret of
                             None \<Rightarrow> Inl (NodeError ''missing CX response context'')
                           | Some k \<Rightarrow> w_open w k envelope))
                   else Inr resp)
     in case opened of
          Inl e \<Rightarrow> Some (Inl e)
        | Inr r \<Rightarrow>
            map_option (\<lambda>prefix.
              Inr (r\<lparr>rs_generated_by_ai := True, rs_ticket_prefix := n_dispatch_ticket_id_prefix n,
                     rs_receipt := Some
                       \<lparr>rr_selection_profile =
                          (case rd of Some d \<Rightarrow> ranker_receipt_profile d i
                           | None \<Rightarrow> if negotiated \<or> sc_route_discovery_mode cfg = ''legacy''
                                     then sc_routing_strategy cfg else ''directory_ticket_v1''),
                        rr_eligible_candidate_count = eligible_count, rr_selected_node_id_prefix = prefix\<rparr>\<rparr>))
              (node_short_id (n_node_id n)))"

datatype 'r attempt_end = Return 'r | NextNode iicp_error

text \<open>The attempts at one node; \<open>left\<close> counts those still to make.\<close>

fun attempts ::
    "('c, 'k) world \<Rightarrow> ('c task_response \<Rightarrow> (iicp_error + 'c task_response) option) \<Rightarrow> nat \<Rightarrow> node \<Rightarrow> 'c sent \<Rightarrow> string option
      \<Rightarrow> nat \<Rightarrow> iicp_error \<Rightarrow> 'c posted list \<times> (iicp_error + 'c task_response) option attempt_end" where
  "attempts w fin i n body token 0 prev = ([], NextNode prev)"
| "attempts w fin i n body token (Suc left) prev =
    (case w_post w i (MAX_RETRIES - Suc left) n body token of
       Inr resp \<Rightarrow> ([(n, body, token)], Return (fin resp))
     | Inl e \<Rightarrow>
         if (case e of EndpointRefused _ \<Rightarrow> True | _ \<Rightarrow> False) then ([(n, body, token)], NextNode e)
         else if \<not> is_transient e then ([(n, body, token)], Return (Some (Inl e)))
         else if (case e of HttpError _ \<Rightarrow> True | _ \<Rightarrow> False) then ([(n, body, token)], NextNode e)
         else (case attempts w fin i n body token left e of (ps, r) \<Rightarrow> ((n, body, token) # ps, r)))"

definition consumer_token :: "submit_config \<Rightarrow> ('c, 'k) world \<Rightarrow> node \<Rightarrow> iicp_error + string option" where
  "consumer_token cfg w n =
    (if sc_consumer_auth_mode cfg = ''disabled'' then Inr None
     else if sc_node_token cfg \<noteq> None then w_consumer_token w n
     else Inr None)"

text \<open>The body for one node: encrypted whenever the node advertises a key.\<close>

definition make_body :: "('c, 'k) world \<Rightarrow> node \<Rightarrow> json \<Rightarrow> iicp_error + 'c sent \<times> 'k option" where
  "make_body w n payload =
    (case n_cx_public_key n of
       Some k \<Rightarrow>
         (case w_encrypt w n payload of
            Inl e \<Rightarrow> Inl e
          | Inr (envelope, secret) \<Rightarrow> Inr (EncryptedBody envelope (response_encryption n), Some secret))
     | None \<Rightarrow> Inr (PlainBody payload, None))"

fun dispatch ::
    "submit_config \<Rightarrow> ('c, 'k) world \<Rightarrow> task_request \<Rightarrow> bool \<Rightarrow> ranker_decision option \<Rightarrow> nat \<Rightarrow> nat \<Rightarrow> node list
      \<Rightarrow> iicp_error option \<Rightarrow> 'c posted list \<times> (iicp_error + 'c task_response) option" where
  "dispatch cfg w rq negotiated rd count i [] prev =
     ([], Some (Inl (case prev of Some e \<Rightarrow> e | None \<Rightarrow> NoNodes (tq_intent rq))))"
| "dispatch cfg w rq negotiated rd count i (n # ns) prev =
    (case (case w_payload w of Some f \<Rightarrow> f n i | None \<Rightarrow> Inr (tq_payload rq)) of
       Inl e \<Rightarrow> ([], Some (Inl e))
     | Inr payload \<Rightarrow>
    (case consumer_token cfg w n of
       Inl e \<Rightarrow> ([], Some (Inl e))
     | Inr token \<Rightarrow>
       if sc_consumer_auth_mode cfg = ''required'' \<and> token = None
       then ([], Some (Inl (PolicyRefused ''IICP-CONSUMER-AUTH-REQUIRED''
               ''Consumer authentication is required but no directory-issued token is available'')))
       else
    (case make_body w n payload of
       Inl e \<Rightarrow> ([], Some (Inl e))
     | Inr (body, secret) \<Rightarrow>
       (case attempts w (finish_response cfg w negotiated rd count i n secret) i n body token MAX_RETRIES (NoNodes (tq_intent rq)) of
          (ps, Return r) \<Rightarrow> (ps, r)
        | (ps, NextNode e) \<Rightarrow>
            (case dispatch cfg w rq negotiated rd count (Suc i) ns (Some e) of (qs, r) \<Rightarrow> (ps @ qs, r))))))"

subsection \<open>The whole submission\<close>

text \<open>Which discovery is used; the flag says whether a profile was negotiated.\<close>

definition discovered_nodes :: "submit_config \<Rightarrow> ('c, 'k) world \<Rightarrow> iicp_error + node list \<times> bool" where
  "discovered_nodes cfg w =
    (if sc_route_discovery_mode cfg = ''legacy'' \<or> (sc_profile_requested cfg \<and> \<not> sc_restricted cfg)
     then w_discover w
     else case w_ticketed w of
       Inr nodes \<Rightarrow> Inr (nodes, False)
     | Inl LegacyRequired \<Rightarrow>
         if sc_route_discovery_mode cfg = ''auto'' then w_discover w
         else Inl (ProtocolError ''IICP-DISPATCH-TICKET-UNAVAILABLE'' ''Directory does not support ticketed dispatch'' 501)
     | Inl (TicketIicp e) \<Rightarrow> Inl e)"

text \<open>The candidates in order, with the ranker's decision and the number of eligible nodes.\<close>

definition select_candidates ::
    "submit_config \<Rightarrow> ('c, 'k) world \<Rightarrow> task_request \<Rightarrow> node list
      \<Rightarrow> (iicp_error + node list \<times> ranker_decision option \<times> nat) option" where
  "select_candidates cfg w rq pre =
    (let policy = resolved_policy (Some (unwrap_or (tq_routing_policy rq) (sc_routing_policy cfg)));
         allow_plaintext = (cx_plaintext_fallback_allowed (w_cx_allow_plaintext w) \<or> \<not> ep_require_encryption policy);
         d = filter_nodes_for_routing_policy pre policy allow_plaintext
     in if \<not> keyless_messages_ok allow_plaintext pre then None
        else Some
         (if pd_eligible d = [] \<and> pd_skipped_keyless d > 0 \<and> length (pd_rejected_reasons d) = pd_skipped_keyless d
          then Inl (NodeError (''IICP-CX confidentiality required: '' @ show_nat (pd_skipped_keyless d) @
                 '' discovered node(s) advertised no encryption key; refusing plaintext fallback''))
          else if pd_eligible d = []
          then Inl (PolicyRefused ROUTING_POLICY_REFUSAL_CODE (routing_policy_refusal_message (tq_intent rq) d policy))
          else
            let built_in = built_in_candidates cfg w (pd_eligible d)
            in case w_ranker w of
                 None \<Rightarrow> Inr (built_in, None, length (pd_eligible d))
               | Some rank \<Rightarrow>
                   (case apply_candidate_ranker (w_sha_hex w) rank (tq_task_id rq) (tq_intent rq) (pd_eligible d) built_in MAX_RETRIES of
                      Inl m \<Rightarrow> Inl (PolicyRefused ''IICP-CANDIDATE-RANKER-REFUSED'' m)
                    | Inr (cs, rd) \<Rightarrow> Inr (cs, rd, length (pd_eligible d)))))"

definition submit_internal ::
    "submit_config \<Rightarrow> ('c, 'k) world \<Rightarrow> string list option \<Rightarrow> task_request
      \<Rightarrow> 'c posted list \<times> (iicp_error + 'c task_response) option" where
  "submit_internal cfg w allowed rq0 =
    (case validate_intent (tq_intent rq0) of
       Inl e \<Rightarrow> ([], Some (Inl e))
     | Inr _ \<Rightarrow>
       let rq = (if tq_task_id rq0 = [] then rq0\<lparr>tq_task_id := w_uuid w\<rparr> else rq0) in
    (case discovered_nodes cfg w of
       Inl e \<Rightarrow> ([], Some (Inl e))
     | Inr (nodes, negotiated) \<Rightarrow>
    (case pre_policy_nodes w allowed nodes of
       None \<Rightarrow> ([], None)
     | Some pre \<Rightarrow>
       if allowed \<noteq> None \<and> pre = [] then ([], Some (Inl (NoNodes (tq_intent rq))))
       else
    (case select_candidates cfg w rq pre of
       None \<Rightarrow> ([], None)
     | Some (Inl e) \<Rightarrow> ([], Some (Inl e))
     | Some (Inr (candidates, rd, count)) \<Rightarrow>
         if candidates = [] then ([], Some (Inl (NoNodes (tq_intent rq))))
         else dispatch cfg w rq negotiated rd count 0 candidates None))))"

subsection \<open>Where requests go\<close>

lemma pre_policy_nodes_mem:
  "pre_policy_nodes w allowed ns = Some pre \<Longrightarrow> n \<in> set pre \<Longrightarrow>
    n \<in> set ns \<and> n_available n \<and> is_ssrf_safe (w_lower w) (w_allow_loopback w) (n_endpoint n) \<and>
    (case allowed of Some ids \<Rightarrow> n_node_id n \<in> set ids | None \<Rightarrow> True)"
  by (induction w allowed ns arbitrary: pre rule: pre_policy_nodes.induct)
    (auto split: if_splits option.splits simp: bind_eq_Some_conv)

lemma chosen_first_mem: "chosen \<in> set safe \<Longrightarrow> set (chosen_first safe chosen) \<subseteq> set safe \<and> length (chosen_first safe chosen) \<le> MAX_RETRIES"
  by (auto simp: chosen_first_def MAX_RETRIES_def dest!: in_set_takeD)

lemma softmax_choice_mem: "pool \<noteq> [] \<Longrightarrow> softmax_choice w tau pool \<in> set pool"
  unfolding softmax_choice_def Let_def
  by (rule nth_mem) (auto simp: unwrap_or_def dest: pick_index_less split: option.split)

lemma built_in_candidates_mem:
  assumes "safe \<noteq> []" and gen: "\<And>n. 0 < n \<Longrightarrow> w_gen_range w n < n"
  shows "set (built_in_candidates cfg w safe) \<subseteq> set safe \<and> length (built_in_candidates cfg w safe) \<le> MAX_RETRIES"
proof -
  define pool where "pool = take (min (max (sc_routing_top_k cfg) 1) (length safe)) safe"
  have pool: "pool \<noteq> []" "set pool \<subseteq> set safe" "length pool \<le> length safe"
    using assms(1) by (auto simp: pool_def dest: in_set_takeD)
  have "safe ! weighted_v1_index (w_fl w) (map n_score pool) (map n_load pool) (w_random w) \<in> set safe"
    using weighted_v1_index_less [of "map n_score pool" "map n_load pool" "w_fl w" "w_random w"] pool
    by (intro nth_mem) simp
  moreover have "softmax_choice w (sc_routing_softmax_tau cfg) pool \<in> set safe"
    using softmax_choice_mem [OF pool(1)] pool(2) by blast
  moreover have "safe ! w_gen_range w (length safe) \<in> set safe" using gen assms(1) by simp
  moreover have "set (take MAX_RETRIES safe) \<subseteq> set safe" by (rule set_take_subset)
  ultimately show ?thesis
    unfolding built_in_candidates_def Let_def pool_def [symmetric] using chosen_first_mem by auto
qed

lemma select_candidates_mem:
  assumes "select_candidates cfg w rq pre = Some (Inr (cs, rd, count))"
    and gen: "\<And>n. 0 < n \<Longrightarrow> w_gen_range w n < n"
    and policy: "p = resolved_policy (Some (unwrap_or (tq_routing_policy rq) (sc_routing_policy cfg)))"
    and plain: "plain = (cx_plaintext_fallback_allowed (w_cx_allow_plaintext w) \<or> \<not> ep_require_encryption p)"
  shows "set cs \<subseteq> {n \<in> set pre. satisfies_policy n p plain} \<and> length cs \<le> MAX_RETRIES \<and>
    count = length (filter (\<lambda>n. satisfies_policy n p plain) pre)"
proof -
  let ?el = "filter (\<lambda>n. satisfies_policy n p plain) pre"
  let ?b = "built_in_candidates cfg w ?el"
  have el: "pd_eligible (filter_nodes_for_routing_policy pre p plain) = ?el"
    by (simp add: filter_nodes_for_routing_policy_def filter_loop_result)
  note sel = assms(1) [unfolded select_candidates_def Let_def policy [symmetric] plain [symmetric] el]
  from sel have ne: "?el \<noteq> []" by (auto split: if_splits)
  note b = built_in_candidates_mem [where cfg = cfg and w = w, OF ne gen]
  show ?thesis
  proof (cases "w_ranker w")
    case None
    with sel b show ?thesis by (auto split: if_splits)
  next
    case (Some rank)
    with sel have "apply_candidate_ranker (w_sha_hex w) rank (tq_task_id rq) (tq_intent rq) ?el ?b MAX_RETRIES = Inr (cs, rd)"
      and c: "count = length ?el" by (auto split: if_splits sum.splits)
    from ranker_result [OF this(1)] b have "set cs \<subseteq> set ?el" "length cs \<le> MAX_RETRIES"
      by (auto split: option.splits simp: MAX_RETRIES_def)
    then show ?thesis using c by auto
  qed
qed

lemma attempts_posts:
  "attempts w fin i n body token left prev = (ps, r) \<Longrightarrow> set ps \<subseteq> {(n, body, token)} \<and> length ps \<le> left"
  by (induction left arbitrary: ps r prev) (fastforce split: sum.splits if_splits prod.splits)+

text \<open>What a request to one node looks like.\<close>

definition post_ok :: "submit_config \<Rightarrow> 'c posted \<Rightarrow> bool" where
  "post_ok cfg p = (case p of (n, body, token) \<Rightarrow>
     (sc_consumer_auth_mode cfg = ''required'' \<longrightarrow> token \<noteq> None) \<and>
     (sc_consumer_auth_mode cfg = ''disabled'' \<longrightarrow> token = None) \<and>
     (case body of PlainBody _ \<Rightarrow> n_cx_public_key n = None
      | EncryptedBody _ asks \<Rightarrow> n_cx_public_key n \<noteq> None \<and> asks = response_encryption n))"

lemma make_body_ok: "make_body w n payload = Inr (body, secret) \<Longrightarrow>
    (case body of PlainBody _ \<Rightarrow> n_cx_public_key n = None
     | EncryptedBody _ asks \<Rightarrow> n_cx_public_key n \<noteq> None \<and> asks = response_encryption n)"
  by (auto simp: make_body_def split: option.splits sum.splits)

lemma dispatch_posts:
  "dispatch cfg w rq neg rd count i cs prev = (ps, r) \<Longrightarrow>
    length ps \<le> MAX_RETRIES * length cs \<and> (\<forall>p \<in> set ps. fst p \<in> set cs \<and> post_ok cfg p)"
proof (induction cfg w rq neg rd count i cs prev arbitrary: ps r rule: dispatch.induct)
  case (2 cfg w rq neg rd count i n ns prev)
  show ?case
  proof (cases "ps = []")
    case False
    with 2(2) obtain payload token body secret where
      p: "(case w_payload w of Some f \<Rightarrow> f n i | None \<Rightarrow> Inr (tq_payload rq)) = Inr payload"
      and t: "consumer_token cfg w n = Inr token" "\<not> (sc_consumer_auth_mode cfg = ''required'' \<and> token = None)"
      and b: "make_body w n payload = Inr (body, secret)"
      by (auto split: sum.splits if_splits)
    obtain qs e where a: "attempts w (finish_response cfg w neg rd count i n secret) i n body token MAX_RETRIES (NoNodes (tq_intent rq)) = (qs, e)"
      by fastforce
    have tok: "sc_consumer_auth_mode cfg = ''disabled'' \<longrightarrow> token = None" using t(1) by (auto simp: consumer_token_def)
    have q: "length qs \<le> MAX_RETRIES" "\<forall>p \<in> set qs. fst p = n \<and> post_ok cfg p"
      using attempts_posts [OF a] t(2) tok make_body_ok [OF b] by (auto simp: post_ok_def)
    show ?thesis
    proof (cases e)
      case (Return x)
      with 2(2) p t b a q show ?thesis by auto
    next
      case (NextNode err)
      obtain rest y where d: "dispatch cfg w rq neg rd count (Suc i) ns (Some err) = (rest, y)" by fastforce
      with 2(2) p t b a NextNode have ps: "ps = qs @ rest" by simp
      have ih: "length rest \<le> MAX_RETRIES * length ns \<and> (\<forall>p \<in> set rest. fst p \<in> set ns \<and> post_ok cfg p)"
        by (rule 2(1) [OF p t b refl a [symmetric] NextNode d])
      then show ?thesis using q ps by auto
    qed
  qed simp
qed simp

text \<open>C6. A prompt leaves the client only for nodes the policy admits.  Whatever the network answers, every
  request of a submission goes to a discovered node that is available, whose endpoint passes the client's
  address guard, that is among the allowed nodes if the caller named some, and that satisfies the
  effective routing policy; it is encrypted if the node advertises a key, and plaintext only if the policy or
  the operator's override allows it; it carries a consumer token if authentication is required; there are at
  most nine of them; and none at all if the intent is refused.\<close>

theorem submissions_stay_in_policy:
  assumes "submit_internal cfg w allowed rq = (ps, r)" and "(n, body, token) \<in> set ps"
    and "\<And>k. 0 < k \<Longrightarrow> w_gen_range w k < k"
  shows "let p = resolved_policy (Some (unwrap_or (tq_routing_policy rq) (sc_routing_policy cfg)));
             plain = (cx_plaintext_fallback_allowed (w_cx_allow_plaintext w) \<or> \<not> ep_require_encryption p)
         in validate_intent (tq_intent rq) = Inr () \<and>
            (\<exists>nodes negotiated. discovered_nodes cfg w = Inr (nodes, negotiated) \<and> n \<in> set nodes) \<and>
            n_available n \<and> is_ssrf_safe (w_lower w) (w_allow_loopback w) (n_endpoint n) \<and>
            (case allowed of Some ids \<Rightarrow> n_node_id n \<in> set ids | None \<Rightarrow> True) \<and>
            satisfies_policy n p plain \<and> post_ok cfg (n, body, token) \<and>
            (case body of PlainBody _ \<Rightarrow> plain | EncryptedBody _ _ \<Rightarrow> True) \<and> length ps \<le> 9"
proof -
  let ?rq = "if tq_task_id rq = [] then rq\<lparr>tq_task_id := w_uuid w\<rparr> else rq"
  let ?p = "resolved_policy (Some (unwrap_or (tq_routing_policy rq) (sc_routing_policy cfg)))"
  let ?plain = "cx_plaintext_fallback_allowed (w_cx_allow_plaintext w) \<or> \<not> ep_require_encryption ?p"
  obtain nodes neg pre cs rd count where v: "validate_intent (tq_intent rq) = Inr ()"
    and d: "discovered_nodes cfg w = Inr (nodes, neg)" and pre: "pre_policy_nodes w allowed nodes = Some pre"
    and sel: "select_candidates cfg w ?rq pre = Some (Inr (cs, rd, count))"
    and disp: "dispatch cfg w ?rq neg rd count 0 cs None = (ps, r)"
    using assms(1,2) unfolding submit_internal_def Let_def
    by (auto split: sum.splits option.splits prod.splits if_splits)
  have c: "set cs \<subseteq> {n \<in> set pre. satisfies_policy n ?p ?plain}" "length cs \<le> 3"
    using select_candidates_mem [OF sel assms(3), of ?p ?plain] by (auto simp: MAX_RETRIES_def)
  have q: "length ps \<le> 3 * length cs" "n \<in> set cs" "post_ok cfg (n, body, token)"
    using dispatch_posts [OF disp] assms(2) by (auto simp: MAX_RETRIES_def)
  have n: "n \<in> set pre" "satisfies_policy n ?p ?plain" using q c by auto
  have "case body of PlainBody _ \<Rightarrow> ?plain | EncryptedBody _ _ \<Rightarrow> True"
    using q(3) n(2) by (auto simp: post_ok_def satisfies_policy_def split: sent.splits)
  then show ?thesis using v d pre_policy_nodes_mem [OF pre n(1)] n(2) q c(2) by (auto simp: Let_def)
qed

definition sample_world :: "(json, unit) world" where
  "sample_world = \<lparr>w_uuid = ''u'', w_discover = Inr ([sample_node ''a'', sample_node ''b''], False), w_ticketed = Inl LegacyRequired,
     w_lower = (\<lambda>s. s), w_allow_loopback = False, w_cx_allow_plaintext = None, w_fl = (\<lambda>x. x), w_exp = (\<lambda>x. 1),
     w_random = 1, w_gen_range = (\<lambda>n. 0), w_sha_hex = (\<lambda>s. s), w_ranker = None, w_payload = None,
     w_consumer_token = (\<lambda>n. Inr None), w_encrypt = (\<lambda>n j. Inr (j, ())), w_open = (\<lambda>k j. Inl (NodeError '''')),
     w_post = (\<lambda>i k n body t. if i = 0 then Inl (HttpError ''refused'')
        else Inr \<lparr>rs_body = JNull, rs_conf = None, rs_generated_by_ai = False, rs_ticket_prefix = None, rs_receipt = None\<rparr>)\<rparr>"

definition sample_config :: submit_config where
  "sample_config = \<lparr>sc_consumer_auth_mode = ''optional'', sc_node_token = None, sc_routing_epsilon = 0,
     sc_routing_strategy = ''deterministic'', sc_routing_top_k = 3, sc_routing_softmax_tau = 1,
     sc_routing_policy = \<lparr>rp_profile = Standard, rp_allowed_regions = [], rp_require_encryption = None,
        rp_require_policy_manifest = None, rp_require_no_payload_retention = None, rp_allow_remote_executor = None,
        rp_known_operator_only = None, rp_required_manifest_identity_level = None\<rparr>,
     sc_route_discovery_mode = ''auto'', sc_profile_requested = False, sc_restricted = False\<rparr>"

definition sample_request :: task_request where
  "sample_request = \<lparr>tq_task_id = ''t'', tq_intent = ''urn:iicp:intent:llm:chat:v1'', tq_payload = JNull, tq_routing_policy = None\<rparr>"

lemma sample_intent_valid: "validate_intent ''urn:iicp:intent:llm:chat:v1'' = Inr ()"
  by code_simp

lemma sample_node_safe: "is_ssrf_safe (\<lambda>s. s) False ''https://a.example''"
  by (simp add: is_ssrf_safe_def url_host_def strip_prefix_def starts_with_def ip_parsing
      BLOCKED_SUFFIXES_def ends_with_def)

lemmas sample_submission = sample_world_def sample_config_def sample_request_def submit_internal_def sample_intent_valid
  discovered_nodes_def select_candidates_def built_in_candidates_def keyless_messages_ok_def cx_plaintext_fallback_allowed_def
  resolved_policy_def profile_defaults_def filter_nodes_for_routing_policy_def node_rejection_reason_def required_identity_level_def
  MAX_RETRIES_def consumer_token_def make_body_def response_encryption_def finish_response_def node_short_id_def

lemma sample_submission_runs: "fst (submit_internal sample_config sample_world None sample_request) =
    [(sample_node ''a'', EncryptedBody JNull False, None), (sample_node ''b'', EncryptedBody JNull False, None)] \<and>
  (\<exists>resp. snd (submit_internal sample_config sample_world None sample_request) = Some (Inr resp))"
  by (simp add: sample_submission sample_node_safe unwrap_or_def numeral_3_eq_3 Let_def sample_node_def)

theorem submissions_stay_in_policy_witness:
  "let ps = fst (submit_internal sample_config sample_world None sample_request)
   in ps = [(sample_node ''a'', EncryptedBody JNull False, None), (sample_node ''b'', EncryptedBody JNull False, None)] \<and>
      length ps \<le> 9 \<and> n_available (fst (ps ! 1)) \<and> satisfies_policy (fst (ps ! 1))
        (resolved_policy (Some (sc_routing_policy sample_config))) False"
proof -
  obtain ps r where e: "submit_internal sample_config sample_world None sample_request = (ps, r)" by fastforce
  then have ps: "ps = [(sample_node ''a'', EncryptedBody JNull False, None), (sample_node ''b'', EncryptedBody JNull False, None)]"
    using sample_submission_runs by simp
  then have m: "(sample_node ''b'', EncryptedBody JNull False, None) \<in> set ps" by simp
  have g: "\<And>k. 0 < k \<Longrightarrow> w_gen_range sample_world k < k" by (simp add: sample_world_def)
  have "\<not> cx_plaintext_fallback_allowed (w_cx_allow_plaintext sample_world)"
    by (simp add: sample_world_def cx_plaintext_fallback_allowed_def)
  moreover have "tq_routing_policy sample_request = None" by (simp add: sample_request_def)
  moreover have "ep_require_encryption (resolved_policy (Some (sc_routing_policy sample_config)))"
    by (simp add: sample_config_def resolved_policy_def profile_defaults_def)
  ultimately show ?thesis using submissions_stay_in_policy [OF e m g] e ps by (auto simp: Let_def unwrap_or_def)
qed

subsection \<open>Panics and receipts\<close>

lemma pre_policy_nodes_total: "list_all (\<lambda>n. node_short_id (n_node_id n) \<noteq> None) ns \<Longrightarrow> pre_policy_nodes w allowed ns \<noteq> None"
  by (induction w allowed ns rule: pre_policy_nodes.induct) (auto split: option.splits)

lemma attempts_return:
  "attempts w fin i n body token left prev = (ps, Return r) \<Longrightarrow>
    (\<exists>e. r = Some (Inl e)) \<or> (\<exists>resp qs. r = fin resp \<and> ps = qs @ [(n, body, token)])"
  by (induction left arbitrary: ps prev) (fastforce split: sum.splits if_splits prod.splits)+

text \<open>A response is finished with the receipt of the node that gave it.\<close>

lemma finish_response_cases:
  "(\<exists>e. finish_response cfg w neg rd count i n secret resp = Some (Inl e)) \<or>
   (\<exists>r. finish_response cfg w neg rd count i n secret resp =
     map_option (\<lambda>prefix. Inr (r prefix)) (node_short_id (n_node_id n)) \<and>
     (\<forall>prefix. rs_generated_by_ai (r prefix) \<and> (\<exists>rc. rs_receipt (r prefix) = Some rc \<and>
        rr_selected_node_id_prefix rc = prefix \<and> rr_eligible_candidate_count rc = count)))"
proof -
  let ?o = "if response_encryption n then
      (case rs_conf resp of None \<Rightarrow> Inl (NodeError ''node advertised response encryption but returned plaintext'')
       | Some envelope \<Rightarrow> (case secret of None \<Rightarrow> Inl (NodeError ''missing CX response context'') | Some k \<Rightarrow> w_open w k envelope))
     else Inr resp"
  show ?thesis
  proof (cases ?o)
    case (Inl e)
    then show ?thesis unfolding finish_response_def Let_def by simp
  next
    case (Inr r)
    then show ?thesis unfolding finish_response_def Let_def by auto
  qed
qed

lemma dispatch_result:
  assumes "list_all (\<lambda>n. node_short_id (n_node_id n) \<noteq> None) cs" and "dispatch cfg w rq neg rd count i cs prev = (ps, r)"
  shows "(\<exists>e. r = Some (Inl e)) \<or> (\<exists>resp rc qs n body token. r = Some (Inr resp) \<and> ps = qs @ [(n, body, token)] \<and>
     rs_generated_by_ai resp \<and> rs_receipt resp = Some rc \<and> node_short_id (n_node_id n) = Some (rr_selected_node_id_prefix rc) \<and>
     rr_eligible_candidate_count rc = count)"
  using assms
proof (induction cfg w rq neg rd count i cs prev arbitrary: ps r rule: dispatch.induct)
  case (2 cfg w rq neg rd count i n ns prev)
  let ?fin = "finish_response cfg w neg rd count i n"
  show ?case
  proof (cases "\<exists>e. r = Some (Inl e)")
    case False
    with 2(3) obtain payload token body secret where
      p: "(case w_payload w of Some f \<Rightarrow> f n i | None \<Rightarrow> Inr (tq_payload rq)) = Inr payload"
      and t: "consumer_token cfg w n = Inr token" "\<not> (sc_consumer_auth_mode cfg = ''required'' \<and> token = None)"
      and b: "make_body w n payload = Inr (body, secret)"
      by (auto split: sum.splits if_splits)
    obtain qs e where a: "attempts w (?fin secret) i n body token MAX_RETRIES (NoNodes (tq_intent rq)) = (qs, e)"
      by fastforce
    show ?thesis
    proof (cases e)
      case (Return x)
      with 2(3) p t b a have r: "r = x" "ps = qs" by auto
      with attempts_return [OF a [unfolded Return]] False obtain resp us where
        x: "x = ?fin secret resp" "ps = us @ [(n, body, token)]" by auto
      obtain prefix where pre: "node_short_id (n_node_id n) = Some prefix" using 2(2) by auto
      from finish_response_cases [of cfg w neg rd count i n secret resp] x r False pre show ?thesis by fastforce
    next
      case (NextNode err)
      obtain rest y where d: "dispatch cfg w rq neg rd count (Suc i) ns (Some err) = (rest, y)" by fastforce
      with 2(3) p t b a NextNode have ps: "ps = qs @ rest" "r = y" by auto
      have "list_all (\<lambda>n. node_short_id (n_node_id n) \<noteq> None) ns" using 2(2) by simp
      from 2(1) [OF p t b refl a [symmetric] NextNode this d] show ?thesis using ps by fastforce
    qed
  qed blast
qed simp



text \<open>An identifier whose eighth byte falls inside a character makes the message or the receipt panic.\<close>

lemma node_short_id_panics: "node_short_id (''abcdefg'' @ [CHR 0xC3, CHR 0xA9]) = None"
  by (simp add: node_short_id_def is_continuation_def)

end
