(* ===== verification/Replay.thy ===== *)
theory Replay
  imports Prelude
begin

text \<open>
  The contract of a replay cache: a ticket, nonce or message identifier is offered with its expiry and
  the current time, and the cache says whether it is new.  Entries may be dropped once they expire.
  The relay, the dispatch-ticket verifier and the gossip receiver each have such a cache; what the contract
  gives them is proved here once: as long as it is offered before its expiry only, an identifier is taken
  at most once, whatever else is offered in between.
\<close>

type_synonym ('t, 'k) presentation = "'t \<times> 'k \<times> 't"

text \<open>The identifier \<open>j\<close> with the expiry \<open>x\<close> is presented before it expires only.\<close>

definition unexpired :: "'k \<Rightarrow> 't::linorder \<Rightarrow> ('t, 'k) presentation \<Rightarrow> bool" where
  "unexpired j x p = (case p of (now, k, y) \<Rightarrow> k = j \<and> y = x \<longrightarrow> now < x)"

primrec taken :: "('t \<Rightarrow> 'k \<Rightarrow> 't \<Rightarrow> 's \<Rightarrow> 's \<times> bool) \<Rightarrow> 'k \<Rightarrow> 't \<Rightarrow> ('t, 'k) presentation list \<Rightarrow> 's \<Rightarrow> nat" where
  "taken offer j x [] s = 0"
| "taken offer j x (p # ps) s = (case p of (now, k, y) \<Rightarrow>
     (case offer now k y s of (s', b) \<Rightarrow> (if k = j \<and> y = x \<and> b then 1 else 0) + taken offer j x ps s'))"

locale replay_guard =
  fixes offer :: "'t::linorder \<Rightarrow> 'k \<Rightarrow> 't \<Rightarrow> 's \<Rightarrow> 's \<times> bool"
    and held :: "'s \<Rightarrow> 'k \<Rightarrow> 't option"
    and inv :: "'s \<Rightarrow> bool"
  assumes offer_inv: "inv s \<Longrightarrow> inv (fst (offer now k x s))"
    and offer_fresh: "inv s \<Longrightarrow> offer now k x s = (s', True) \<Longrightarrow>
      (\<forall>y. held s k = Some y \<longrightarrow> y \<le> now) \<and> held s' k = Some x"
    and offer_keeps: "inv s \<Longrightarrow> offer now k x s = (s', b) \<Longrightarrow> held s j = Some y \<Longrightarrow> now < y \<Longrightarrow> held s' j = Some y"
begin

text \<open>From the moment it is on record, or past its expiry, an identifier is not taken again.\<close>

lemma taken_after:
  assumes "inv s" and "held s j = Some x \<or> x \<le> t" and "sorted (t # map fst ps)" and "list_all (unexpired j x) ps"
  shows "taken offer j x ps s = 0"
  using assms
proof (induction ps arbitrary: s t)
  case (Cons p ps)
  obtain now k y where p: "p = (now, k, y)" by (cases p)
  obtain s' b where e: "offer now k y s = (s', b)" by fastforce
  have times: "t \<le> now" "sorted (now # map fst ps)" using Cons.prems(3) p by auto
  have inv': "inv s'" using offer_inv [OF Cons.prems(1), of now k y] e by simp
  have held': "held s' j = Some x \<or> x \<le> now"
    using Cons.prems(2) times offer_keeps [OF Cons.prems(1) e] by (metis le_less_linear order_trans)
  have "\<not> (k = j \<and> y = x \<and> b)"
  proof
    assume kb: "k = j \<and> y = x \<and> b"
    then have "now < x" using Cons.prems(4) p by (auto simp: unexpired_def)
    then show False using offer_fresh [OF Cons.prems(1), of now k y s'] e kb Cons.prems(2) times(1) by auto
  qed
  then show ?case using Cons.IH [OF inv' held' times(2)] Cons.prems(4) p e by simp
qed simp

lemma taken_at_most_once:
  assumes "inv s" and "sorted (map fst ps)" and "list_all (unexpired j x) ps"
  shows "taken offer j x ps s \<le> 1"
  using assms
proof (induction ps arbitrary: s)
  case (Cons p ps)
  obtain now k y where p: "p = (now, k, y)" by (cases p)
  obtain s' b where e: "offer now k y s = (s', b)" by fastforce
  have inv': "inv s'" using offer_inv [OF Cons.prems(1), of now k y] e by simp
  show ?case
  proof (cases "k = j \<and> y = x \<and> b")
    case True
    then have "held s' j = Some x" using offer_fresh [OF Cons.prems(1), of now k y s'] e True by auto
    then have "taken offer j x ps s' = 0"
      using taken_after [OF inv', of j x now ps] Cons.prems(2,3) p by simp
    then show ?thesis using p e by simp
  next
    case False
    then show ?thesis using Cons.IH [OF inv'] Cons.prems(2,3) p e by auto
  qed
qed simp

end

text \<open>The common shape of the caches: drop what has expired, refuse what is left, else record.  With a
  limit on the number of entries a new identifier may be refused as well.\<close>

definition offer_map :: "nat option \<Rightarrow> 't::linorder \<Rightarrow> 'k \<Rightarrow> 't \<Rightarrow> ('k, 't) hmap \<Rightarrow> ('k, 't) hmap \<times> bool" where
  "offer_map limit now k x m =
    (let kept = hretain (\<lambda>_ expiry. expiry > now) m
     in if hget kept k \<noteq> None then (kept, False)
        else if (case limit of Some n \<Rightarrow> n \<le> length kept | None \<Rightarrow> False) then (kept, False)
        else (hput k x kept, True))"

lemma offer_map_guard: "replay_guard (offer_map limit) hget hwf"
proof unfold_locales
  fix s :: "('k, 't::linorder) hmap" and now x :: 't and k :: 'k
  assume "hwf s"
  then show "hwf (fst (offer_map limit now k x s))" by (simp add: offer_map_def Let_def)
next
  fix s s' :: "('k, 't::linorder) hmap" and now x :: 't and k :: 'k
  assume "hwf s" and "offer_map limit now k x s = (s', True)"
  then show "(\<forall>y. hget s k = Some y \<longrightarrow> y \<le> now) \<and> hget s' k = Some x"
    by (auto simp: offer_map_def Let_def hget_hretain split: if_splits option.splits)
next
  fix s s' :: "('k, 't::linorder) hmap" and now x y :: 't and k j :: 'k and b
  assume "hwf s" "offer_map limit now k x s = (s', b)" "hget s j = Some y" "now < y"
  then show "hget s' j = Some y"
    by (auto simp: offer_map_def Let_def hget_hretain split: if_splits option.splits)
qed

end
