(* ===== verification/Tickets.thy ===== *)
theory Tickets
  imports Replay Json Text "HOL-Library.Char_ord" "HOL-Library.List_Lexorder"
begin

text \<open>
  Signed tickets: the directory's route tickets (\<^verbatim>\<open>src/dispatch_ticket.rs\<close>), the tickets a worker binds to
  a relay with (\<^verbatim>\<open>src/relay_ticket.rs\<close>) and the anchored tickets of profile v2 with their trust bundle and
  local replay cache (the verifier of \<^verbatim>\<open>src/dispatch_ticket_trust.rs\<close>).

  The encodings, the signature scheme and the decoding of claims come from third-party crates.  They are
  the members of the record \<open>codec\<close>: decoders return \<open>None\<close> where the crate reports an error; a key is
  usable or not; \<open>cd_verify key message signature\<close> is the outcome of the signature check.
\<close>

record codec =
  cd_hex :: "string \<Rightarrow> string option"
  cd_b64url :: "string \<Rightarrow> string option"
  cd_usable_key :: "string \<Rightarrow> bool"
  cd_verify :: "string \<Rightarrow> string \<Rightarrow> string \<Rightarrow> bool"

text \<open>A fixed-size array from decoded bytes, \<^verbatim>\<open>.ok()?.try_into().ok()?\<close>.\<close>

definition sized :: "nat \<Rightarrow> string option \<Rightarrow> string option" where
  "sized n x = (case x of Some b \<Rightarrow> if length b = n then Some b else None | None \<Rightarrow> None)"

definition lower_hex :: "char \<Rightarrow> bool" where
  "lower_hex c \<longleftrightarrow> is_ascii_hexdigit c \<and> \<not> is_ascii_upper c"

text \<open>\<^verbatim>\<open>token.split_once('.')\<close>\<close>

fun split_once :: "char \<Rightarrow> string \<Rightarrow> (string \<times> string) option" where
  "split_once c [] = None"
| "split_once c (x # xs) = (if x = c then Some ([], xs) else map_option (\<lambda>(a, b). (x # a, b)) (split_once c xs))"

lemma split_once_Some: "split_once c s = Some (a, b) \<Longrightarrow> s = a @ c # b \<and> c \<notin> set a"
  by (induction s arbitrary: a) (auto split: if_splits)

text \<open>The check both hexadecimal ticket forms share: the signature covers the domain string and the
  payload as it was sent.\<close>

definition hex_signed :: "codec \<Rightarrow> string \<Rightarrow> string \<Rightarrow> string \<Rightarrow> string \<Rightarrow> bool" where
  "hex_signed cd domain public_key_hex payload sig_hex \<longleftrightarrow>
    (case sized 32 (cd_hex cd public_key_hex) of
       None \<Rightarrow> False
     | Some key \<Rightarrow> cd_usable_key cd key \<and>
         (case sized 64 (cd_hex cd sig_hex) of
            None \<Rightarrow> False
          | Some sig \<Rightarrow> cd_verify cd key (domain @ payload) sig))"

subsection \<open>Route tickets\<close>

definition ROUTE_DOMAIN :: string where
  "ROUTE_DOMAIN = ''iicp:dispatch-route-ticket:v1'' @ [CHR 0x0A]"

definition ROUTE_AUDIENCE :: string where
  "ROUTE_AUDIENCE = ''iicp.directory.dispatch''"

record route_claims =
  rc_v :: u8
  rc_typ :: string
  rc_iss :: string
  rc_aud :: string
  rc_jti :: string
  rc_node_id :: string
  rc_intent :: string
  rc_iat :: int
  rc_exp :: int
  rc_policy_manifest_sha256 :: "string option"

text \<open>\<open>claims_of\<close> is \<^verbatim>\<open>serde_json::from_slice\<close> at the claims type.\<close>

definition verify_dispatch_route_ticket ::
    "codec \<Rightarrow> (string \<Rightarrow> route_claims option) \<Rightarrow> string \<Rightarrow> string \<Rightarrow> string \<Rightarrow> string \<Rightarrow> string \<Rightarrow> int \<Rightarrow> route_claims option" where
  "verify_dispatch_route_ticket cd claims_of token public_key_hex issuer node_id intent now_s =
    (case split_once CHR ''.'' token of None \<Rightarrow> None | Some (payload, sig_hex) \<Rightarrow>
     if length sig_hex \<noteq> 128 then None
     else if \<not> hex_signed cd ROUTE_DOMAIN public_key_hex payload sig_hex then None
     else case Option.bind (cd_b64url cd payload) claims_of of None \<Rightarrow> None | Some claims \<Rightarrow>
       if rc_v claims = 1 \<and> rc_typ claims = ''dispatch-route-ticket'' \<and> rc_iss claims = issuer \<and>
          rc_aud claims = ROUTE_AUDIENCE \<and> rc_node_id claims = node_id \<and> rc_intent claims = intent \<and>
          rc_exp claims > now_s \<and> length (rc_jti claims) = 24 \<and>
          (case rc_policy_manifest_sha256 claims of None \<Rightarrow> True
           | Some digest \<Rightarrow> length digest = 64 \<and> list_all lower_hex digest) \<and>
          list_all lower_hex (rc_jti claims)
       then Some claims else None)"

text \<open>\<^verbatim>\<open>route.pointer("/node_policy_manifest/verification/canonical_sha256")\<close>\<close>

definition policy_manifest_binding_matches :: "route_claims \<Rightarrow> json \<Rightarrow> bool" where
  "policy_manifest_binding_matches claims route =
    (case rc_policy_manifest_sha256 claims of None \<Rightarrow> True
     | Some expected \<Rightarrow>
         Option.bind (Option.bind (json_get route ''node_policy_manifest'') (\<lambda>m. json_get m ''verification''))
           (\<lambda>v. get_str v ''canonical_sha256'') = Some expected)"

subsection \<open>Relay bind tickets\<close>

definition BIND_DOMAIN :: string where
  "BIND_DOMAIN = ''iicp:relay-bind-ticket:v1'' @ [CHR 0x0A]"

record bind_claims =
  bc_v :: u8
  bc_typ :: string
  bc_jti :: string
  bc_iss :: string
  bc_sub :: string
  bc_aud :: string
  bc_iat :: int
  bc_exp :: int

text \<open>The process-wide cache of consumed tickets.\<close>

definition consume_relay_bind_ticket :: "bind_claims \<Rightarrow> int \<Rightarrow> (string, int) hmap \<Rightarrow> (string, int) hmap \<times> bool" where
  "consume_relay_bind_ticket claims now_s seen0 =
    (let seen = hretain (\<lambda>_ e. e > now_s) seen0
     in if hget seen (bc_jti claims) \<noteq> None then (seen, False)
        else (hput (bc_jti claims) (bc_exp claims) seen, True))"

definition verify_relay_bind_ticket ::
    "codec \<Rightarrow> (string \<Rightarrow> bind_claims option) \<Rightarrow> string \<Rightarrow> string \<Rightarrow> string \<Rightarrow> string \<Rightarrow> int \<Rightarrow> bind_claims option" where
  "verify_relay_bind_ticket cd claims_of token public_key_hex worker_id relay_audience now_s =
    (case split_once CHR ''.'' token of None \<Rightarrow> None | Some (payload, sig_hex) \<Rightarrow>
     if length sig_hex \<noteq> 128 then None
     else if \<not> hex_signed cd BIND_DOMAIN public_key_hex payload sig_hex then None
     else case Option.bind (cd_b64url cd payload) claims_of of None \<Rightarrow> None | Some claims \<Rightarrow>
       if bc_typ claims \<noteq> ''relay-bind-ticket'' \<or> length (bc_jti claims) \<noteq> 32 \<or>
          \<not> list_all lower_hex (bc_jti claims) \<or> bc_sub claims \<noteq> worker_id \<or> bc_exp claims \<le> now_s
       then None
       else if bc_aud claims \<noteq> ''*'' \<and> bc_aud claims \<noteq> relay_audience then None
       else Some claims)"

subsection \<open>Anchored tickets\<close>

definition PROFILE_V2 :: string where
  "PROFILE_V2 = ''dispatch_ticket_v2''"

definition TRUST_DOMAIN :: string where
  "TRUST_DOMAIN = ''IICP-DISPATCH-TICKET-V2'' @ [CHR 0x00]"

record trust_key =
  tk_key_id :: string
  tk_public_key_b64url :: string
  tk_state :: string
  tk_valid_from :: u64
  tk_valid_until :: u64
  tk_allowed_profiles :: "string list"
  tk_issuers :: "string list"
  tk_audiences :: "string list"

record trust_bundle =
  tb_bundle_version :: u64
  tb_keys :: "trust_key list"
  tb_issuer :: "string option"
  tb_valid_from :: "u64 option"
  tb_valid_until :: "u64 option"

record ticket_bindings =
  bi_issuer :: string
  bi_provider_id :: string
  bi_intent :: string
  bi_constraints_digest :: string
  bi_audience :: "string option"

record trust_decision =
  td_accepted :: bool
  td_code :: string
  td_anchored :: bool
  td_key_id :: "string option"

definition reject_trust :: "string \<Rightarrow> string option \<Rightarrow> trust_decision" where
  "reject_trust code key_id = \<lparr>td_accepted = False, td_code = code, td_anchored = False, td_key_id = key_id\<rparr>"

type_synonym replay_cache = "(string, u64) hmap"

definition cache_contains :: "string \<Rightarrow> u64 \<Rightarrow> replay_cache \<Rightarrow> replay_cache \<times> bool" where
  "cache_contains jti now seen =
    (let kept = hretain (\<lambda>_ expiry. expiry > now) seen in (kept, hget kept jti \<noteq> None))"

definition cache_remember :: "string \<Rightarrow> u64 \<Rightarrow> replay_cache \<Rightarrow> replay_cache" where
  "cache_remember jti expires_at seen = hput jti expires_at seen"

text \<open>Canonical JSON: members in key order, no spaces.  \<open>leaf\<close> is \<^verbatim>\<open>serde_json::to_string\<close> on strings, numbers,
  booleans and null.\<close>

fun canonical_ticket_claims :: "(json \<Rightarrow> string) \<Rightarrow> json \<Rightarrow> string" where
  "canonical_ticket_claims leaf (JObj ms) =
     ''{'' @ join_with '','' (map (\<lambda>(k, t). leaf (JStr k) @ '':'' @ t)
       (sort_key fst (map (\<lambda>(k, v). (k, canonical_ticket_claims leaf v)) ms))) @ ''}''"
| "canonical_ticket_claims leaf (JArr vs) = ''['' @ join_with '','' (map (canonical_ticket_claims leaf) vs) @ '']''"
| "canonical_ticket_claims leaf JNull = leaf JNull"
| "canonical_ticket_claims leaf (JBool b) = leaf (JBool b)"
| "canonical_ticket_claims leaf (JPos n) = leaf (JPos n)"
| "canonical_ticket_claims leaf (JNeg i) = leaf (JNeg i)"
| "canonical_ticket_claims leaf (JFloat r) = leaf (JFloat r)"
| "canonical_ticket_claims leaf (JStr s) = leaf (JStr s)"


definition claim_is :: "json \<Rightarrow> string \<Rightarrow> string \<Rightarrow> bool" where
  "claim_is claims k s \<longleftrightarrow> json_index claims k = JStr s"

definition trust_signature_valid :: "codec \<Rightarrow> (json \<Rightarrow> string) \<Rightarrow> trust_key \<Rightarrow> json \<Rightarrow> string \<Rightarrow> bool" where
  "trust_signature_valid cd leaf key claims signature_b64url =
    (case sized 32 (cd_b64url cd (tk_public_key_b64url key)) of
       None \<Rightarrow> False
     | Some public_bytes \<Rightarrow>
         (case sized 64 (cd_b64url cd signature_b64url) of
            None \<Rightarrow> False
          | Some sig \<Rightarrow> cd_usable_key cd public_bytes \<and>
              cd_verify cd public_bytes (TRUST_DOMAIN @ canonical_ticket_claims leaf claims) sig))"

definition key_serves :: "trust_key \<Rightarrow> json \<Rightarrow> u64 \<Rightarrow> string option" where
  "key_serves key claims now =
    (if tk_state key = ''revoked'' then Some ''reject_key_revoked''
     else if now < tk_valid_from key \<or> now > tk_valid_until key then Some ''reject_key_expired''
     else if tk_allowed_profiles key \<noteq> [] \<and> PROFILE_V2 \<notin> set (tk_allowed_profiles key) then Some ''reject_profile_not_allowed''
     else if tk_issuers key \<noteq> [] \<and> \<not> list_ex (claim_is claims ''issuer'') (tk_issuers key) then Some ''reject_issuer''
     else if tk_audiences key \<noteq> [] \<and> \<not> list_ex (claim_is claims ''audience'') (tk_audiences key) then Some ''reject_audience''
     else None)"

definition claims_bound :: "json \<Rightarrow> ticket_bindings \<Rightarrow> bool" where
  "claims_bound claims b \<longleftrightarrow>
     claim_is claims ''issuer'' (bi_issuer b) \<and> claim_is claims ''provider_id'' (bi_provider_id b) \<and>
     claim_is claims ''intent'' (bi_intent b) \<and> claim_is claims ''constraints_digest'' (bi_constraints_digest b) \<and>
     (case bi_audience b of None \<Rightarrow> True | Some a \<Rightarrow> claim_is claims ''audience'' a)"

definition verify_dispatch_ticket_v2 ::
    "codec \<Rightarrow> (json \<Rightarrow> string) \<Rightarrow> json \<Rightarrow> string \<Rightarrow> trust_bundle \<Rightarrow> ticket_bindings \<Rightarrow> u64 \<Rightarrow> u64 \<Rightarrow> replay_cache option
      \<Rightarrow> replay_cache option \<times> trust_decision" where
  "verify_dispatch_ticket_v2 cd leaf claims signature_b64url bundle bindings now minimum_bundle_version cache =
    (if tb_bundle_version bundle < minimum_bundle_version then (cache, reject_trust ''reject_bundle_rollback'' None)
     else if (case tb_valid_from bundle of Some start \<Rightarrow> now < start | None \<Rightarrow> False)
     then (cache, reject_trust ''reject_bundle_not_yet_valid'' None)
     else if (case tb_valid_until bundle of Some end' \<Rightarrow> now > end' | None \<Rightarrow> False)
     then (cache, reject_trust ''reject_bundle_expired'' None)
     else if \<not> claim_is claims ''profile'' PROFILE_V2 then (cache, reject_trust ''reject_required_profile_downgrade'' None)
     else case as_str (json_index claims ''key_id'') of None \<Rightarrow> (cache, reject_trust ''reject_unknown_key'' None) | Some key_id \<Rightarrow>
       (case List.find (\<lambda>k. tk_key_id k = key_id) (tb_keys bundle) of
          None \<Rightarrow> (cache, reject_trust ''reject_unknown_key'' (Some key_id))
        | Some key \<Rightarrow>
       (case key_serves key claims now of Some code \<Rightarrow> (cache, reject_trust code (Some key_id)) | None \<Rightarrow>
        if \<not> claims_bound claims bindings then (cache, reject_trust ''reject_claim_mismatch'' (Some key_id))
        else case (as_u64 (json_index claims ''expires_at''), as_str (json_index claims ''jti'')) of
          (Some expires_at, Some jti) \<Rightarrow>
            if expires_at \<le> now \<or> jti = [] then (cache, reject_trust ''reject_claim_mismatch'' (Some key_id))
            else if \<not> trust_signature_valid cd leaf key claims signature_b64url
            then (cache, reject_trust ''reject_signature'' (Some key_id))
            else (case cache of
              None \<Rightarrow> (None, \<lparr>td_accepted = True, td_code = ''accept_anchored'', td_anchored = True, td_key_id = Some key_id\<rparr>)
            | Some c \<Rightarrow>
                (case cache_contains jti now c of
                   (c', True) \<Rightarrow> (Some c', reject_trust ''reject_local_replay'' (Some key_id))
                 | (c', False) \<Rightarrow> (Some (cache_remember jti expires_at c'),
                     \<lparr>td_accepted = True, td_code = ''accept_anchored'', td_anchored = True, td_key_id = Some key_id\<rparr>)))
        | _ \<Rightarrow> (cache, reject_trust ''reject_claim_mismatch'' (Some key_id)))))"

subsection \<open>What an accepted ticket certifies\<close>

lemma reject_trust_not_accepted [simp]: "\<not> td_accepted (reject_trust code k)"
  by (simp add: reject_trust_def)

text \<open>The facts behind an acceptance, with the state of the cache before and after.\<close>

definition anchored_facts ::
    "codec \<Rightarrow> (json \<Rightarrow> string) \<Rightarrow> json \<Rightarrow> string \<Rightarrow> trust_bundle \<Rightarrow> ticket_bindings \<Rightarrow> u64 \<Rightarrow> u64 \<Rightarrow> trust_key \<Rightarrow> string \<Rightarrow> u64 \<Rightarrow> bool" where
  "anchored_facts cd leaf claims sig bundle b now min_version key jti x \<longleftrightarrow>
     min_version \<le> tb_bundle_version bundle \<and>
     (case tb_valid_from bundle of Some start \<Rightarrow> start \<le> now | None \<Rightarrow> True) \<and>
     (case tb_valid_until bundle of Some end' \<Rightarrow> now \<le> end' | None \<Rightarrow> True) \<and>
     claim_is claims ''profile'' PROFILE_V2 \<and> claim_is claims ''key_id'' (tk_key_id key) \<and> key \<in> set (tb_keys bundle) \<and>
     key_serves key claims now = None \<and> claims_bound claims b \<and> json_index claims ''expires_at'' = JPos x \<and>
     json_index claims ''jti'' = JStr jti \<and> jti \<noteq> [] \<and> now < x \<and> trust_signature_valid cd leaf key claims sig"

lemma as_str_Some: "as_str j = Some s \<longleftrightarrow> j = JStr s"
  by (cases j) auto

lemma as_u64_Some: "as_u64 j = Some n \<longleftrightarrow> j = JPos n"
  by (cases j) auto

lemma verify_v2_accepted:
  assumes "verify_dispatch_ticket_v2 cd leaf claims sig bundle b now min_version cache = (cache', d)" and "td_accepted d"
  shows "\<exists>key jti x. anchored_facts cd leaf claims sig bundle b now min_version key jti x \<and> td_key_id d = Some (tk_key_id key) \<and>
    (case cache of None \<Rightarrow> cache' = None
     | Some c \<Rightarrow> \<not> snd (cache_contains jti now c) \<and> cache' = Some (cache_remember jti x (fst (cache_contains jti now c))))"
proof -
  have "\<exists>key_id key. as_str (json_index claims ''key_id'') = Some key_id \<and>
      List.find (\<lambda>k. tk_key_id k = key_id) (tb_keys bundle) = Some key"
    using assms by (auto simp: verify_dispatch_ticket_v2_def split: if_splits option.splits)
  then obtain key_id key where k: "as_str (json_index claims ''key_id'') = Some key_id"
    "List.find (\<lambda>k. tk_key_id k = key_id) (tb_keys bundle) = Some key" by blast
  have "\<exists>x jti. as_u64 (json_index claims ''expires_at'') = Some x \<and> as_str (json_index claims ''jti'') = Some jti"
    using assms k by (auto simp: verify_dispatch_ticket_v2_def split: if_splits option.splits)
  then obtain x jti where j: "as_u64 (json_index claims ''expires_at'') = Some x" "as_str (json_index claims ''jti'') = Some jti"
    by blast
  note d = assms [unfolded verify_dispatch_ticket_v2_def k j option.case prod.case]
  have f: "anchored_facts cd leaf claims sig bundle b now min_version key jti x"
    using d k j find_mem [OF k(2)] unfolding anchored_facts_def
    by (auto simp: as_str_Some as_u64_Some claim_is_def not_less split: if_splits option.splits)
  have "td_key_id d = Some (tk_key_id key) \<and> (case cache of None \<Rightarrow> cache' = None
     | Some c \<Rightarrow> \<not> snd (cache_contains jti now c) \<and> cache' = Some (cache_remember jti x (fst (cache_contains jti now c))))"
    using d find_mem [OF k(2)] by (auto split: if_splits option.splits prod.splits bool.splits)
  with f show ?thesis by blast
qed

subsection \<open>Replay\<close>

text \<open>The two caches meet the contract of \<open>replay_guard\<close>.\<close>

definition bind_offer :: "int \<Rightarrow> string \<Rightarrow> int \<Rightarrow> (string, int) hmap \<Rightarrow> (string, int) hmap \<times> bool" where
  "bind_offer now jti x seen = consume_relay_bind_ticket
     \<lparr>bc_v = 1, bc_typ = [], bc_jti = jti, bc_iss = [], bc_sub = [], bc_aud = [], bc_iat = 0, bc_exp = x\<rparr> now seen"

lemma consume_bind_offer: "consume_relay_bind_ticket claims now seen = bind_offer now (bc_jti claims) (bc_exp claims) seen"
  by (simp add: bind_offer_def consume_relay_bind_ticket_def Let_def)

definition cache_offer :: "u64 \<Rightarrow> string \<Rightarrow> u64 \<Rightarrow> replay_cache \<Rightarrow> replay_cache \<times> bool" where
  "cache_offer now jti x c =
    (case cache_contains jti now c of (c', True) \<Rightarrow> (c', False) | (c', False) \<Rightarrow> (cache_remember jti x c', True))"

lemma bind_offer_map: "bind_offer = offer_map None"
  by (intro ext) (simp add: bind_offer_def consume_relay_bind_ticket_def offer_map_def Let_def)

lemma cache_offer_map: "cache_offer = offer_map None"
  by (intro ext) (simp add: cache_offer_def cache_contains_def cache_remember_def offer_map_def Let_def)

interpretation bind: replay_guard bind_offer hget hwf
  unfolding bind_offer_map by (rule offer_map_guard)

interpretation anchored: replay_guard cache_offer hget hwf
  unfolding cache_offer_map by (rule offer_map_guard)

text \<open>The verifier with a cache is the verifier without one, followed by an offer to the cache.\<close>

lemma verify_v2_cached:
  "verify_dispatch_ticket_v2 cd leaf claims sig bundle b now min_version (Some c) =
    (case verify_dispatch_ticket_v2 cd leaf claims sig bundle b now min_version None of (_, d) \<Rightarrow>
       if \<not> td_accepted d then (Some c, d)
       else case (as_u64 (json_index claims ''expires_at''), as_str (json_index claims ''jti'')) of
         (Some x, Some jti) \<Rightarrow>
           (case cache_offer now jti x c of (c', fresh) \<Rightarrow>
              (Some c', if fresh then d else reject_trust ''reject_local_replay'' (td_key_id d)))
       | _ \<Rightarrow> (Some c, d))"
proof (cases "td_accepted (snd (verify_dispatch_ticket_v2 cd leaf claims sig bundle b now min_version None))")
  case False
  then show ?thesis
    by (auto simp: verify_dispatch_ticket_v2_def split: if_splits option.splits)
next
  case True
  then show ?thesis
    by (auto simp: verify_dispatch_ticket_v2_def cache_offer_def split: if_splits option.splits prod.splits bool.splits)
qed

text \<open>A binding attempt as the relay makes it: the ticket is verified at one reading of the clock and, after the
  checks of the session table, consumed at a later one.\<close>

record bind_attempt =
  ba_token :: string
  ba_worker_id :: string
  ba_now :: int
  ba_consumed :: int

definition bind_with_ticket ::
    "codec \<Rightarrow> (string \<Rightarrow> bind_claims option) \<Rightarrow> string \<Rightarrow> string \<Rightarrow> bind_attempt \<Rightarrow> (string, int) hmap \<Rightarrow> (string, int) hmap \<times> bool" where
  "bind_with_ticket cd claims_of key relay_id a seen =
    (case verify_relay_bind_ticket cd claims_of (ba_token a) key (ba_worker_id a) relay_id (ba_now a) of
       None \<Rightarrow> (seen, False)
     | Some claims \<Rightarrow> consume_relay_bind_ticket claims (ba_consumed a) seen)"

primrec binds_of ::
    "codec \<Rightarrow> (string \<Rightarrow> bind_claims option) \<Rightarrow> string \<Rightarrow> string \<Rightarrow> string \<Rightarrow> bind_attempt list \<Rightarrow> (string, int) hmap \<Rightarrow> nat" where
  "binds_of cd claims_of key relay_id token [] seen = 0"
| "binds_of cd claims_of key relay_id token (a # as) seen =
    (case bind_with_ticket cd claims_of key relay_id a seen of (seen', ok) \<Rightarrow>
       (if ba_token a = token \<and> ok then 1 else 0) + binds_of cd claims_of key relay_id token as seen')"

text \<open>The offers an attempt makes to the cache.\<close>

definition bind_offers :: "codec \<Rightarrow> (string \<Rightarrow> bind_claims option) \<Rightarrow> string \<Rightarrow> string \<Rightarrow> bind_attempt \<Rightarrow> (int, string) presentation list" where
  "bind_offers cd claims_of key relay_id a =
    (case verify_relay_bind_ticket cd claims_of (ba_token a) key (ba_worker_id a) relay_id (ba_now a) of
       None \<Rightarrow> [] | Some claims \<Rightarrow> [(ba_consumed a, bc_jti claims, bc_exp claims)])"

lemma verify_bind_claims:
  assumes "verify_relay_bind_ticket cd claims_of token key worker relay_id now = Some claims"
  shows "now < bc_exp claims \<and> bc_sub claims = worker \<and>
    (\<exists>payload sig_hex. token = payload @ CHR ''.'' # sig_hex \<and> hex_signed cd BIND_DOMAIN key payload sig_hex \<and>
       Option.bind (cd_b64url cd payload) claims_of = Some claims)"
  using assms by (auto simp: verify_relay_bind_ticket_def dest!: split_once_Some split: option.splits prod.splits if_splits)

lemma verify_bind_same:
  assumes "verify_relay_bind_ticket cd claims_of token key worker relay_id now = Some claims"
    and "verify_relay_bind_ticket cd claims_of token key worker' relay_id' now' = Some claims'"
  shows "claims' = claims"
  using assms by (auto simp: verify_relay_bind_ticket_def split: option.splits prod.splits if_splits)

lemma binds_of_taken:
  assumes "verify_relay_bind_ticket cd claims_of token key w r t = Some claims"
  shows "binds_of cd claims_of key relay_id token as seen \<le>
    taken bind_offer (bc_jti claims) (bc_exp claims) (concat (map (bind_offers cd claims_of key relay_id) as)) seen"
proof (induction as arbitrary: seen)
  case (Cons a as)
  show ?case
  proof (cases "verify_relay_bind_ticket cd claims_of (ba_token a) key (ba_worker_id a) relay_id (ba_now a)")
    case None
    then show ?thesis using Cons.IH by (simp add: bind_with_ticket_def bind_offers_def)
  next
    case (Some c)
    obtain seen' ok where o: "bind_offer (ba_consumed a) (bc_jti c) (bc_exp c) seen = (seen', ok)" by fastforce
    have "ba_token a = token \<Longrightarrow> c = claims" using verify_bind_same [OF assms] Some by metis
    then show ?thesis using Cons.IH [of seen'] Some o
      by (auto simp: bind_with_ticket_def bind_offers_def consume_bind_offer)
  qed
qed simp

lemma bind_offers_sorted:
  assumes "sorted (map ba_consumed as)"
  shows "sorted (map fst (concat (map (bind_offers cd claims_of key relay_id) as)))"
proof -
  have m: "t \<in> fst ` set (bind_offers cd claims_of key relay_id a) \<Longrightarrow> t = ba_consumed a" for t a
    by (auto simp: bind_offers_def split: option.splits)
  show ?thesis using assms
    by (induction as) (fastforce simp: sorted_append bind_offers_def split: option.split dest!: m)+
qed

text \<open>A verified ticket is consumed before it expires.\<close>

definition prompt :: "codec \<Rightarrow> (string \<Rightarrow> bind_claims option) \<Rightarrow> string \<Rightarrow> string \<Rightarrow> bind_attempt \<Rightarrow> bool" where
  "prompt cd claims_of key relay_id a =
    (case verify_relay_bind_ticket cd claims_of (ba_token a) key (ba_worker_id a) relay_id (ba_now a) of
       None \<Rightarrow> True | Some claims \<Rightarrow> ba_consumed a < bc_exp claims)"

text \<open>A relay bind ticket is honoured at most once.  Whatever binding attempts reach a relay, consumed in the
  order of its clock and with any tickets for any workers in between, each ticket succeeds at most once,
  provided no ticket expires between its verification and its consumption.  Without that proviso the statement
  is false, see \<open>bind_ticket_race\<close>.\<close>

theorem bind_ticket_used_once:
  assumes "sorted (map ba_consumed as)" and "list_all (prompt cd claims_of key relay_id) as"
  shows "binds_of cd claims_of key relay_id token as [] \<le> 1"
proof (cases "\<exists>a \<in> set as. ba_token a = token \<and>
    verify_relay_bind_ticket cd claims_of (ba_token a) key (ba_worker_id a) relay_id (ba_now a) \<noteq> None")
  case True
  then obtain a0 :: bind_attempt where "verify_relay_bind_ticket cd claims_of token key (ba_worker_id a0) relay_id (ba_now a0) \<noteq> None"
    by blast
  then obtain claims where a: "verify_relay_bind_ticket cd claims_of token key (ba_worker_id a0) relay_id (ba_now a0) = Some claims"
    by blast
  let ?ps = "concat (map (bind_offers cd claims_of key relay_id) as)"
  have "list_all (unexpired (bc_jti claims) (bc_exp claims)) ?ps"
    using assms(2) by (fastforce simp: list_all_iff bind_offers_def prompt_def unexpired_def split: option.splits)
  then have "taken bind_offer (bc_jti claims) (bc_exp claims) ?ps [] \<le> 1"
    using bind.taken_at_most_once [of "[]" ?ps] bind_offers_sorted [OF assms(1)] by simp
  then show ?thesis using binds_of_taken [OF a] le_trans by blast
next
  case False
  have "binds_of cd claims_of key relay_id token bs seen = 0" if "set bs \<subseteq> set as" for bs seen
    using that False by (induction bs arbitrary: seen) (auto simp: bind_with_ticket_def split: prod.split option.split)
  then show ?thesis by simp
qed

definition sample_codec :: codec where
  "sample_codec = \<lparr>cd_hex = (\<lambda>s. Some (take (length s div 2) s)), cd_b64url = Some, cd_usable_key = (\<lambda>_. True),
     cd_verify = (\<lambda>_ _ _. True)\<rparr>"

definition sample_bind :: "string \<Rightarrow> bind_claims option" where
  "sample_bind s = Some \<lparr>bc_v = 1, bc_typ = ''relay-bind-ticket'', bc_jti = replicate 32 CHR ''a'', bc_iss = ''d'', bc_sub = ''w'',
     bc_aud = ''*'', bc_iat = 0, bc_exp = 100\<rparr>"

definition sample_ticket :: string where
  "sample_ticket = ''p.'' @ replicate 128 CHR ''a''"

lemma sample_ticket_verifies:
  "now < 100 \<Longrightarrow> verify_relay_bind_ticket sample_codec sample_bind sample_ticket (replicate 64 CHR ''a'') ''w'' ''r'' now =
     sample_bind ''p''"
  by (simp add: verify_relay_bind_ticket_def sample_ticket_def sample_codec_def sample_bind_def hex_signed_def sized_def
      lower_hex_def ascii_defs list_all_iff)

theorem bind_ticket_used_once_witness:
  "let as = [\<lparr>ba_token = sample_ticket, ba_worker_id = ''w'', ba_now = 1, ba_consumed = 1\<rparr>, \<lparr>ba_token = sample_ticket, ba_worker_id = ''w'', ba_now = 2, ba_consumed = 3\<rparr>];
       key = replicate 64 CHR ''a''
   in binds_of sample_codec sample_bind key ''r'' sample_ticket as [] \<le> 1 \<and>
      snd (bind_with_ticket sample_codec sample_bind key ''r'' (hd as) [])"
proof -
  let ?as = "[\<lparr>ba_token = sample_ticket, ba_worker_id = ''w'', ba_now = 1, ba_consumed = 1\<rparr>, \<lparr>ba_token = sample_ticket, ba_worker_id = ''w'', ba_now = 2, ba_consumed = 3\<rparr>]"
  have "binds_of sample_codec sample_bind (replicate 64 CHR ''a'') ''r'' sample_ticket ?as [] \<le> 1"
    by (rule bind_ticket_used_once) (simp_all add: prompt_def sample_ticket_verifies sample_bind_def)
  moreover have "snd (bind_with_ticket sample_codec sample_bind (replicate 64 CHR ''a'') ''r'' (hd ?as) [])"
    by (simp add: bind_with_ticket_def sample_ticket_verifies) (simp add: sample_bind_def consume_relay_bind_ticket_def hretain_def)
  ultimately show ?thesis by (simp add: Let_def)
qed

text \<open>The race: a ticket that expires at 100 is verified twice at 99 and consumed twice at 100, when the first
  record is already dropped as expired, and both attempts succeed.\<close>

lemma bind_ticket_race:
  "binds_of sample_codec sample_bind (replicate 64 CHR ''a'') ''r'' sample_ticket
     (replicate 2 \<lparr>ba_token = sample_ticket, ba_worker_id = ''w'', ba_now = 99, ba_consumed = 100\<rparr>) [] = 2"
  by (simp add: numeral_2_eq_2 bind_with_ticket_def sample_ticket_verifies)
    (simp add: sample_bind_def consume_relay_bind_ticket_def hretain_def Let_def)

text \<open>Presentations of anchored tickets to a verifier that keeps one cache.\<close>

record ticket_presentation =
  tp_claims :: json
  tp_signature :: string
  tp_bundle :: trust_bundle
  tp_bindings :: ticket_bindings
  tp_minimum :: u64
  tp_now :: u64

definition present :: "codec \<Rightarrow> (json \<Rightarrow> string) \<Rightarrow> ticket_presentation \<Rightarrow> replay_cache option \<Rightarrow> replay_cache option \<times> trust_decision" where
  "present cd leaf p cache =
     verify_dispatch_ticket_v2 cd leaf (tp_claims p) (tp_signature p) (tp_bundle p) (tp_bindings p) (tp_now p) (tp_minimum p) cache"

primrec anchored_of :: "codec \<Rightarrow> (json \<Rightarrow> string) \<Rightarrow> json \<Rightarrow> ticket_presentation list \<Rightarrow> replay_cache option \<Rightarrow> nat" where
  "anchored_of cd leaf claims [] cache = 0"
| "anchored_of cd leaf claims (p # ps) cache = (case present cd leaf p cache of (cache', d) \<Rightarrow>
     (if tp_claims p = claims \<and> td_accepted d then 1 else 0) + anchored_of cd leaf claims ps cache')"

definition anchored_offers :: "codec \<Rightarrow> (json \<Rightarrow> string) \<Rightarrow> ticket_presentation \<Rightarrow> (u64, string) presentation list" where
  "anchored_offers cd leaf p =
    (if td_accepted (snd (present cd leaf p None)) then
       (case (as_u64 (json_index (tp_claims p) ''expires_at''), as_str (json_index (tp_claims p) ''jti'')) of
          (Some x, Some jti) \<Rightarrow> [(tp_now p, jti, x)] | _ \<Rightarrow> [])
     else [])"

text \<open>A presentation is the offers it makes.\<close>

lemma present_offers:
  "(td_accepted (snd (present cd leaf p None)) \<and>
      (\<exists>x jti. json_index (tp_claims p) ''expires_at'' = JPos x \<and> json_index (tp_claims p) ''jti'' = JStr jti \<and> tp_now p < x \<and>
         anchored_offers cd leaf p = [(tp_now p, jti, x)] \<and>
         (\<forall>c. fst (present cd leaf p (Some c)) = Some (fst (cache_offer (tp_now p) jti x c)) \<and>
              td_accepted (snd (present cd leaf p (Some c))) = snd (cache_offer (tp_now p) jti x c)))) \<or>
   (\<not> td_accepted (snd (present cd leaf p None)) \<and> anchored_offers cd leaf p = [] \<and>
      (\<forall>c. fst (present cd leaf p (Some c)) = Some c \<and> \<not> td_accepted (snd (present cd leaf p (Some c)))))"
proof -
  obtain n d where v: "present cd leaf p None = (n, d)" by fastforce
  note cached = verify_v2_cached [of cd leaf "tp_claims p" "tp_signature p" "tp_bundle p" "tp_bindings p" "tp_now p" "tp_minimum p",
    folded present_def, unfolded v prod.case]
  show ?thesis
  proof (cases "td_accepted d")
    case True
    from verify_v2_accepted [OF v [unfolded present_def] True] obtain x jti where
      c: "json_index (tp_claims p) ''expires_at'' = JPos x" "json_index (tp_claims p) ''jti'' = JStr jti" "tp_now p < x"
      unfolding anchored_facts_def by blast
    have "fst (present cd leaf p (Some e)) = Some (fst (cache_offer (tp_now p) jti x e)) \<and>
        td_accepted (snd (present cd leaf p (Some e))) = snd (cache_offer (tp_now p) jti x e)" for e
      using cached [of e] c True by (cases "cache_offer (tp_now p) jti x e") simp
    with c v True show ?thesis by (simp add: anchored_offers_def)
  next
    case False
    with v cached show ?thesis by (simp add: anchored_offers_def)
  qed
qed

lemma anchored_of_taken:
  assumes "json_index claims ''expires_at'' = JPos x" and "json_index claims ''jti'' = JStr jti"
  shows "anchored_of cd leaf claims ps (Some c) \<le> taken cache_offer jti x (concat (map (anchored_offers cd leaf) ps)) c"
proof (induction ps arbitrary: c)
  case (Cons p ps)
  show ?case
  proof (cases "td_accepted (snd (present cd leaf p None))")
    case True
    then obtain y j where p: "json_index (tp_claims p) ''expires_at'' = JPos y" "json_index (tp_claims p) ''jti'' = JStr j"
      "anchored_offers cd leaf p = [(tp_now p, j, y)]"
      "fst (present cd leaf p (Some c)) = Some (fst (cache_offer (tp_now p) j y c))"
      "td_accepted (snd (present cd leaf p (Some c))) = snd (cache_offer (tp_now p) j y c)"
      using present_offers [of cd leaf p] by auto
    then have "tp_claims p = claims \<Longrightarrow> j = jti \<and> y = x" using assms by simp
    with p Cons.IH [of "fst (cache_offer (tp_now p) j y c)"] show ?thesis
      by (cases "present cd leaf p (Some c)"; cases "cache_offer (tp_now p) j y c") auto
  next
    case False
    then have "anchored_offers cd leaf p = []" "fst (present cd leaf p (Some c)) = Some c"
      "\<not> td_accepted (snd (present cd leaf p (Some c)))"
      using present_offers [of cd leaf p] by auto
    with Cons.IH [of c] show ?thesis by (cases "present cd leaf p (Some c)") auto
  qed
qed simp

lemma anchored_offers_sorted:
  assumes "sorted (map tp_now ps)"
  shows "sorted (map fst (concat (map (anchored_offers cd leaf) ps)))"
proof -
  have m: "t \<in> set (anchored_offers cd leaf a) \<Longrightarrow> fst t = tp_now a" for t a
    using present_offers [of cd leaf a] by auto
  have s: "sorted (map fst (anchored_offers cd leaf a))" for a
    using present_offers [of cd leaf a] by auto
  show ?thesis using assms
  proof (induction ps)
    case (Cons p ps)
    have "fst a \<le> fst b" if "a \<in> set (anchored_offers cd leaf p)" "q \<in> set ps" "b \<in> set (anchored_offers cd leaf q)" for a b q
      using Cons.prems that m by simp
    with Cons s show ?case by (auto simp: sorted_append)
  qed simp
qed

text \<open>C33. A verifier with a local replay cache accepts an anchored ticket at most once.  Over any presentations in
  the order of its clock, with any bundles, bindings and other tickets in between, the same claims are accepted
  at most once.\<close>

theorem anchored_ticket_once:
  assumes "sorted (map tp_now ps)"
  shows "anchored_of cd leaf claims ps (Some []) \<le> 1"
proof (cases "\<exists>x jti. json_index claims ''expires_at'' = JPos x \<and> json_index claims ''jti'' = JStr jti")
  case True
  then obtain x jti where c: "json_index claims ''expires_at'' = JPos x" "json_index claims ''jti'' = JStr jti" by blast
  let ?os = "concat (map (anchored_offers cd leaf) ps)"
  have "unexpired jti x q" if "q \<in> set (anchored_offers cd leaf p)" for q p
    using that present_offers [of cd leaf p] by (auto simp: unexpired_def)
  then have "list_all (unexpired jti x) ?os" by (auto simp: list_all_iff)
  then have "taken cache_offer jti x ?os [] \<le> 1"
    using anchored.taken_at_most_once [of "[]" ?os] anchored_offers_sorted [OF assms] by simp
  then show ?thesis using anchored_of_taken [OF c] le_trans by blast
next
  case False
  then have none: "tp_claims p = claims \<Longrightarrow> \<not> td_accepted (snd (present cd leaf p None))" for p
    using present_offers [of cd leaf p] by metis
  have "anchored_of cd leaf claims ps (Some c) = 0" for c
  proof (induction ps arbitrary: c)
    case (Cons p ps)
    obtain c' where "fst (present cd leaf p (Some c)) = Some c'" using present_offers [of cd leaf p] by metis
    moreover have "tp_claims p = claims \<Longrightarrow> \<not> td_accepted (snd (present cd leaf p (Some c)))"
      using none [of p] present_offers [of cd leaf p] by auto
    ultimately show ?case using Cons.IH [of c'] by (cases "present cd leaf p (Some c)") auto
  qed simp
  then show ?thesis by simp
qed

definition sample_claims :: json where
  "sample_claims = JObj [(''profile'', JStr PROFILE_V2), (''key_id'', JStr ''k''), (''issuer'', JStr ''d''), (''provider_id'', JStr ''p''),
     (''intent'', JStr ''i''), (''constraints_digest'', JStr ''c''), (''expires_at'', JPos 100), (''jti'', JStr ''t'')]"

definition sample_presentation :: "u64 \<Rightarrow> ticket_presentation" where
  "sample_presentation now = \<lparr>tp_claims = sample_claims, tp_signature = replicate 64 CHR ''s'',
     tp_bundle = \<lparr>tb_bundle_version = 1, tb_keys = [\<lparr>tk_key_id = ''k'', tk_public_key_b64url = replicate 32 CHR ''k'', tk_state = ''active'',
        tk_valid_from = 0, tk_valid_until = 1000, tk_allowed_profiles = [], tk_issuers = [], tk_audiences = []\<rparr>],
        tb_issuer = None, tb_valid_from = None, tb_valid_until = None\<rparr>,
     tp_bindings = \<lparr>bi_issuer = ''d'', bi_provider_id = ''p'', bi_intent = ''i'', bi_constraints_digest = ''c'', bi_audience = None\<rparr>,
     tp_minimum = 1, tp_now = now\<rparr>"

theorem anchored_ticket_once_witness:
  "let ps = [sample_presentation 1, sample_presentation 2]
   in anchored_of sample_codec (\<lambda>_. []) sample_claims ps (Some []) \<le> 1 \<and>
      td_accepted (snd (present sample_codec (\<lambda>_. []) (hd ps) (Some [])))"
proof -
  let ?ps = "[sample_presentation 1, sample_presentation 2]"
  have "anchored_of sample_codec (\<lambda>_. []) sample_claims ?ps (Some []) \<le> 1"
    by (rule anchored_ticket_once) (simp add: sample_presentation_def u64_le_iff)
  moreover have "td_accepted (snd (present sample_codec (\<lambda>_. []) (hd ?ps) (Some [])))"
    by (simp add: present_def sample_presentation_def sample_claims_def sample_codec_def verify_dispatch_ticket_v2_def claim_is_def
        json_access key_serves_def claims_bound_def trust_signature_valid_def sized_def cache_contains_def hretain_def u64_simps
        PROFILE_V2_def)
  ultimately show ?thesis by (simp add: Let_def)
qed

end
