(* ===== verification/Trust_Store.thy ===== *)
theory Trust_Store
  imports Tickets
begin

text \<open>
  The file that keeps the trust bundle of anchored tickets: \<^verbatim>\<open>FileDispatchTrustBundleStore\<close> of
  \<^verbatim>\<open>src/dispatch_ticket_trust.rs\<close> with \<^verbatim>\<open>load\<close>, \<^verbatim>\<open>install\<close> and \<^verbatim>\<open>recover\<close>.

  The file is replaced by an atomic rename, so it is absent, holds a state that decodes, or is garbled
  by someone else.  What the operating system can refuse is the record \<open>store_io\<close> of an operation: the lock,
  the reading of the file, and the commit, which fails before or after the rename.
\<close>

record trust_state =
  ts_bundle_b64 :: string
  ts_bundle_digest :: string
  ts_bundle_version :: u64
  ts_high_water :: u64

datatype trust_file = NoFile | Garbled string | Holds trust_state

record stored_bundle =
  sb_bundle :: trust_bundle
  sb_canonical_bytes :: string
  sb_digest :: string
  sb_high_water :: u64

datatype install_status = Installed | Unchanged | Stale | Conflicting | Recovered | RecoveryRequired

record install_result =
  ir_status :: install_status
  ir_state :: "stored_bundle option"

record recovery_authorization =
  au_reason :: string
  au_minimum_high_water :: u64

datatype store_error = Corrupt string | Locked | Permissions | Io string

record store_io =
  si_lock :: "store_error option"
  si_read :: "store_error option"
  si_commit :: "(bool \<times> store_error) option"

text \<open>Third-party encodings: base64, SHA-256 in hexadecimal, the length of a printed state, the JSON parser at
  the bundle type and the JSON printer of scalars.\<close>

record store_codec =
  sc_b64_encode :: "string \<Rightarrow> string"
  sc_b64_decode :: "string \<Rightarrow> string option"
  sc_sha_hex :: "string \<Rightarrow> string"
  sc_state_size :: "trust_state \<Rightarrow> nat"
  sc_parse_bundle :: "string \<Rightarrow> trust_bundle option"
  sc_leaf :: "json \<Rightarrow> string"

subsection \<open>Canonical form\<close>

definition canonical_key :: "trust_key \<Rightarrow> trust_key" where
  "canonical_key k = k\<lparr>tk_allowed_profiles := (if tk_allowed_profiles k = [] then [PROFILE_V2] else sort (tk_allowed_profiles k)),
     tk_issuers := sort (tk_issuers k), tk_audiences := sort (tk_audiences k)\<rparr>"

definition canonical_bundle :: "trust_bundle \<Rightarrow> trust_bundle" where
  "canonical_bundle b = b\<lparr>tb_keys := map canonical_key (sort_key tk_key_id (tb_keys b))\<rparr>"

definition strings_json :: "string list \<Rightarrow> json" where
  "strings_json xs = JArr (map JStr xs)"

definition key_json :: "trust_key \<Rightarrow> json" where
  "key_json k = JObj [(''key_id'', JStr (tk_key_id k)), (''public_key_b64url'', JStr (tk_public_key_b64url k)),
     (''state'', JStr (tk_state k)), (''valid_from'', JPos (tk_valid_from k)), (''valid_until'', JPos (tk_valid_until k)),
     (''allowed_profiles'', strings_json (tk_allowed_profiles k)), (''issuers'', strings_json (tk_issuers k)),
     (''audiences'', strings_json (tk_audiences k))]"

definition bundle_json :: "trust_bundle \<Rightarrow> json" where
  "bundle_json b = JObj ([(''bundle_version'', JPos (tb_bundle_version b)), (''keys'', JArr (map key_json (tb_keys b)))] @
     (case tb_issuer b of Some i \<Rightarrow> [(''issuer'', JStr i)] | None \<Rightarrow> []) @
     (case tb_valid_from b of Some t \<Rightarrow> [(''valid_from'', JPos t)] | None \<Rightarrow> []) @
     (case tb_valid_until b of Some t \<Rightarrow> [(''valid_until'', JPos t)] | None \<Rightarrow> []))"

definition canonical_dispatch_trust_bundle :: "store_codec \<Rightarrow> trust_bundle \<Rightarrow> string" where
  "canonical_dispatch_trust_bundle sc b = canonical_ticket_claims (sc_leaf sc) (bundle_json (canonical_bundle b))"

definition sha256_digest :: "store_codec \<Rightarrow> string \<Rightarrow> string" where
  "sha256_digest sc bytes = ''sha256:'' @ sc_sha_hex sc bytes"

subsection \<open>Operations\<close>

definition MAX_STATE_BYTES :: nat where
  "MAX_STATE_BYTES = 4 * 1024 * 1024"

definition decode_state :: "store_codec \<Rightarrow> trust_state \<Rightarrow> store_error + stored_bundle" where
  "decode_state sc state =
    (if sc_state_size sc state > MAX_STATE_BYTES then Inl (Corrupt ''state exceeds size limit'')
     else case sc_b64_decode sc (ts_bundle_b64 state) of None \<Rightarrow> Inl (Corrupt ''base64'') | Some canonical_bytes \<Rightarrow>
     if sha256_digest sc canonical_bytes \<noteq> ts_bundle_digest state then Inl (Corrupt ''bundle digest mismatch'')
     else case sc_parse_bundle sc canonical_bytes of None \<Rightarrow> Inl (Corrupt ''bundle'') | Some bundle \<Rightarrow>
     if tb_bundle_version bundle \<noteq> ts_bundle_version state \<or> ts_high_water state < tb_bundle_version bundle
     then Inl (Corrupt ''bundle version/high-water mismatch'')
     else if canonical_dispatch_trust_bundle sc bundle \<noteq> canonical_bytes then Inl (Corrupt ''bundle is not canonical'')
     else Inr \<lparr>sb_bundle = bundle, sb_canonical_bytes = canonical_bytes, sb_digest = sha256_digest sc canonical_bytes,
               sb_high_water = ts_high_water state\<rparr>)"

definition load :: "store_codec \<Rightarrow> store_io \<Rightarrow> trust_file \<Rightarrow> store_error + stored_bundle option" where
  "load sc io file =
    (case file of NoFile \<Rightarrow> Inr None
     | Garbled e \<Rightarrow> (case si_read io of Some err \<Rightarrow> Inl err | None \<Rightarrow> Inl (Corrupt e))
     | Holds state \<Rightarrow>
         (case si_read io of Some err \<Rightarrow> Inl err
          | None \<Rightarrow> (case decode_state sc state of Inl e \<Rightarrow> Inl e | Inr s \<Rightarrow> Inr (Some s))))"

definition state_for :: "store_codec \<Rightarrow> trust_bundle \<Rightarrow> u64 \<Rightarrow> trust_state" where
  "state_for sc bundle high_water =
    (let bytes = canonical_dispatch_trust_bundle sc bundle
     in \<lparr>ts_bundle_b64 = sc_b64_encode sc bytes, ts_bundle_digest = sha256_digest sc bytes,
         ts_bundle_version = tb_bundle_version bundle, ts_high_water = high_water\<rparr>)"

definition commit ::
    "store_codec \<Rightarrow> store_io \<Rightarrow> trust_bundle \<Rightarrow> u64 \<Rightarrow> trust_file \<Rightarrow> trust_file \<times> (store_error + stored_bundle)" where
  "commit sc io bundle high_water file =
    (case si_commit io of
       Some (renamed, e) \<Rightarrow> (if renamed then Holds (state_for sc bundle high_water) else file, Inl e)
     | None \<Rightarrow>
         (let bytes = canonical_dispatch_trust_bundle sc bundle
          in (Holds (state_for sc bundle high_water),
              Inr \<lparr>sb_bundle = bundle, sb_canonical_bytes = bytes, sb_digest = sha256_digest sc bytes, sb_high_water = high_water\<rparr>)))"

definition current_high_water :: "stored_bundle option \<Rightarrow> u64" where
  "current_high_water current = (case current of Some s \<Rightarrow> sb_high_water s | None \<Rightarrow> 0)"

definition install ::
    "store_codec \<Rightarrow> store_io \<Rightarrow> trust_bundle \<Rightarrow> u64 option \<Rightarrow> trust_file \<Rightarrow> trust_file \<times> (store_error + install_result)" where
  "install sc io bundle expected file =
    (case si_lock io of Some e \<Rightarrow> (file, Inl e) | None \<Rightarrow>
    (case load sc io file of Inl e \<Rightarrow> (file, Inl e) | Inr current \<Rightarrow>
     let current_version = map_option (\<lambda>s. tb_bundle_version (sb_bundle s)) current;
         high_water = current_high_water current
     in if expected \<noteq> None \<and> expected \<noteq> current_version
        then (file, Inr \<lparr>ir_status = Conflicting, ir_state = current\<rparr>)
        else if tb_bundle_version bundle < high_water then (file, Inr \<lparr>ir_status = Stale, ir_state = current\<rparr>)
        else if current_version = Some (tb_bundle_version bundle) then
          (file, Inr \<lparr>ir_status = (if (case current of Some s \<Rightarrow> sb_digest s = sha256_digest sc (canonical_dispatch_trust_bundle sc bundle)
                                       | None \<Rightarrow> False) then Unchanged else Conflicting),
                      ir_state = current\<rparr>)
        else (case commit sc io bundle (max high_water (tb_bundle_version bundle)) file of
                (file', Inl e) \<Rightarrow> (file', Inl e)
              | (file', Inr s) \<Rightarrow> (file', Inr \<lparr>ir_status = Installed, ir_state = Some s\<rparr>))))"

definition recover ::
    "store_codec \<Rightarrow> store_io \<Rightarrow> trust_bundle \<Rightarrow> recovery_authorization option \<Rightarrow> trust_file
      \<Rightarrow> trust_file \<times> (store_error + install_result)" where
  "recover sc io bundle authorization file =
    (case (case authorization of Some a \<Rightarrow> if trim (au_reason a) = [] then None else Some a | None \<Rightarrow> None) of
       None \<Rightarrow> (file, Inr \<lparr>ir_status = RecoveryRequired, ir_state = None\<rparr>)
     | Some a \<Rightarrow>
    (case si_lock io of Some e \<Rightarrow> (file, Inl e) | None \<Rightarrow>
    (case (case load sc io file of Inr s \<Rightarrow> Inr s | Inl (Corrupt _) \<Rightarrow> Inr None | Inl e \<Rightarrow> Inl e) of
       Inl e \<Rightarrow> (file, Inl e)
     | Inr current \<Rightarrow>
         (case commit sc io bundle (max (max (current_high_water current) (au_minimum_high_water a)) (tb_bundle_version bundle)) file of
            (file', Inl e) \<Rightarrow> (file', Inl e)
          | (file', Inr s) \<Rightarrow> (file', Inr \<lparr>ir_status = Recovered, ir_state = Some s\<rparr>)))))"

subsection \<open>Canonical bundles are read back\<close>

lemma sort_key_sorted: "sorted (map f xs) \<Longrightarrow> sort_key f xs = xs"
  by (induction xs) (auto simp: insort_is_Cons)

lemma sort_sort [simp]: "sort (sort xs) = sort xs"
  by (rule sort_key_sorted) simp

lemma sort_eq_Nil [simp]: "sort xs = [] \<longleftrightarrow> xs = []"
  by (metis set_empty set_sort)

lemma canonical_key_idem: "canonical_key (canonical_key k) = canonical_key k"
  by (simp add: canonical_key_def)

lemma canonical_bundle_idem: "canonical_bundle (canonical_bundle b) = canonical_bundle b"
proof -
  let ?ks = "map canonical_key (sort_key tk_key_id (tb_keys b))"
  have "map tk_key_id ?ks = map tk_key_id (sort_key tk_key_id (tb_keys b))"
    by (simp add: canonical_key_def)
  then have "sort_key tk_key_id ?ks = ?ks" by (intro sort_key_sorted) (simp del: map_map)
  then show ?thesis by (simp add: canonical_bundle_def canonical_key_idem o_def)
qed

lemma canonical_bundle_version [simp]: "tb_bundle_version (canonical_bundle b) = tb_bundle_version b"
  by (simp add: canonical_bundle_def)

text \<open>What the store needs of the encodings for the bundles it is given: base64 decodes what it encoded, the
  parser reads back a printed canonical bundle, and the printed state fits the size limit.\<close>

definition codec_ok :: "store_codec \<Rightarrow> trust_bundle set \<Rightarrow> bool" where
  "codec_ok sc B \<longleftrightarrow> (\<forall>s. sc_b64_decode sc (sc_b64_encode sc s) = Some s) \<and>
     (\<forall>b \<in> B. sc_parse_bundle sc (canonical_dispatch_trust_bundle sc b) = Some (canonical_bundle b) \<and>
       (\<forall>h. sc_state_size sc (state_for sc b h) \<le> MAX_STATE_BYTES))"

lemma decode_state_for:
  assumes "codec_ok sc B" and "b \<in> B" and "tb_bundle_version b \<le> h"
  shows "decode_state sc (state_for sc b h) =
    Inr \<lparr>sb_bundle = canonical_bundle b, sb_canonical_bytes = canonical_dispatch_trust_bundle sc b,
         sb_digest = sha256_digest sc (canonical_dispatch_trust_bundle sc b), sb_high_water = h\<rparr>"
proof -
  have "canonical_dispatch_trust_bundle sc (canonical_bundle b) = canonical_dispatch_trust_bundle sc b"
    by (simp add: canonical_dispatch_trust_bundle_def canonical_bundle_idem)
  then show ?thesis using assms unfolding codec_ok_def
    by (simp add: decode_state_def state_for_def Let_def not_less)
qed

subsection \<open>No rollback\<close>

datatype store_op =
    Install store_io trust_bundle "u64 option"
  | Recover store_io trust_bundle "recovery_authorization option"

primrec store_step :: "store_codec \<Rightarrow> store_op \<Rightarrow> trust_file \<Rightarrow> trust_file \<times> (store_error + install_result)" where
  "store_step sc (Install io b expected) f = install sc io b expected f"
| "store_step sc (Recover io b a) f = recover sc io b a f"

primrec op_bundle :: "store_op \<Rightarrow> trust_bundle" where
  "op_bundle (Install io b expected) = b"
| "op_bundle (Recover io b a) = b"

text \<open>A recovery that finds the file unreadable for its permissions starts from nothing; here the file is
  readable whenever a recovery takes the lock.\<close>

primrec op_reads :: "store_op \<Rightarrow> bool" where
  "op_reads (Install io b expected) \<longleftrightarrow> True"
| "op_reads (Recover io b a) \<longleftrightarrow> si_read io = None"

text \<open>The versions the operations put in force, in order.\<close>

definition put_in_force :: "store_error + install_result \<Rightarrow> (install_status \<times> u64) list" where
  "put_in_force r =
    (case r of Inl _ \<Rightarrow> []
     | Inr res \<Rightarrow>
         (case ir_state res of None \<Rightarrow> []
          | Some s \<Rightarrow> if ir_status res \<in> {Installed, Recovered} then [(ir_status res, tb_bundle_version (sb_bundle s))] else []))"

primrec versions_in_force :: "store_codec \<Rightarrow> store_op list \<Rightarrow> trust_file \<Rightarrow> (install_status \<times> u64) list" where
  "versions_in_force sc [] f = []"
| "versions_in_force sc (c # cs) f =
    (case store_step sc c f of (f', r) \<Rightarrow> put_in_force r @ versions_in_force sc cs f')"

definition water :: "trust_file \<Rightarrow> u64" where
  "water f = (case f of Holds st \<Rightarrow> ts_high_water st | _ \<Rightarrow> 0)"

definition file_ok :: "store_codec \<Rightarrow> trust_bundle set \<Rightarrow> trust_file \<Rightarrow> bool" where
  "file_ok sc B f \<longleftrightarrow> f = NoFile \<or> (\<exists>b \<in> B. \<exists>h. tb_bundle_version b \<le> h \<and> f = Holds (state_for sc b h))"

lemma water_state_for [simp]: "water (Holds (state_for sc b h)) = h"
  by (simp add: water_def state_for_def Let_def)

lemma load_water:
  assumes "codec_ok sc B" and "file_ok sc B f" and "load sc io f = Inr current"
  shows "current_high_water current = water f \<and> (case current of None \<Rightarrow> f = NoFile
    | Some s \<Rightarrow> tb_bundle_version (sb_bundle s) \<le> water f)"
  using assms decode_state_for [OF assms(1)]
  by (auto simp: file_ok_def load_def current_high_water_def water_def state_for_def Let_def split: option.splits sum.splits)

lemma load_not_corrupt:
  assumes "codec_ok sc B" and "file_ok sc B f" and "si_read io = None"
  shows "\<exists>current. load sc io f = Inr current"
  using assms decode_state_for [OF assms(1)] by (auto simp: file_ok_def load_def)

text \<open>What a commit does to the high-water mark.\<close>

lemma commit_step:
  assumes "commit sc io b h f = (f', r)" and "b \<in> B" and "tb_bundle_version b \<le> h" and "water f \<le> h" and "file_ok sc B f"
  shows "file_ok sc B f' \<and> water f \<le> water f' \<and> (\<forall>s. r = Inr s \<longrightarrow> water f' = h \<and> sb_bundle s = b)"
  using assms by (auto simp: commit_def file_ok_def Let_def split: option.splits prod.splits if_splits)

lemma install_step:
  assumes "codec_ok sc B" and "file_ok sc B f" and "b \<in> B" and "install sc io b expected f = (f', r)"
  shows "file_ok sc B f' \<and> water f \<le> water f' \<and>
    (\<forall>(st, v) \<in> set (put_in_force r). st = Installed \<and> v = tb_bundle_version b \<and> water f \<le> v \<and> water f' = v)"
proof (cases "file_ok sc B f' \<and> f' = f \<and> put_in_force r = []")
  case False
  from assms False obtain current where cur: "load sc io f = Inr current" "\<not> tb_bundle_version b < current_high_water current"
    and com: "(f', r) = (case commit sc io b (max (current_high_water current) (tb_bundle_version b)) f of
                (file', Inl e) \<Rightarrow> (file', Inl e)
              | (file', Inr s) \<Rightarrow> (file', Inr \<lparr>ir_status = Installed, ir_state = Some s\<rparr>))"
    unfolding install_def Let_def by (auto simp: put_in_force_def split: option.splits sum.splits if_splits)
  obtain g q where g: "commit sc io b (max (current_high_water current) (tb_bundle_version b)) f = (g, q)" by fastforce
  have w: "current_high_water current = water f" using load_water [OF assms(1,2) cur(1)] by simp
  with cur(2) have v: "max (current_high_water current) (tb_bundle_version b) = tb_bundle_version b" "water f \<le> tb_bundle_version b"
    by auto
  from commit_step [OF g [unfolded v(1)] assms(3) order.refl v(2) assms(2)] com g v show ?thesis
    by (cases q) (auto simp: put_in_force_def)
qed auto

lemma recover_step:
  assumes "codec_ok sc B" and "file_ok sc B f" and "b \<in> B" and "si_read io = None" and "recover sc io b a f = (f', r)"
  shows "file_ok sc B f' \<and> water f \<le> water f' \<and>
    (\<forall>(st, v) \<in> set (put_in_force r). st = Recovered \<and> v = tb_bundle_version b \<and> v \<le> water f')"
proof (cases "file_ok sc B f' \<and> f' = f \<and> put_in_force r = []")
  case False
  obtain current where cur: "load sc io f = Inr current" using load_not_corrupt [OF assms(1,2,4)] by blast
  let ?h = "\<lambda>a. max (max (current_high_water current) (au_minimum_high_water a)) (tb_bundle_version b)"
  from assms(5) False cur assms(2) obtain a' :: recovery_authorization where
    com: "(case commit sc io b (?h a') f of
                (file', Inl e) \<Rightarrow> (file', Inl e)
              | (file', Inr s) \<Rightarrow> (file', Inr \<lparr>ir_status = Recovered, ir_state = Some s\<rparr>)) = (f', r)"
    unfolding recover_def by (auto simp: put_in_force_def split: option.splits if_splits)
  obtain g q where g: "commit sc io b (?h a') f = (g, q)" by fastforce
  have "water f \<le> ?h a'" using load_water [OF assms(1,2) cur] by (simp add: max.coboundedI1)
  from commit_step [OF g assms(3) _ this assms(2)] com g show ?thesis
    by (cases q) (auto simp: put_in_force_def)
qed auto

lemma put_in_force_length: "length (put_in_force r) \<le> 1"
  by (simp add: put_in_force_def split: sum.split option.split)

lemma store_step_ok:
  assumes "codec_ok sc B" and "file_ok sc B f" and "op_bundle c \<in> B" and "op_reads c" and "store_step sc c f = (f', r)"
  shows "file_ok sc B f' \<and> water f \<le> water f' \<and>
    (\<forall>(st, v) \<in> set (put_in_force r). v \<le> water f' \<and> (st = Installed \<longrightarrow> water f \<le> v)) \<and> length (put_in_force r) \<le> 1"
proof (cases c)
  case (Install io b expected)
  then have "op_bundle c = b" "install sc io b expected f = (f', r)" using assms(5) by simp_all
  with install_step [OF assms(1,2), of b io expected f' r] assms(3) put_in_force_length [of r] show ?thesis by auto
next
  case (Recover io b a)
  then have "op_bundle c = b" "recover sc io b a f = (f', r)" "si_read io = None" using assms(4,5) by simp_all
  with recover_step [OF assms(1,2), of b io a f' r] assms(3) put_in_force_length [of r] show ?thesis by auto
qed

lemma versions_above_water:
  assumes "codec_ok sc B" and "file_ok sc B f" and "list_all (\<lambda>c. op_bundle c \<in> B \<and> op_reads c) cs"
  shows "(\<forall>(st, v) \<in> set (versions_in_force sc cs f). st = Installed \<longrightarrow> water f \<le> v) \<and>
    sorted_wrt (\<lambda>(_, u) (st, v). st = Installed \<longrightarrow> u \<le> v) (versions_in_force sc cs f)"
  using assms(2,3)
proof (induction cs arbitrary: f)
  case (Cons c cs)
  obtain f' r where s: "store_step sc c f = (f', r)" by fastforce
  have ok: "file_ok sc B f'" "water f \<le> water f'" "length (put_in_force r) \<le> 1"
    "\<And>st v. (st, v) \<in> set (put_in_force r) \<Longrightarrow> v \<le> water f' \<and> (st = Installed \<longrightarrow> water f \<le> v)"
    using store_step_ok [OF assms(1) Cons.prems(1) _ _ s] Cons.prems(2) by auto
  from ok(3) have one: "sorted_wrt R (put_in_force r)" for R
    by (cases "put_in_force r") auto
  have ih: "\<And>st v. (st, v) \<in> set (versions_in_force sc cs f') \<Longrightarrow> st = Installed \<Longrightarrow> water f' \<le> v"
    "sorted_wrt (\<lambda>(_, u) (st, v). st = Installed \<longrightarrow> u \<le> v) (versions_in_force sc cs f')"
    using Cons.IH [OF ok(1)] Cons.prems(2) by auto
  have "\<And>st v. (st, v) \<in> set (versions_in_force sc cs f') \<Longrightarrow> st = Installed \<Longrightarrow> water f \<le> v"
    using ih(1) ok(2) order_trans by blast
  moreover have "\<And>a u st v. (a, u) \<in> set (put_in_force r) \<Longrightarrow> (st, v) \<in> set (versions_in_force sc cs f') \<Longrightarrow> st = Installed \<Longrightarrow> u \<le> v"
    using ih(1) ok(4) order_trans by blast
  ultimately show ?case using s one ih(2) ok(4) by (auto simp: sorted_wrt_append)
qed simp

text \<open>C10. The trust store never rolls back.  Whatever bundles are offered to a fresh store, through installations
  and authorised recoveries, with locks refused, commits failing before or after the rename and any
  expectations of the callers, every version an installation puts in force is at least as high as every
  version put in force before it, by an installation or a recovery.  The encodings have to read back the
  bundles offered (\<open>codec_ok\<close>), and a recovery has to be able to read the file: one that finds it unreadable
  starts from nothing.\<close>

theorem trust_store_no_rollback:
  assumes "codec_ok sc (set (map op_bundle cs))" and "list_all op_reads cs"
  shows "sorted_wrt (\<lambda>(_, u) (st, v). st = Installed \<longrightarrow> u \<le> v) (versions_in_force sc cs NoFile)"
  using versions_above_water [OF assms(1), of NoFile cs] assms(2) by (auto simp: file_ok_def list_all_iff)

definition sample_bundle :: "u64 \<Rightarrow> trust_bundle" where
  "sample_bundle v = \<lparr>tb_bundle_version = v, tb_keys = [], tb_issuer = None, tb_valid_from = None, tb_valid_until = None\<rparr>"

definition sample_store_codec :: store_codec where
  "sample_store_codec = \<lparr>sc_b64_encode = (\<lambda>s. s), sc_b64_decode = Some, sc_sha_hex = (\<lambda>s. s), sc_state_size = (\<lambda>_. 0),
     sc_parse_bundle = (\<lambda>s. Some (sample_bundle (if CHR ''7'' \<in> set s then 7 else 8))),
     sc_leaf = (\<lambda>j. case j of JPos n \<Rightarrow> if n = 7 then ''7'' else ''8'' | _ \<Rightarrow> ''-'')\<rparr>"

definition quiet_io :: store_io where
  "quiet_io = \<lparr>si_lock = None, si_read = None, si_commit = None\<rparr>"

theorem trust_store_no_rollback_witness:
  "let cs = [Install quiet_io (sample_bundle 7) None, Install quiet_io (sample_bundle 8) (Some 7), Install quiet_io (sample_bundle 7) None];
       vs = versions_in_force sample_store_codec cs NoFile
   in vs = [(Installed, 7), (Installed, 8)] \<and> sorted_wrt (\<lambda>(_, u) (st, v). st = Installed \<longrightarrow> u \<le> v) vs"
proof -
  let ?cs = "[Install quiet_io (sample_bundle 7) None, Install quiet_io (sample_bundle 8) (Some 7), Install quiet_io (sample_bundle 7) None]"
  have canon: "canonical_bundle (sample_bundle v) = sample_bundle v" for v
    by (simp add: canonical_bundle_def sample_bundle_def)
  have printed: "canonical_dispatch_trust_bundle sample_store_codec (sample_bundle v) =
      ''{-:'' @ (if v = 7 then ''7'' else ''8'') @ '',-:[]}''" for v
    by (simp add: canonical_dispatch_trust_bundle_def canon) (simp add: sample_bundle_def bundle_json_def sample_store_codec_def)
  have ok: "codec_ok sample_store_codec {sample_bundle 7, sample_bundle 8}"
    by (simp add: codec_ok_def printed canon) (simp add: sample_store_codec_def)
  have vs: "versions_in_force sample_store_codec ?cs NoFile = [(Installed, 7), (Installed, 8)]"
    using decode_state_for [OF ok]
    by (simp add: install_def load_def quiet_io_def commit_def put_in_force_def current_high_water_def canon Let_def
        sample_bundle_def u64_simps)
  have "sorted_wrt (\<lambda>(_, u) (st, v). st = Installed \<longrightarrow> u \<le> v) (versions_in_force sample_store_codec ?cs NoFile)"
    using trust_store_no_rollback [of sample_store_codec ?cs] ok by (simp add: insert_commute)
  then show ?thesis using vs by (simp add: Let_def)
qed

text \<open>What was committed is what is loaded: after an installation or recovery that succeeds, loading gives the
  same bundle in canonical form, its digest and the new high-water mark.\<close>

lemma committed_bundle_loads:
  assumes "codec_ok sc {b}" and "commit sc io b h f = (f', Inr s)" and "tb_bundle_version b \<le> h" and "si_read io' = None"
  shows "load sc io' f' = Inr (Some (s\<lparr>sb_bundle := canonical_bundle b\<rparr>)) \<and> sb_bundle s = b \<and> sb_high_water s = h"
proof -
  have f: "f' = Holds (state_for sc b h)" "s = \<lparr>sb_bundle = b, sb_canonical_bytes = canonical_dispatch_trust_bundle sc b,
      sb_digest = sha256_digest sc (canonical_dispatch_trust_bundle sc b), sb_high_water = h\<rparr>"
    using assms(2) by (auto simp: commit_def Let_def split: option.splits prod.splits)
  then show ?thesis using decode_state_for [OF assms(1) _ assms(3)] assms(4) by (simp add: load_def)
qed

end
