(* ===== verification/Membership.thy ===== *)
theory Membership
  imports Endpoint Json
begin

text \<open>
  Membership of a restricted trust domain: \<^verbatim>\<open>src/restricted_membership.rs\<close> (signed assertions and gossip
  proofs) and \<^verbatim>\<open>src/restricted_directory.rs\<close> (the decisions a directory attaches to its answers).

  Base64, Ed25519, SHA-256, canonical JSON and the UUID parser belong to third-party crates; they are the
  members of the record \<open>member_codec\<close>.
\<close>

subsection \<open>Assertions, proofs and policy\<close>

record member_subject =
  su_kind :: string
  su_id :: string
  su_key_id :: string
  su_public_key :: string

record member_issuer =
  is_id :: string
  is_key_id :: string

record assertion =
  as_schema :: string
  as_profile :: string
  as_assertion_id :: string
  as_domain_id :: string
  as_subject :: member_subject
  as_issuer :: member_issuer
  as_issued_at :: u64
  as_expires_at :: u64
  as_generation :: u64
  as_scopes :: "string list"
  as_audience :: "string list"

record detached_signature =
  sg_algorithm :: string
  sg_key_id :: "string option"
  sg_value :: string

record membership_envelope =
  me_assertion :: assertion
  me_signature :: detached_signature

record gossip_proof =
  gp_sender_id :: string
  gp_domain_id :: string
  gp_sent_at :: u64
  gp_replay_id :: string
  gp_payload_sha256 :: string
  gp_membership_assertion_id :: string

record gossip_envelope =
  ge_proof :: gossip_proof
  ge_signature :: detached_signature

record membership_policy =
  mp_domain_id :: string
  mp_authority_id :: string
  mp_authority_key_id :: string
  mp_authority_public_key :: string
  mp_minimum_generation :: u64
  mp_maximum_clock_skew_seconds :: u64

datatype refusal =
    MalformedEvidence | UnsupportedEvidence | InvalidAuthority | InvalidSignature | WrongDomain | WrongSubject
  | Expired | NotYetValid | RevokedGeneration | MissingScope | InvalidPayloadBinding | ReplayDetected
  | ReplayCapacity | StaleGossip | MissingDirectoryCredential

fun refusal_code :: "refusal \<Rightarrow> string" where
  "refusal_code MalformedEvidence = ''membership_malformed''"
| "refusal_code UnsupportedEvidence = ''membership_unsupported''"
| "refusal_code InvalidAuthority = ''membership_authority_invalid''"
| "refusal_code InvalidSignature = ''membership_signature_invalid''"
| "refusal_code WrongDomain = ''membership_domain_mismatch''"
| "refusal_code WrongSubject = ''membership_subject_mismatch''"
| "refusal_code Expired = ''membership_expired''"
| "refusal_code NotYetValid = ''membership_not_yet_valid''"
| "refusal_code RevokedGeneration = ''membership_generation_revoked''"
| "refusal_code MissingScope = ''membership_scope_missing''"
| "refusal_code InvalidPayloadBinding = ''gossip_payload_mismatch''"
| "refusal_code ReplayDetected = ''gossip_replay''"
| "refusal_code ReplayCapacity = ''gossip_replay_capacity''"
| "refusal_code StaleGossip = ''gossip_stale''"
| "refusal_code MissingDirectoryCredential = ''directory_membership_missing''"

record member_codec =
  mc_uuid :: "string \<Rightarrow> bool"
  mc_b64_decode :: "string \<Rightarrow> string option"
  mc_b64_encode :: "string \<Rightarrow> string"
  mc_usable_key :: "string \<Rightarrow> bool"
  mc_verify :: "string \<Rightarrow> string \<Rightarrow> string \<Rightarrow> bool"
  mc_sign :: "string \<Rightarrow> string \<Rightarrow> string"
  mc_public :: "string \<Rightarrow> string"
  mc_sha_hex :: "string \<Rightarrow> string"
  mc_jcs_assertion :: "assertion \<Rightarrow> string option"
  mc_jcs_proof :: "gossip_proof \<Rightarrow> string option"

definition MEMBERSHIP_SCHEMA :: string where
  "MEMBERSHIP_SCHEMA = ''iicp.restricted-trust-domain.membership-assertion.v0''"

definition RESTRICTED_PROFILE :: string where
  "RESTRICTED_PROFILE = ''urn:iicp:profile:restricted-trust-domain:v1''"

definition MEMBERSHIP_DOMAIN :: string where
  "MEMBERSHIP_DOMAIN = ''IICP-RTD-MEMBERSHIP-V0'' @ [CHR 0x0A]"

definition GOSSIP_DOMAIN :: string where
  "GOSSIP_DOMAIN = ''IICP-RTD-GOSSIP-V0'' @ [CHR 0x0A]"

subsection \<open>Checks\<close>

text \<open>\<^verbatim>\<open>first?; second\<close>\<close>

definition and_then :: "refusal + unit \<Rightarrow> refusal + 'a \<Rightarrow> refusal + 'a" where
  "and_then a b = (case a of Inl e \<Rightarrow> Inl e | Inr _ \<Rightarrow> b)"

definition refuse_if :: "bool \<Rightarrow> refusal \<Rightarrow> refusal + unit" where
  "refuse_if c e = (if c then Inl e else Inr ())"

lemma and_then_Inr [simp]: "and_then a b = Inr x \<longleftrightarrow> a = Inr () \<and> b = Inr x"
  by (cases a) (auto simp: and_then_def)

lemma refuse_if_Inr [simp]: "refuse_if c e = Inr u \<longleftrightarrow> \<not> c"
  by (simp add: refuse_if_def)

definition validate_membership_issuer :: "assertion \<Rightarrow> refusal + unit" where
  "validate_membership_issuer a =
     refuse_if (trim (is_id (as_issuer a)) = [] \<or> trim (is_key_id (as_issuer a)) = []) MalformedEvidence"

definition validate_membership_collections :: "assertion \<Rightarrow> refusal + unit" where
  "validate_membership_collections a =
     and_then (validate_membership_issuer a)
       (refuse_if (as_audience a = [] \<or> as_scopes a = [] \<or> as_expires_at a \<le> as_issued_at a) MalformedEvidence)"

definition validate_membership_shape :: "member_codec \<Rightarrow> assertion \<Rightarrow> refusal + unit" where
  "validate_membership_shape mc a =
     and_then (refuse_if (\<not> mc_uuid mc (as_assertion_id a) \<or> trim (as_domain_id a) = [] \<or>
         trim (su_id (as_subject a)) = [] \<or> trim (su_key_id (as_subject a)) = []) MalformedEvidence)
       (validate_membership_collections a)"

definition validate_membership_format :: "membership_envelope \<Rightarrow> refusal + unit" where
  "validate_membership_format e =
     refuse_if (as_schema (me_assertion e) \<noteq> MEMBERSHIP_SCHEMA \<or> as_profile (me_assertion e) \<noteq> RESTRICTED_PROFILE \<or>
       sg_algorithm (me_signature e) \<noteq> ''Ed25519'') UnsupportedEvidence"

definition validate_membership_authority :: "assertion \<Rightarrow> membership_policy \<Rightarrow> refusal + unit" where
  "validate_membership_authority a p =
     and_then (refuse_if (is_id (as_issuer a) \<noteq> mp_authority_id p \<or> is_key_id (as_issuer a) \<noteq> mp_authority_key_id p) InvalidAuthority)
       (refuse_if (as_domain_id a \<noteq> mp_domain_id p \<or> mp_domain_id p \<notin> set (as_audience a)) WrongDomain)"

definition validate_membership_identity :: "membership_envelope \<Rightarrow> membership_policy \<Rightarrow> string \<Rightarrow> refusal + unit" where
  "validate_membership_identity e p expected_subject =
     and_then (validate_membership_format e) (and_then (validate_membership_authority (me_assertion e) p)
       (refuse_if (su_kind (as_subject (me_assertion e)) \<noteq> ''node'' \<or> su_id (as_subject (me_assertion e)) \<noteq> expected_subject)
          WrongSubject))"

definition validate_membership_time :: "assertion \<Rightarrow> membership_policy \<Rightarrow> u64 \<Rightarrow> refusal + unit" where
  "validate_membership_time a p now =
     and_then (refuse_if (as_issued_at a > sat_add now (mp_maximum_clock_skew_seconds p)) NotYetValid)
       (refuse_if (as_expires_at a \<le> now) Expired)"

definition validate_membership_generation :: "assertion \<Rightarrow> membership_policy \<Rightarrow> refusal + unit" where
  "validate_membership_generation a p = refuse_if (as_generation a < mp_minimum_generation p) RevokedGeneration"

definition validate_membership_lifecycle :: "assertion \<Rightarrow> membership_policy \<Rightarrow> string \<Rightarrow> u64 \<Rightarrow> refusal + unit" where
  "validate_membership_lifecycle a p required_scope now =
     and_then (validate_membership_time a p now) (and_then (validate_membership_generation a p)
       (refuse_if (required_scope \<notin> set (as_scopes a)) MissingScope))"

definition verifying_key :: "member_codec \<Rightarrow> string \<Rightarrow> refusal + string" where
  "verifying_key mc value =
    (case mc_b64_decode mc value of
       Some raw \<Rightarrow> if length raw = 32 \<and> mc_usable_key mc raw then Inr raw else Inl MalformedEvidence
     | None \<Rightarrow> Inl MalformedEvidence)"

definition signature_bytes :: "member_codec \<Rightarrow> string \<Rightarrow> refusal + string" where
  "signature_bytes mc value =
    (case mc_b64_decode mc value of
       Some raw \<Rightarrow> if length raw = 64 then Inr raw else Inl MalformedEvidence
     | None \<Rightarrow> Inl MalformedEvidence)"

text \<open>The common tail of both signature checks: decode key and signature, encode what was signed, verify.\<close>

definition verify_detached :: "member_codec \<Rightarrow> string \<Rightarrow> string \<Rightarrow> string option \<Rightarrow> string \<Rightarrow> refusal + unit" where
  "verify_detached mc public_key value canonical domain =
    (case verifying_key mc public_key of Inl e \<Rightarrow> Inl e | Inr key \<Rightarrow>
    (case signature_bytes mc value of Inl e \<Rightarrow> Inl e | Inr sig \<Rightarrow>
    (case canonical of None \<Rightarrow> Inl MalformedEvidence | Some text \<Rightarrow>
       refuse_if (\<not> mc_verify mc key (domain @ text) sig) InvalidSignature)))"

definition verify_membership_signature :: "member_codec \<Rightarrow> membership_envelope \<Rightarrow> membership_policy \<Rightarrow> refusal + unit" where
  "verify_membership_signature mc e p =
     verify_detached mc (mp_authority_public_key p) (sg_value (me_signature e)) (mc_jcs_assertion mc (me_assertion e)) MEMBERSHIP_DOMAIN"

definition verify_membership :: "member_codec \<Rightarrow> membership_envelope \<Rightarrow> membership_policy \<Rightarrow> string \<Rightarrow> string \<Rightarrow> u64 \<Rightarrow> refusal + unit" where
  "verify_membership mc e p expected_subject required_scope now =
     and_then (validate_membership_shape mc (me_assertion e)) (and_then (validate_membership_identity e p expected_subject)
       (and_then (validate_membership_lifecycle (me_assertion e) p required_scope now) (verify_membership_signature mc e p)))"

subsection \<open>Gossip\<close>

definition validate_gossip_format :: "gossip_envelope \<Rightarrow> membership_envelope \<Rightarrow> refusal + unit" where
  "validate_gossip_format g m =
     refuse_if (sg_algorithm (ge_signature g) \<noteq> ''Ed25519'' \<or>
       sg_key_id (ge_signature g) \<noteq> Some (su_key_id (as_subject (me_assertion m)))) UnsupportedEvidence"

definition validate_gossip_binding :: "gossip_envelope \<Rightarrow> membership_envelope \<Rightarrow> membership_policy \<Rightarrow> refusal + unit" where
  "validate_gossip_binding g m p =
     and_then (refuse_if (gp_domain_id (ge_proof g) \<noteq> mp_domain_id p) WrongDomain)
       (refuse_if (gp_membership_assertion_id (ge_proof g) \<noteq> as_assertion_id (me_assertion m)) WrongSubject)"

definition validate_gossip_identity ::
    "member_codec \<Rightarrow> gossip_envelope \<Rightarrow> membership_envelope \<Rightarrow> membership_policy \<Rightarrow> bool \<Rightarrow> refusal + unit" where
  "validate_gossip_identity mc g m p replay_seen =
     and_then (refuse_if (\<not> mc_uuid mc (gp_replay_id (ge_proof g))) MalformedEvidence)
       (and_then (validate_gossip_format g m) (and_then (validate_gossip_binding g m p)
         (refuse_if replay_seen ReplayDetected)))"

definition validate_gossip_freshness_and_payload ::
    "member_codec \<Rightarrow> gossip_envelope \<Rightarrow> membership_policy \<Rightarrow> string \<Rightarrow> u64 \<Rightarrow> refusal + unit" where
  "validate_gossip_freshness_and_payload mc g p payload now =
     and_then (refuse_if (gp_sent_at (ge_proof g) > sat_add now (mp_maximum_clock_skew_seconds p) \<or>
         sat_sub now (gp_sent_at (ge_proof g)) > mp_maximum_clock_skew_seconds p) StaleGossip)
       (refuse_if (mc_sha_hex mc payload \<noteq> gp_payload_sha256 (ge_proof g)) InvalidPayloadBinding)"

definition verify_gossip_signature :: "member_codec \<Rightarrow> gossip_envelope \<Rightarrow> membership_envelope \<Rightarrow> refusal + unit" where
  "verify_gossip_signature mc g m =
     verify_detached mc (su_public_key (as_subject (me_assertion m))) (sg_value (ge_signature g))
       (mc_jcs_proof mc (ge_proof g)) GOSSIP_DOMAIN"

definition verify_gossip ::
    "member_codec \<Rightarrow> gossip_envelope \<Rightarrow> membership_envelope \<Rightarrow> membership_policy \<Rightarrow> string \<Rightarrow> u64 \<Rightarrow> bool \<Rightarrow> refusal + unit" where
  "verify_gossip mc g m p payload now replay_seen =
     and_then (verify_membership mc m p (gp_sender_id (ge_proof g)) ''peers'' now)
       (and_then (validate_gossip_identity mc g m p replay_seen)
         (and_then (validate_gossip_freshness_and_payload mc g p payload now) (verify_gossip_signature mc g m)))"

definition sign_gossip ::
    "member_codec \<Rightarrow> membership_envelope \<Rightarrow> string \<Rightarrow> string \<Rightarrow> string \<Rightarrow> u64 \<Rightarrow> string \<Rightarrow> refusal + gossip_envelope" where
  "sign_gossip mc m seed domain_id payload sent_at replay_id =
    (if mc_b64_encode mc (mc_public mc seed) \<noteq> su_public_key (as_subject (me_assertion m)) then Inl WrongSubject
     else let proof = \<lparr>gp_sender_id = su_id (as_subject (me_assertion m)), gp_domain_id = domain_id, gp_sent_at = sent_at,
                       gp_replay_id = replay_id, gp_payload_sha256 = mc_sha_hex mc payload,
                       gp_membership_assertion_id = as_assertion_id (me_assertion m)\<rparr>
     in case mc_jcs_proof mc proof of
          None \<Rightarrow> Inl MalformedEvidence
        | Some canonical \<Rightarrow>
            Inr \<lparr>ge_proof = proof,
                 ge_signature = \<lparr>sg_algorithm = ''Ed25519'', sg_key_id = Some (su_key_id (as_subject (me_assertion m))),
                   sg_value = mc_b64_encode mc (mc_sign mc seed (GOSSIP_DOMAIN @ canonical))\<rparr>\<rparr>)"

definition signing_seed :: "member_codec \<Rightarrow> string \<Rightarrow> string \<Rightarrow> refusal + string" where
  "signing_seed mc value expected_public_key =
    (case mc_b64_decode mc value of
       None \<Rightarrow> Inl MalformedEvidence
     | Some seed \<Rightarrow>
         if length seed \<noteq> 32 then Inl MalformedEvidence
         else if mc_b64_encode mc (mc_public mc seed) \<noteq> expected_public_key then Inl WrongSubject
         else Inr seed)"

subsection \<open>Directory decisions\<close>

datatype secret_ref =
    Environment string
  | SecretFile string
  | MacosKeychain string string
  | WindowsCredential string
  | LinuxSecretService string string
  | ExternalSecret string string

record directory_context =
  dc_domain_id :: string
  dc_authority_id :: string
  dc_subject_id :: string
  dc_subject_kind :: string
  dc_minimum_membership_generation :: u64
  dc_membership_credential :: secret_ref

record directory_decision =
  dd_schema :: string
  dd_profile :: string
  dd_decision :: string
  dd_operation :: string
  dd_domain_id :: string
  dd_authority_id :: string
  dd_subject_kind :: string
  dd_membership_generation :: u64
  dd_membership_expires_at :: u64

record eligibility =
  el_domain_id :: string
  el_authority_id :: string
  el_membership_generation :: u64
  el_membership_expires_at :: u64

definition refused_decision :: "string \<Rightarrow> iicp_error" where
  "refused_decision message = PolicyRefused ''restricted_directory_decision_refused'' message"

definition validate_context :: "directory_context \<Rightarrow> iicp_error + unit" where
  "validate_context c =
    (if trim (dc_domain_id c) = [] \<or> trim (dc_authority_id c) = [] \<or> trim (dc_subject_id c) = [] \<or>
        dc_subject_kind c \<notin> set [''node'', ''client'', ''directory''] \<or> dc_minimum_membership_generation c = 0
     then Inl (refused_decision ''restricted directory context is incomplete'') else Inr ())"

text \<open>The derived deserializer of \<^verbatim>\<open>DirectoryDecision\<close>: an object with these members and no others, or an
  array of the members in order.\<close>

definition DECISION_FIELDS :: "string list" where
  "DECISION_FIELDS = [''schema'', ''profile'', ''decision'', ''operation'', ''domain_id'', ''authority_id'', ''subject_kind'',
     ''membership_generation'', ''membership_expires_at'']"

definition decision_of_values :: "json list \<Rightarrow> directory_decision option" where
  "decision_of_values vs =
    (if length vs = 9 \<and> list_all (\<lambda>v. as_str v \<noteq> None) (take 7 vs) \<and> list_all (\<lambda>v. as_u64 v \<noteq> None) (drop 7 vs)
     then let str = (\<lambda>i. the (as_str (vs ! i))); num = (\<lambda>i. the (as_u64 (vs ! i)))
       in Some \<lparr>dd_schema = str 0, dd_profile = str 1, dd_decision = str 2, dd_operation = str 3, dd_domain_id = str 4,
         dd_authority_id = str 5, dd_subject_kind = str 6, dd_membership_generation = num 7, dd_membership_expires_at = num 8\<rparr>
     else None)"

fun parse_decision :: "json \<Rightarrow> directory_decision option" where
  "parse_decision (JObj ms) =
    (if list_all (\<lambda>k. k \<in> set DECISION_FIELDS) (map fst ms) \<and> list_all (\<lambda>k. map_of ms k \<noteq> None) DECISION_FIELDS
     then decision_of_values (map (json_index (JObj ms)) DECISION_FIELDS) else None)"
| "parse_decision (JArr vs) = decision_of_values vs"
| "parse_decision _ = None"

definition validate_decision :: "json \<Rightarrow> directory_context \<Rightarrow> string \<Rightarrow> u64 \<Rightarrow> iicp_error + eligibility" where
  "validate_decision body c operation now =
    (case json_get body ''restricted_domain_decision'' of
       None \<Rightarrow> Inl (refused_decision ''restricted directory decision is missing'')
     | Some raw \<Rightarrow>
    (case parse_decision raw of
       None \<Rightarrow> Inl (refused_decision ''restricted directory decision is malformed'')
     | Some d \<Rightarrow>
         if dd_schema d \<noteq> ''iicp.restricted-trust-domain.directory-decision.v0'' \<or> dd_profile d \<noteq> RESTRICTED_PROFILE \<or>
            dd_decision d \<noteq> ''eligible'' \<or> dd_operation d \<noteq> operation \<or> dd_domain_id d \<noteq> dc_domain_id c \<or>
            dd_authority_id d \<noteq> dc_authority_id c \<or> dd_subject_kind d \<noteq> dc_subject_kind c \<or>
            dd_membership_generation d < dc_minimum_membership_generation c \<or> dd_membership_expires_at d \<le> now
         then Inl (refused_decision ''restricted directory decision does not match the request context'')
         else Inr \<lparr>el_domain_id = dd_domain_id d, el_authority_id = dd_authority_id d,
                   el_membership_generation = dd_membership_generation d, el_membership_expires_at = dd_membership_expires_at d\<rparr>))"

subsection \<open>What acceptance means\<close>

text \<open>The facts a verified membership establishes.\<close>

lemma verify_membership_facts:
  assumes "verify_membership mc e p subject scope now = Inr ()"
  shows "su_id (as_subject (me_assertion e)) = subject" "as_domain_id (me_assertion e) = mp_domain_id p"
    "mp_minimum_generation p \<le> as_generation (me_assertion e)" "now < as_expires_at (me_assertion e)"
    "scope \<in> set (as_scopes (me_assertion e))"
    "verify_membership_signature mc e p = Inr ()"
  using assms by (auto simp: verify_membership_def validate_membership_identity_def validate_membership_authority_def
      validate_membership_lifecycle_def validate_membership_time_def validate_membership_generation_def not_less not_le)

lemma verify_gossip_membership:
  "verify_gossip mc g m p payload now seen = Inr () \<Longrightarrow> verify_membership mc m p (gp_sender_id (ge_proof g)) ''peers'' now = Inr ()"
  by (simp add: verify_gossip_def)

text \<open>The documented laws of Ed25519 and base64 for one signing seed.\<close>

definition signs_for :: "member_codec \<Rightarrow> string \<Rightarrow> bool" where
  "signs_for mc seed \<longleftrightarrow> (\<forall>b. mc_b64_decode mc (mc_b64_encode mc b) = Some b) \<and>
     length (mc_public mc seed) = 32 \<and> mc_usable_key mc (mc_public mc seed) \<and>
     (\<forall>message. length (mc_sign mc seed message) = 64 \<and> mc_verify mc (mc_public mc seed) message (mc_sign mc seed message))"

text \<open>The sender's clock is within the permitted skew of the receiver's.\<close>

definition within_skew :: "membership_policy \<Rightarrow> u64 \<Rightarrow> u64 \<Rightarrow> bool" where
  "within_skew p sent_at now \<longleftrightarrow>
     unat sent_at \<le> unat now + unat (mp_maximum_clock_skew_seconds p) \<and> unat now \<le> unat sent_at + unat (mp_maximum_clock_skew_seconds p)"

lemma within_skew_fresh:
  assumes "within_skew p sent_at now"
  shows "\<not> (sent_at > sat_add now (mp_maximum_clock_skew_seconds p) \<or> sat_sub now sent_at > mp_maximum_clock_skew_seconds p)"
proof -
  have "unat sent_at < 2 ^ LENGTH(64)" by (rule unsigned_less)
  then show ?thesis using assms by (auto simp: within_skew_def u64_less_iff unat_sat_add unat_sat_sub)
qed

text \<open>Gossip a member signs is accepted by every other member with the same policy, and only with the payload it
  was signed for.  The member's assertion verifies at the receiver's time, the clocks agree up to the
  permitted skew, the replay identifier is a UUID not seen before; then signing gives an envelope that verifies
  for the payload, and for every payload with another digest is refused as not bound to it.\<close>

theorem signed_gossip_verifies:
  assumes "sign_gossip mc m seed (mp_domain_id p) payload sent_at replay_id = Inr g"
    and "signs_for mc seed" and "mc_uuid mc replay_id"
    and "verify_membership mc m p (su_id (as_subject (me_assertion m))) ''peers'' now = Inr ()"
    and "within_skew p sent_at now"
  shows "verify_gossip mc g m p payload now False = Inr () \<and>
    (mc_sha_hex mc other \<noteq> mc_sha_hex mc payload \<longrightarrow> verify_gossip mc g m p other now False = Inl InvalidPayloadBinding)"
proof -
  from assms(1) obtain canonical where key: "mc_b64_encode mc (mc_public mc seed) = su_public_key (as_subject (me_assertion m))"
    and g: "gp_sender_id (ge_proof g) = su_id (as_subject (me_assertion m))" "gp_domain_id (ge_proof g) = mp_domain_id p"
      "gp_sent_at (ge_proof g) = sent_at" "gp_replay_id (ge_proof g) = replay_id" "gp_payload_sha256 (ge_proof g) = mc_sha_hex mc payload"
      "gp_membership_assertion_id (ge_proof g) = as_assertion_id (me_assertion m)" "sg_algorithm (ge_signature g) = ''Ed25519''"
      "sg_key_id (ge_signature g) = Some (su_key_id (as_subject (me_assertion m)))"
      "mc_jcs_proof mc (ge_proof g) = Some canonical" "sg_value (ge_signature g) = mc_b64_encode mc (mc_sign mc seed (GOSSIP_DOMAIN @ canonical))"
    by (auto simp: sign_gossip_def Let_def split: if_splits option.splits)
  have sig: "verify_gossip_signature mc g m = Inr ()"
    using assms(2) g key [symmetric]
    by (simp add: verify_gossip_signature_def verify_detached_def verifying_key_def signature_bytes_def signs_for_def)
  have ident: "validate_gossip_identity mc g m p False = Inr ()"
    using g assms(3) by (simp add: validate_gossip_identity_def validate_gossip_format_def validate_gossip_binding_def)
  have fresh: "validate_gossip_freshness_and_payload mc g p q now = refuse_if (mc_sha_hex mc q \<noteq> mc_sha_hex mc payload) InvalidPayloadBinding" for q
    using within_skew_fresh [OF assms(5)] g by (simp add: validate_gossip_freshness_and_payload_def refuse_if_def and_then_def)
  show ?thesis using sig ident fresh assms(4) g(1) by (simp add: verify_gossip_def and_then_def refuse_if_def)
qed

subsection \<open>A concrete member\<close>

definition sample_member_codec :: member_codec where
  "sample_member_codec = \<lparr>mc_uuid = (\<lambda>s. s \<noteq> []), mc_b64_decode = Some, mc_b64_encode = (\<lambda>s. s), mc_usable_key = (\<lambda>_. True),
     mc_verify = (\<lambda>key message sig. sig = take 64 (key @ message @ replicate 64 CHR ''.'')),
     mc_sign = (\<lambda>seed message. take 64 (seed @ message @ replicate 64 CHR ''.'')), mc_public = (\<lambda>seed. seed),
     mc_sha_hex = (\<lambda>s. s), mc_jcs_assertion = (\<lambda>a. Some (as_assertion_id a)), mc_jcs_proof = (\<lambda>p. Some (gp_replay_id p))\<rparr>"

definition sample_seed :: string where
  "sample_seed = replicate 32 CHR ''k''"

definition sample_membership :: "string \<Rightarrow> u64 \<Rightarrow> membership_envelope" where
  "sample_membership node gen = \<lparr>me_assertion = \<lparr>as_schema = MEMBERSHIP_SCHEMA, as_profile = RESTRICTED_PROFILE, as_assertion_id = ''u1'',
       as_domain_id = ''domain-a'', as_subject = \<lparr>su_kind = ''node'', su_id = node, su_key_id = ''k1'', su_public_key = sample_seed\<rparr>,
       as_issuer = \<lparr>is_id = ''dir'', is_key_id = ''dk''\<rparr>, as_issued_at = 1000, as_expires_at = 2000, as_generation = gen,
       as_scopes = [''bootstrap'', ''peers''], as_audience = [''domain-a'']\<rparr>,
     me_signature = \<lparr>sg_algorithm = ''Ed25519'', sg_key_id = None,
       sg_value = take 64 (replicate 32 CHR ''a'' @ MEMBERSHIP_DOMAIN @ ''u1'' @ replicate 64 CHR ''.'')\<rparr>\<rparr>"

definition sample_policy :: membership_policy where
  "sample_policy = \<lparr>mp_domain_id = ''domain-a'', mp_authority_id = ''dir'', mp_authority_key_id = ''dk'',
     mp_authority_public_key = replicate 32 CHR ''a'', mp_minimum_generation = 3, mp_maximum_clock_skew_seconds = 60\<rparr>"

lemmas membership_defs = verify_membership_def validate_membership_shape_def validate_membership_collections_def
  validate_membership_issuer_def validate_membership_identity_def validate_membership_format_def
  validate_membership_authority_def validate_membership_lifecycle_def validate_membership_time_def
  validate_membership_generation_def verify_membership_signature_def

lemma sample_trims:
  "trim ''domain-a'' = ''domain-a''" "trim ''node-a'' = ''node-a''" "trim ''k1'' = ''k1''" "trim ''dir'' = ''dir''" "trim ''dk'' = ''dk''"
  by (simp_all add: trim_def trim_start_def trim_end_def strip_tokens_id whitespace_def starts_with_def)

lemma sample_membership_verifies:
  "scope \<in> {''peers'', ''bootstrap''} \<Longrightarrow>
    verify_membership sample_member_codec (sample_membership ''node-a'' 3) sample_policy ''node-a'' scope 1100 = Inr ()"
  by (auto simp: membership_defs sample_member_codec_def sample_membership_def sample_policy_def sample_trims sat_add_def
      verify_detached_def verifying_key_def signature_bytes_def MEMBERSHIP_DOMAIN_def)

lemma sample_signs: "signs_for sample_member_codec sample_seed"
  by (auto simp: signs_for_def sample_member_codec_def sample_seed_def min_def)

theorem signed_gossip_verifies_witness:
  "\<exists>g. sign_gossip sample_member_codec (sample_membership ''node-a'' 3) sample_seed (mp_domain_id sample_policy) ''{}'' 1090 ''u2'' = Inr g \<and>
     verify_gossip sample_member_codec g (sample_membership ''node-a'' 3) sample_policy ''{}'' 1100 False = Inr () \<and>
     verify_gossip sample_member_codec g (sample_membership ''node-a'' 3) sample_policy ''tampered'' 1100 False = Inl InvalidPayloadBinding"
proof -
  obtain g where g: "sign_gossip sample_member_codec (sample_membership ''node-a'' 3) sample_seed (mp_domain_id sample_policy) ''{}'' 1090 ''u2'' = Inr g"
    by (simp add: sign_gossip_def sample_member_codec_def sample_membership_def Let_def)
  have u: "mc_uuid sample_member_codec ''u2''" by (simp add: sample_member_codec_def)
  have "su_id (as_subject (me_assertion (sample_membership ''node-a'' 3))) = ''node-a''" by (simp add: sample_membership_def)
  then have v: "verify_membership sample_member_codec (sample_membership ''node-a'' 3) sample_policy
      (su_id (as_subject (me_assertion (sample_membership ''node-a'' 3)))) ''peers'' 1100 = Inr ()"
    using sample_membership_verifies [of "''peers''"] by simp
  have k: "within_skew sample_policy 1090 1100" by (simp add: within_skew_def sample_policy_def)
  have "mc_sha_hex sample_member_codec ''tampered'' \<noteq> mc_sha_hex sample_member_codec ''{}''" by (simp add: sample_member_codec_def)
  with g signed_gossip_verifies [OF g sample_signs u v k, of "''tampered''"] show ?thesis by blast
qed

end
