(* ===== verification/Pricing.thy ===== *)
theory Pricing
  imports Text Json
begin

text \<open>
  Pricing declarations and the keyed hash that signs them, \<^verbatim>\<open>src/pricing.rs\<close>; the gossip of peers uses the
  same hash.  HMAC-SHA256 is the parameter \<open>hmac\<close> (key, then message), the printing of a float \<open>show_f64\<close>, the printing of
  a JSON string \<open>quote\<close>.  A multiplier is a finite float; infinities and NaN are outside the model.
\<close>

record pricing_config =
  pr_credit_cost_multiplier :: rat
  pr_pricing_model :: string
  pr_sign_declarations :: bool
  pr_effective_from :: "string option"
  pr_effective_until :: "string option"

definition HEX :: string where
  "HEX = ''0123456789abcdef''"

definition hex_byte :: "char \<Rightarrow> string" where
  "hex_byte b = [HEX ! (of_char b div 16), HEX ! (of_char b mod 16)]"

definition hex_encode :: "string \<Rightarrow> string" where
  "hex_encode bytes = concat (map hex_byte bytes)"

definition sign_body :: "(string \<Rightarrow> string \<Rightarrow> string) \<Rightarrow> string \<Rightarrow> string \<Rightarrow> string" where
  "sign_body hmac body secret = hex_encode (hmac secret body)"

definition verify_signature :: "(string \<Rightarrow> string \<Rightarrow> string) \<Rightarrow> string \<Rightarrow> string \<Rightarrow> string \<Rightarrow> bool" where
  "verify_signature hmac body secret sig \<longleftrightarrow> sign_body hmac body secret = sig"

text \<open>\<^verbatim>\<open>format!("{}", x as i64)\<close>\<close>

definition show_int :: "int \<Rightarrow> string" where
  "show_int i = (if i < 0 then ''-'' @ show_nat (nat (- i)) else show_nat (nat i))"

definition php_canonical_sign_body :: "(rat \<Rightarrow> string) \<Rightarrow> (string \<Rightarrow> string) \<Rightarrow> rat \<Rightarrow> string \<Rightarrow> string" where
  "php_canonical_sign_body show_f64 quote multiplier pricing_model =
    (let num = (if of_int \<lfloor>multiplier\<rfloor> = multiplier \<and> \<bar>multiplier\<bar> < 10 ^ 15 then show_int \<lfloor>multiplier\<rfloor> else show_f64 multiplier)
     in ''{\"credit_cost_multiplier\":'' @ num @ '',\"pricing_model\":'' @ quote pricing_model @ ''}'')"

definition build_pricing_block ::
    "(string \<Rightarrow> string \<Rightarrow> string) \<Rightarrow> (rat \<Rightarrow> string) \<Rightarrow> (string \<Rightarrow> string) \<Rightarrow> pricing_config \<Rightarrow> string \<Rightarrow> json" where
  "build_pricing_block hmac show_f64 quote p hmac_key = JObj
    ([(''credit_cost_multiplier'', JFloat (pr_credit_cost_multiplier p)), (''pricing_model'', JStr (pr_pricing_model p))] @
     (if pr_sign_declarations p \<and> hmac_key \<noteq> []
      then [(''declaration_signature'',
              JStr (sign_body hmac (php_canonical_sign_body show_f64 quote (pr_credit_cost_multiplier p) (pr_pricing_model p)) hmac_key))]
      else []) @
     (case pr_effective_from p of Some f \<Rightarrow> [(''effective_from'', JStr f)] | None \<Rightarrow> []) @
     (case pr_effective_until p of Some u \<Rightarrow> [(''effective_until'', JStr u)] | None \<Rightarrow> []))"

subsection \<open>The encoding is faithful\<close>

lemma hex_digits_distinct: "i < 16 \<Longrightarrow> j < 16 \<Longrightarrow> HEX ! i = HEX ! j \<longleftrightarrow> i = j"
  by (rule nth_eq_iff_index_eq) (simp_all add: HEX_def)

lemma hex_byte_inject: "hex_byte a = hex_byte b \<longleftrightarrow> a = b"
proof
  assume "hex_byte a = hex_byte b"
  moreover have "(of_char a :: nat) div 16 < 16" "(of_char b :: nat) div 16 < 16"
    by (simp_all add: less_mult_imp_div_less nat_of_char_less_256)
  ultimately have "(of_char a :: nat) div 16 = of_char b div 16" "(of_char a :: nat) mod 16 = of_char b mod 16"
    by (simp_all add: hex_byte_def hex_digits_distinct)
  then have "(of_char a :: nat) = of_char b" by (metis div_mult_mod_eq)
  then show "a = b" by simp
qed simp

text \<open>Two hashes have the same hexadecimal form only if they are equal, so comparing forms compares hashes.\<close>

lemma hex_encode_inject: "hex_encode xs = hex_encode ys \<longleftrightarrow> xs = ys"
proof
  show "hex_encode xs = hex_encode ys \<Longrightarrow> xs = ys"
  proof (induction xs arbitrary: ys)
    case (Cons x xs)
    then obtain y ys' where ys: "ys = y # ys'" by (cases ys) (auto simp: hex_encode_def hex_byte_def)
    then have "hex_byte x = hex_byte y" "hex_encode xs = hex_encode ys'" using Cons.prems by (simp_all add: hex_encode_def hex_byte_def)
    then show ?case using ys Cons.IH hex_byte_inject by blast
  next
    case Nil
    then show ?case by (cases ys) (simp_all add: hex_encode_def hex_byte_def)
  qed
qed simp

lemma sign_verify: "verify_signature hmac body secret (sign_body hmac body secret)"
  by (simp add: verify_signature_def)

end
