(* ===== verification/Peers.thy ===== *)
theory Peers
  imports Membership Replay Pricing "HOL-Library.Char_ord"
begin

text \<open>
  The peer table of a provider and its gossip, \<^verbatim>\<open>src/peer_manager.rs\<close>, with the handler of \<^verbatim>\<open>POST /v1/peers\<close> from
  \<^verbatim>\<open>src/node.rs\<close>.  A peer is admitted without evidence in public mode and with a verified membership assertion in
  restricted mode.

  Instants are nanoseconds of the monotonic clock, epochs seconds of the system clock; each reading is an
  argument.  JSON and URL parsing, canonical JSON and the encodings of membership and gossip envelopes are the
  members of the record \<open>peer_codec\<close>.
\<close>

subsection \<open>State\<close>

record peer_info =
  pi_node_id :: string
  pi_endpoint :: string
  pi_region :: string
  pi_last_seen :: string
  pi_last_contact :: nat
  pi_relay_capable :: bool
  pi_relay_accept_port :: u16
  pi_relay_load :: rat
  pi_trust_domain_id :: "string option"
  pi_membership_generation :: "u64 option"
  pi_membership_expires_at :: "u64 option"
  pi_membership :: "membership_envelope option"

record local_identity =
  li_membership :: membership_envelope
  li_signing_seed :: string

record restricted_admission =
  ra_policy :: membership_policy
  ra_directory_membership_bearer :: string
  ra_directory_context :: "directory_context option"
  ra_local :: "local_identity option"

datatype admission_mode = Public | Restricted restricted_admission

record peer_manager_opts =
  po_relay_capable :: bool
  po_relay_accept_port :: u16
  po_admission :: admission_mode

record peer_manager =
  pm_directory_url :: string
  pm_node_token :: string
  pm_own_id :: string
  pm_own_endpoint :: string
  pm_own_relay_capable :: bool
  pm_own_relay_accept_port :: u16
  pm_admission :: admission_mode
  pm_minimum_generation :: u64
  pm_peers :: "(string, peer_info) hmap"
  pm_replay_ids :: "(string, u64) hmap"

record elected_relay =
  el_peer :: peer_info
  el_relay_host :: string
  el_relay_port :: u16

record peer_url = url +
  pu_fragment :: "string option"

record peer_codec =
  pc_member :: member_codec
  pc_parse_url :: "string \<Rightarrow> peer_url option"
  pc_parse_json :: "string \<Rightarrow> json option"
  pc_print_json :: "json \<Rightarrow> string option"
  pc_jcs :: "json \<Rightarrow> string option"
  pc_membership_of :: "json \<Rightarrow> membership_envelope option"
  pc_membership_json :: "membership_envelope \<Rightarrow> json option"
  pc_gossip_of :: "json \<Rightarrow> gossip_envelope option"
  pc_gossip_json :: "gossip_envelope \<Rightarrow> json"
  pc_secret :: "secret_ref \<Rightarrow> string option"
  pc_hmac :: "string \<Rightarrow> string \<Rightarrow> string"
  pc_fl :: "rat \<Rightarrow> rat"

definition PEER_EXPIRY :: nat where
  "PEER_EXPIRY = 90 * 10 ^ 9"

definition MAX_REPLAY_IDS :: nat where
  "MAX_REPLAY_IDS = 4096"

definition with_opts :: "string \<Rightarrow> string \<Rightarrow> peer_manager_opts \<Rightarrow> peer_manager" where
  "with_opts directory_url node_token opts =
    \<lparr>pm_directory_url = trim_end_char CHR ''/'' directory_url, pm_node_token = node_token, pm_own_id = [], pm_own_endpoint = [],
     pm_own_relay_capable = po_relay_capable opts, pm_own_relay_accept_port = po_relay_accept_port opts,
     pm_admission = po_admission opts,
     pm_minimum_generation = (case po_admission opts of Public \<Rightarrow> 0 | Restricted r \<Rightarrow> mp_minimum_generation (ra_policy r)),
     pm_peers = [], pm_replay_ids = []\<rparr>"

text \<open>\<^verbatim>\<open>RestrictedPeerBundle::into_admission\<close>\<close>

record peer_bundle =
  rb_policy :: membership_policy
  rb_membership :: membership_envelope
  rb_signing_seed :: string
  rb_directory_membership_bearer :: string

definition into_admission :: "member_codec \<Rightarrow> peer_bundle \<Rightarrow> string \<Rightarrow> u64 \<Rightarrow> refusal + admission_mode" where
  "into_admission mc b expected_node_id now =
    (if trim (rb_directory_membership_bearer b) = [] then Inl MissingDirectoryCredential
     else case verify_membership mc (rb_membership b) (rb_policy b) expected_node_id ''peers'' now of
       Inl e \<Rightarrow> Inl e
     | Inr _ \<Rightarrow>
    (case signing_seed mc (rb_signing_seed b) (su_public_key (as_subject (me_assertion (rb_membership b)))) of
       Inl e \<Rightarrow> Inl e
     | Inr seed \<Rightarrow> Inr (Restricted \<lparr>ra_policy = rb_policy b, ra_directory_membership_bearer = rb_directory_membership_bearer b,
         ra_directory_context = None, ra_local = Some \<lparr>li_membership = rb_membership b, li_signing_seed = seed\<rparr>\<rparr>)))"

subsection \<open>Values\<close>

text \<open>\<^verbatim>\<open>as_f64\<close>: integers are converted with the rounding of the platform.\<close>

fun as_f64 :: "(rat \<Rightarrow> rat) \<Rightarrow> json \<Rightarrow> rat option" where
  "as_f64 fl (JPos n) = Some (fl (of_nat (unat n)))"
| "as_f64 fl (JNeg i) = Some (fl (of_int i))"
| "as_f64 fl (JFloat r) = Some r"
| "as_f64 fl _ = None"

definition add_membership :: "peer_codec \<Rightarrow> membership_envelope option \<Rightarrow> (string \<times> json) list" where
  "add_membership pc m = (case m of None \<Rightarrow> [] | Some e \<Rightarrow> [(''membership'', unwrap_or (pc_membership_json pc e) JNull)])"

definition to_response_value :: "peer_codec \<Rightarrow> peer_info \<Rightarrow> json" where
  "to_response_value pc p = JObj ([(''node_id'', JStr (pi_node_id p)), (''endpoint'', JStr (pi_endpoint p)),
     (''region'', JStr (pi_region p)), (''last_seen'', JStr (pi_last_seen p))] @ add_membership pc (pi_membership p))"

definition to_gossip_value :: "peer_codec \<Rightarrow> peer_info \<Rightarrow> json" where
  "to_gossip_value pc p = JObj ([(''node_id'', JStr (pi_node_id p)), (''endpoint'', JStr (pi_endpoint p)),
     (''region'', JStr (pi_region p)), (''last_seen'', JStr (pi_last_seen p)), (''relay_capable'', JBool (pi_relay_capable p)),
     (''relay_accept_port'', JPos (ucast (pi_relay_accept_port p))), (''relay_load'', JFloat (pi_relay_load p))] @
     add_membership pc (pi_membership p))"

definition peer_info :: "(rat \<Rightarrow> rat) \<Rightarrow> json \<Rightarrow> string \<Rightarrow> membership_envelope option \<Rightarrow> nat \<Rightarrow> peer_info" where
  "peer_info fl peer node_id membership last_contact =
    \<lparr>pi_node_id = node_id, pi_endpoint = unwrap_or (as_str (json_index peer ''endpoint'')) [],
     pi_region = unwrap_or (as_str (json_index peer ''region'')) [], pi_last_seen = unwrap_or (as_str (json_index peer ''last_seen'')) [],
     pi_last_contact = last_contact, pi_relay_capable = unwrap_or (as_bool (json_index peer ''relay_capable'')) False,
     pi_relay_accept_port = ucast (unwrap_or (as_u64 (json_index peer ''relay_accept_port'')) 9485),
     pi_relay_load = unwrap_or (as_f64 fl (json_index peer ''relay_load'')) 0,
     pi_trust_domain_id = map_option (\<lambda>e. as_domain_id (me_assertion e)) membership,
     pi_membership_generation = map_option (\<lambda>e. as_generation (me_assertion e)) membership,
     pi_membership_expires_at = map_option (\<lambda>e. as_expires_at (me_assertion e)) membership,
     pi_membership = membership\<rparr>"

definition peer_url_has_no_credentials :: "peer_url \<Rightarrow> bool" where
  "peer_url_has_no_credentials u \<longleftrightarrow> u_username u = [] \<and> u_password u = None"

definition valid_peer_url :: "peer_url \<Rightarrow> bool" where
  "valid_peer_url u \<longleftrightarrow> u_scheme u \<in> set [''http'', ''https''] \<and> u_host u \<noteq> None \<and> peer_url_has_no_credentials u \<and> pu_fragment u = None"

definition invalid_relay_port :: "json \<Rightarrow> bool" where
  "invalid_relay_port peer = (case get_u64 peer ''relay_accept_port'' of Some port \<Rightarrow> port = 0 \<or> port > 65535 | None \<Rightarrow> False)"

text \<open>A JSON number is always finite.\<close>

definition invalid_relay_load :: "(rat \<Rightarrow> rat) \<Rightarrow> json \<Rightarrow> bool" where
  "invalid_relay_load fl peer = (case Option.bind (json_get peer ''relay_load'') (as_f64 fl) of Some load \<Rightarrow> load < 0 | None \<Rightarrow> False)"

definition valid_restricted_peer :: "peer_codec \<Rightarrow> json \<Rightarrow> bool" where
  "valid_restricted_peer pc peer =
    (case get_str peer ''endpoint'' of None \<Rightarrow> False | Some endpoint \<Rightarrow>
    (case pc_parse_url pc endpoint of None \<Rightarrow> False | Some u \<Rightarrow>
       valid_peer_url u \<and> \<not> invalid_relay_port peer \<and> \<not> invalid_relay_load (pc_fl pc) peer))"

subsection \<open>Admission\<close>

definition current_policy :: "u64 \<Rightarrow> restricted_admission \<Rightarrow> membership_policy" where
  "current_policy minimum r = (ra_policy r)\<lparr>mp_minimum_generation := max (mp_minimum_generation (ra_policy r)) minimum\<rparr>"

definition verified_restricted_membership ::
    "peer_codec \<Rightarrow> u64 \<Rightarrow> json \<Rightarrow> string \<Rightarrow> string \<Rightarrow> u64 \<Rightarrow> restricted_admission \<Rightarrow> membership_envelope option" where
  "verified_restricted_membership pc minimum peer node_id scope epoch r =
    (if \<not> valid_restricted_peer pc peer then None
     else case Option.bind (json_get peer ''membership'') (pc_membership_of pc) of None \<Rightarrow> None | Some envelope \<Rightarrow>
       (case verify_membership (pc_member pc) envelope (current_policy minimum r) node_id scope epoch of
          Inl _ \<Rightarrow> None | Inr _ \<Rightarrow> Some envelope))"

definition admitted_membership ::
    "peer_codec \<Rightarrow> admission_mode \<Rightarrow> u64 \<Rightarrow> json \<Rightarrow> string \<Rightarrow> string \<Rightarrow> u64 \<Rightarrow> membership_envelope option option" where
  "admitted_membership pc mode minimum peer node_id scope epoch =
    (case mode of Public \<Rightarrow> Some None
     | Restricted r \<Rightarrow> map_option Some (verified_restricted_membership pc minimum peer node_id scope epoch r))"

text \<open>The body of the loop of \<^verbatim>\<open>merge_peers_at\<close>; \<open>minimum\<close> is the generation as it is loaded for this entry.\<close>

definition merge_one ::
    "peer_codec \<Rightarrow> admission_mode \<Rightarrow> string \<Rightarrow> string \<Rightarrow> u64 \<Rightarrow> nat \<Rightarrow> u64 \<Rightarrow> json
      \<Rightarrow> (string, peer_info) hmap \<times> nat \<Rightarrow> (string, peer_info) hmap \<times> nat" where
  "merge_one pc mode own scope epoch now minimum p acc =
    (case acc of (peers, added) \<Rightarrow>
     let nid = unwrap_or (get_str p ''node_id'') [] in
     if nid = [] \<or> nid = own then (peers, added)
     else case admitted_membership pc mode minimum p nid scope epoch of
       None \<Rightarrow> (peers, added)
     | Some membership \<Rightarrow>
         (hput nid (peer_info (pc_fl pc) p nid membership now) peers, if hget peers nid = None then added + 1 else added))"

definition merge_peers_at :: "peer_codec \<Rightarrow> json list \<Rightarrow> string \<Rightarrow> u64 \<Rightarrow> nat \<Rightarrow> peer_manager \<Rightarrow> peer_manager \<times> nat" where
  "merge_peers_at pc incoming scope epoch now m =
    (case fold (merge_one pc (pm_admission m) (pm_own_id m) scope epoch now (pm_minimum_generation m)) incoming (pm_peers m, 0) of
       (peers, added) \<Rightarrow> (m\<lparr>pm_peers := peers\<rparr>, added))"

definition update_minimum_generation :: "u64 \<Rightarrow> peer_manager \<Rightarrow> peer_manager \<times> nat" where
  "update_minimum_generation generation m =
    (let minimum = max (pm_minimum_generation m) generation;
         peers = hretain (\<lambda>_ p. case pi_membership_generation p of None \<Rightarrow> True | Some g \<Rightarrow> minimum \<le> g) (pm_peers m)
     in (m\<lparr>pm_minimum_generation := minimum, pm_peers := peers\<rparr>, length (pm_peers m) - length peers))"

definition prune :: "nat \<Rightarrow> u64 \<Rightarrow> peer_manager \<Rightarrow> peer_manager \<times> nat" where
  "prune now epoch m =
    (let peers = hretain (\<lambda>_ p. now - pi_last_contact p < PEER_EXPIRY \<and>
                   (case pi_membership_expires_at p of None \<Rightarrow> True | Some x \<Rightarrow> x > epoch)) (pm_peers m)
     in (m\<lparr>pm_peers := peers\<rparr>, length (pm_peers m) - length peers))"

definition get_peers :: "nat \<Rightarrow> u64 \<Rightarrow> peer_manager \<Rightarrow> peer_manager \<times> peer_info list" where
  "get_peers now epoch m = (let m' = fst (prune now epoch m) in (m', hvals (pm_peers m')))"

definition relay_target :: "nat \<Rightarrow> u64 \<Rightarrow> string \<Rightarrow> peer_manager \<Rightarrow> peer_manager \<times> peer_info option" where
  "relay_target now epoch node_id m = (let m' = fst (prune now epoch m) in (m', hget (pm_peers m') node_id))"

subsection \<open>Inbound gossip\<close>

definition record_replay :: "u64 \<Rightarrow> string \<Rightarrow> u64 \<Rightarrow> (string, u64) hmap \<Rightarrow> (string, u64) hmap \<times> (string + unit)" where
  "record_replay now replay_id expires_at ids =
    (let kept = hretain (\<lambda>_ expiry. expiry > now) ids
     in if hget kept replay_id \<noteq> None then (kept, Inl (refusal_code ReplayDetected))
        else if length kept \<ge> MAX_REPLAY_IDS then (kept, Inl (refusal_code ReplayCapacity))
        else (hput replay_id expires_at kept, Inr ()))"

definition verify_exchange :: "peer_codec \<Rightarrow> peer_manager \<Rightarrow> string \<Rightarrow> string option \<Rightarrow> bool" where
  "verify_exchange pc m body sig =
    (case pm_admission m of Restricted _ \<Rightarrow> False
     | Public \<Rightarrow>
         if pm_node_token m = [] then True
         else case sig of Some s \<Rightarrow> verify_signature (pc_hmac pc) body (pm_node_token m) s | None \<Rightarrow> False)"

definition extract_known_peers :: "peer_codec \<Rightarrow> string \<Rightarrow> json list option" where
  "extract_known_peers pc body =
     Option.bind (pc_parse_json pc body) (\<lambda>v. Option.bind (json_get v ''known_peers'') as_array)"

definition restricted_peer_payload :: "peer_codec \<Rightarrow> json \<Rightarrow> string + json list \<times> string" where
  "restricted_peer_payload pc parsed =
    (case as_array (json_index parsed ''known_peers'') of None \<Rightarrow> Inl ''malformed_exchange'' | Some peers \<Rightarrow>
    (case pc_jcs pc (JObj [(''known_peers'', JArr peers)]) of None \<Rightarrow> Inl ''malformed_exchange'' | Some payload \<Rightarrow> Inr (peers, payload)))"

definition parse_restricted_exchange ::
    "peer_codec \<Rightarrow> string \<Rightarrow> string + membership_envelope \<times> gossip_envelope \<times> json list \<times> string" where
  "parse_restricted_exchange pc body =
    (case pc_parse_json pc body of None \<Rightarrow> Inl ''malformed_exchange'' | Some parsed \<Rightarrow>
    (case pc_membership_of pc (json_index parsed ''membership'') of None \<Rightarrow> Inl ''membership_malformed'' | Some membership \<Rightarrow>
    (case pc_gossip_of pc (json_index parsed ''gossip'') of None \<Rightarrow> Inl ''gossip_malformed'' | Some gossip \<Rightarrow>
    (case restricted_peer_payload pc parsed of Inl e \<Rightarrow> Inl e | Inr (peers, payload) \<Rightarrow> Inr (membership, gossip, peers, payload)))))"

text \<open>The clock is read once for the verification and once more for the replay record.\<close>

definition verify_restricted_exchange ::
    "peer_codec \<Rightarrow> string \<Rightarrow> restricted_admission \<Rightarrow> u64 \<Rightarrow> u64 \<Rightarrow> peer_manager \<Rightarrow> peer_manager \<times> (string + json list)" where
  "verify_restricted_exchange pc body r verified recorded m =
    (case parse_restricted_exchange pc body of Inl e \<Rightarrow> (m, Inl e) | Inr (membership, gossip, peers, payload) \<Rightarrow>
    (case verify_gossip (pc_member pc) gossip membership (current_policy (pm_minimum_generation m) r) payload verified False of
       Inl e \<Rightarrow> (m, Inl (refusal_code e))
     | Inr _ \<Rightarrow>
    (case record_replay recorded (gp_replay_id (ge_proof gossip)) (as_expires_at (me_assertion membership)) (pm_replay_ids m) of
       (ids, Inl e) \<Rightarrow> (m\<lparr>pm_replay_ids := ids\<rparr>, Inl e)
     | (ids, Inr _) \<Rightarrow> (m\<lparr>pm_replay_ids := ids\<rparr>, Inr peers))))"

definition verify_and_extract_exchange ::
    "peer_codec \<Rightarrow> string \<Rightarrow> string option \<Rightarrow> u64 \<Rightarrow> u64 \<Rightarrow> peer_manager \<Rightarrow> peer_manager \<times> (string + json list)" where
  "verify_and_extract_exchange pc body sig verified recorded m =
    (case pm_admission m of
       Public \<Rightarrow>
         (if \<not> verify_exchange pc m body sig then (m, Inl ''invalid_signature'')
          else case extract_known_peers pc body of None \<Rightarrow> (m, Inl ''malformed_exchange'') | Some ps \<Rightarrow> (m, Inr ps))
     | Restricted r \<Rightarrow> verify_restricted_exchange pc body r verified recorded m)"

definition verified_peer_dicts ::
    "peer_codec \<Rightarrow> string \<Rightarrow> string option \<Rightarrow> u64 \<Rightarrow> u64 \<Rightarrow> peer_manager \<Rightarrow> peer_manager \<times> (string + json list)" where
  "verified_peer_dicts pc body sig verified recorded m =
    (case verify_and_extract_exchange pc body sig verified recorded m of
       (m', Inl e) \<Rightarrow> (m', Inl e)
     | (m', Inr ps) \<Rightarrow> (m', Inr (filter (\<lambda>v. as_object v \<noteq> None) ps)))"

text \<open>The clock readings of a request: the verification, the replay record, the merge (epoch and instant), the
  contact with a peer, the pruning (instant and epoch).\<close>

record readings =
  rd_verified :: u64
  rd_recorded :: u64
  rd_merge_epoch :: u64
  rd_merge_instant :: nat
  rd_contact :: nat
  rd_prune_instant :: nat
  rd_prune_epoch :: u64

definition peers_endpoint :: "peer_codec \<Rightarrow> string \<Rightarrow> string option \<Rightarrow> readings \<Rightarrow> peer_manager \<Rightarrow> peer_manager \<times> nat \<times> json" where
  "peers_endpoint pc body sig t m =
    (case verified_peer_dicts pc body sig (rd_verified t) (rd_recorded t) m of
       (m1, Inl reason) \<Rightarrow> (m1, 401, JObj [(''error'', JObj [(''code'', JStr ''IICP-E012''), (''message'', JStr reason)])])
     | (m1, Inr dicts) \<Rightarrow>
         (let m2 = fst (merge_peers_at pc dicts ''peers'' (rd_merge_epoch t) (rd_merge_instant t) m1)
          in case get_peers (rd_prune_instant t) (rd_prune_epoch t) m2 of
               (m3, ps) \<Rightarrow> (m3, 200, JObj [(''peers'', JArr (map (to_response_value pc) ps))])))"

subsection \<open>Relay election\<close>

definition get_relay_candidates :: "nat \<Rightarrow> u64 \<Rightarrow> peer_manager \<Rightarrow> peer_manager \<times> peer_info list" where
  "get_relay_candidates now epoch m =
    (let m' = fst (prune now epoch m) in (m', filter (\<lambda>p. pi_relay_capable p \<and> pi_endpoint p \<noteq> []) (hvals (pm_peers m'))))"

text \<open>\<^verbatim>\<open>x as u64\<close> on a float truncates and saturates.\<close>

definition f64_as_u64 :: "rat \<Rightarrow> nat" where
  "f64_as_u64 x = min (nat \<lfloor>x\<rfloor>) (2 ^ 64 - 1)"

definition score :: "peer_codec \<Rightarrow> string \<Rightarrow> peer_info \<Rightarrow> nat \<times> string" where
  "score pc worker_id p =
    (f64_as_u64 (pc_fl pc (pi_relay_load p * 1000000)), mc_sha_hex (pc_member pc) (worker_id @ '':'' @ pi_node_id p))"

text \<open>The order of pairs, and \<^verbatim>\<open>Iterator::min_by\<close>, which keeps the first of equal elements.\<close>

definition score_less :: "nat \<times> string \<Rightarrow> nat \<times> string \<Rightarrow> bool" where
  "score_less a b \<longleftrightarrow> fst a < fst b \<or> (fst a = fst b \<and> snd a < snd b)"

definition better :: "('a \<Rightarrow> nat \<times> string) \<Rightarrow> 'a \<Rightarrow> 'a \<Rightarrow> 'a" where
  "better f y best = (if score_less (f y) (f best) then y else best)"

fun min_by :: "('a \<Rightarrow> nat \<times> string) \<Rightarrow> 'a list \<Rightarrow> 'a option" where
  "min_by f [] = None"
| "min_by f (x # xs) = Some (fold (better f) xs x)"

text \<open>\<^verbatim>\<open>rsplit_once\<close>: the part before the last separator.\<close>

definition before_last :: "char \<Rightarrow> string \<Rightarrow> string option" where
  "before_last c s = (if c \<in> set s then Some (rev (tl (dropWhile (\<lambda>x. x \<noteq> c) (rev s)))) else None)"

definition extract_host :: "string \<Rightarrow> string" where
  "extract_host endpoint =
    (let without_scheme = (case strip_prefix ''http://'' endpoint of Some rest \<Rightarrow> rest
           | None \<Rightarrow> (case strip_prefix ''https://'' endpoint of Some rest \<Rightarrow> rest | None \<Rightarrow> endpoint));
         host_port = hd (split_on CHR ''/'' without_scheme)
     in case before_last CHR '':'' host_port of Some h \<Rightarrow> h | None \<Rightarrow> host_port)"

definition elect_relay :: "peer_codec \<Rightarrow> nat \<Rightarrow> u64 \<Rightarrow> string \<Rightarrow> peer_manager \<Rightarrow> peer_manager \<times> elected_relay option" where
  "elect_relay pc now epoch worker_id m =
    (case get_relay_candidates now epoch m of (m', candidates) \<Rightarrow>
       (m', map_option (\<lambda>p. \<lparr>el_peer = p, el_relay_host = extract_host (pi_endpoint p), el_relay_port = pi_relay_accept_port p\<rparr>)
              (min_by (score pc worker_id) candidates)))"

subsection \<open>Outbound gossip\<close>

text \<open>The headers of the bootstrap request; \<open>None\<close> where no request is sent.\<close>

definition bootstrap_request :: "peer_codec \<Rightarrow> peer_manager \<Rightarrow> (string \<times> string) list option" where
  "bootstrap_request pc m =
    (case pm_admission m of Public \<Rightarrow> Some []
     | Restricted r \<Rightarrow>
    (case ra_local r of None \<Rightarrow> None | Some l \<Rightarrow>
     let subject = su_id (as_subject (me_assertion (li_membership l))) in
    (case (case ra_directory_context r of
             Some c \<Rightarrow>
               if (case validate_context c of Inl _ \<Rightarrow> True | Inr _ \<Rightarrow> False) \<or> dc_subject_id c \<noteq> subject then None
               else pc_secret pc (dc_membership_credential c)
           | None \<Rightarrow> if ra_directory_membership_bearer r \<noteq> [] then Some (ra_directory_membership_bearer r) else None) of
       None \<Rightarrow> None
     | Some membership \<Rightarrow> Some [(''X-IICP-Membership'', membership), (''X-IICP-Subject-Id'', subject)])))"

text \<open>A response is whether its status is a success, and the body if it is JSON.\<close>

type_synonym response = "bool \<times> json option"

definition merge_bootstrap_response :: "peer_codec \<Rightarrow> response \<Rightarrow> readings \<Rightarrow> peer_manager \<Rightarrow> peer_manager" where
  "merge_bootstrap_response pc resp t m =
    (case resp of (ok, body) \<Rightarrow>
     if \<not> ok then m
     else case body of None \<Rightarrow> m | Some b \<Rightarrow>
       if (case pm_admission m of
             Restricted r \<Rightarrow>
               (case ra_directory_context r of
                  Some c \<Rightarrow> (case validate_decision b c ''bootstrap'' (rd_verified t) of Inl _ \<Rightarrow> True | Inr _ \<Rightarrow> False)
                | None \<Rightarrow> False)
           | Public \<Rightarrow> False) then m
       else case Option.bind (json_get b ''peers'') as_array of
              None \<Rightarrow> m
            | Some ps \<Rightarrow> fst (merge_peers_at pc ps ''bootstrap'' (rd_merge_epoch t) (rd_merge_instant t) m))"

text \<open>The bootstrap exchange with the directory; \<open>answer\<close> is what the network returns to the request with these headers.\<close>

definition bootstrap :: "peer_codec \<Rightarrow> ((string \<times> string) list \<Rightarrow> response option) \<Rightarrow> readings \<Rightarrow> peer_manager \<Rightarrow> peer_manager" where
  "bootstrap pc answer t m =
    (case bootstrap_request pc m of None \<Rightarrow> m | Some hs \<Rightarrow>
    (case answer hs of None \<Rightarrow> m | Some resp \<Rightarrow> merge_bootstrap_response pc resp t m))"

definition start :: "peer_codec \<Rightarrow> ((string \<times> string) list \<Rightarrow> response option) \<Rightarrow> readings \<Rightarrow> string \<Rightarrow> string \<Rightarrow> peer_manager \<Rightarrow> peer_manager" where
  "start pc answer t node_id own_endpoint m =
     bootstrap pc answer t (m\<lparr>pm_own_id := node_id, pm_own_endpoint := own_endpoint\<rparr>)"

definition own_peer_value :: "peer_codec \<Rightarrow> peer_manager \<Rightarrow> string \<Rightarrow> string \<Rightarrow> json option" where
  "own_peer_value pc m node_id endpoint =
    (if node_id = [] then None
     else let own = [(''node_id'', JStr node_id), (''endpoint'', JStr endpoint), (''relay_capable'', JBool (pm_own_relay_capable m)),
                     (''relay_accept_port'', JPos (ucast (pm_own_relay_accept_port m))), (''relay_load'', JFloat 0)]
     in case pm_admission m of Public \<Rightarrow> Some (JObj own)
        | Restricted r \<Rightarrow>
            (case ra_local r of None \<Rightarrow> None | Some l \<Rightarrow>
               map_option (\<lambda>v. JObj (own @ [(''membership'', v)])) (pc_membership_json pc (li_membership l))))"

definition exchange_body :: "peer_codec \<Rightarrow> u64 \<Rightarrow> string \<Rightarrow> peer_manager \<Rightarrow> json \<Rightarrow> string option" where
  "exchange_body pc now replay_id m payload =
    (case pm_admission m of Public \<Rightarrow> pc_print_json pc payload
     | Restricted r \<Rightarrow>
    (case ra_local r of None \<Rightarrow> None | Some l \<Rightarrow>
    (case pc_jcs pc payload of None \<Rightarrow> None | Some canonical \<Rightarrow>
    (case sign_gossip (pc_member pc) (li_membership l) (li_signing_seed l) (mp_domain_id (ra_policy r)) canonical now replay_id of
       Inl _ \<Rightarrow> None
     | Inr g \<Rightarrow>
         Option.bind (pc_membership_json pc (li_membership l)) (\<lambda>v.
           pc_print_json pc (JObj [(''known_peers'', json_index payload ''known_peers''), (''membership'', v), (''gossip'', pc_gossip_json pc g)]))))))"

definition handle_exchange_response :: "peer_codec \<Rightarrow> response \<Rightarrow> string \<Rightarrow> readings \<Rightarrow> peer_manager \<Rightarrow> peer_manager" where
  "handle_exchange_response pc resp target_id t m =
    (case resp of (ok, body) \<Rightarrow>
     if \<not> ok then m
     else let m1 = (case Option.bind body (\<lambda>b. Option.bind (json_get b ''peers'') as_array) of
                      None \<Rightarrow> m
                    | Some ps \<Rightarrow> fst (merge_peers_at pc ps ''peers'' (rd_merge_epoch t) (rd_merge_instant t) m))
       in case hget (pm_peers m1) target_id of
            None \<Rightarrow> m1
          | Some p \<Rightarrow> m1\<lparr>pm_peers := hput target_id (p\<lparr>pi_last_contact := rd_contact t\<rparr>) (pm_peers m1)\<rparr>)"

text \<open>One exchange: \<open>answer\<close> is what the network returns to a URL, the signature header if there is one, and the body.\<close>

definition exchange ::
    "peer_codec \<Rightarrow> (string \<Rightarrow> string option \<Rightarrow> string \<Rightarrow> response option) \<Rightarrow> string \<Rightarrow> readings \<Rightarrow> peer_info \<Rightarrow> peer_manager \<Rightarrow> peer_manager" where
  "exchange pc answer replay_id t target m =
    (let known = map (to_gossip_value pc) (hvals (pm_peers m)) @
           (case own_peer_value pc m (pm_own_id m) (pm_own_endpoint m) of None \<Rightarrow> [] | Some own \<Rightarrow> [own]) in
     case exchange_body pc (rd_verified t) replay_id m (JObj [(''known_peers'', JArr known)]) of
       None \<Rightarrow> m
     | Some body \<Rightarrow>
    (case answer (trim_end_char CHR ''/'' (pi_endpoint target) @ ''/v1/peers'')
            (if pm_node_token m = [] then None else Some (sign_body (pc_hmac pc) body (pm_node_token m))) body of
       None \<Rightarrow> m
     | Some resp \<Rightarrow> handle_exchange_response pc resp (pi_node_id target) t m))"

text \<open>\<^verbatim>\<open>min_by_key\<close> on the last contact.\<close>

fun oldest :: "peer_info list \<Rightarrow> peer_info option" where
  "oldest [] = None"
| "oldest (p # ps) = Some (fold (\<lambda>q best. if pi_last_contact q < pi_last_contact best then q else best) ps p)"

definition gossip_round ::
    "peer_codec \<Rightarrow> ((string \<times> string) list \<Rightarrow> response option) \<Rightarrow> (string \<Rightarrow> string option \<Rightarrow> string \<Rightarrow> response option)
      \<Rightarrow> string \<Rightarrow> readings \<Rightarrow> readings \<Rightarrow> peer_manager \<Rightarrow> peer_manager" where
  "gossip_round pc directory answer replay_id t t' m =
    (case get_peers (rd_prune_instant t) (rd_prune_epoch t) m of (m1, ps) \<Rightarrow>
    (case oldest ps of
       None \<Rightarrow> bootstrap pc directory t m1
     | Some target \<Rightarrow> fst (prune (rd_prune_instant t') (rd_prune_epoch t') (exchange pc answer replay_id t target m1))))"

subsection \<open>Runs of a manager\<close>

datatype peer_event =
    Started "(string \<times> string) list \<Rightarrow> response option" readings string string
  | Gossiped "(string \<times> string) list \<Rightarrow> response option" "string \<Rightarrow> string option \<Rightarrow> string \<Rightarrow> response option" string readings readings
  | Inbound string "string option" readings
  | Revoked u64
  | Looked nat u64

primrec peer_step :: "peer_codec \<Rightarrow> peer_event \<Rightarrow> peer_manager \<Rightarrow> peer_manager" where
  "peer_step pc (Started answer t node_id endpoint) m = start pc answer t node_id endpoint m"
| "peer_step pc (Gossiped directory answer replay_id t t') m = gossip_round pc directory answer replay_id t t' m"
| "peer_step pc (Inbound body sig t) m = fst (peers_endpoint pc body sig t m)"
| "peer_step pc (Revoked g) m = fst (update_minimum_generation g m)"
| "peer_step pc (Looked now epoch) m = fst (prune now epoch m)"

text \<open>What the table of a restricted manager says of a peer: an assertion of the domain's authority for exactly this
  node, that verified for a gossip or bootstrap scope at some time, of a generation not revoked since, and a plain
  HTTP endpoint with a usable relay port and load.\<close>

definition peer_verified :: "peer_codec \<Rightarrow> restricted_admission \<Rightarrow> u64 \<Rightarrow> string \<Rightarrow> peer_info \<Rightarrow> bool" where
  "peer_verified pc r minimum k p \<longleftrightarrow>
     pi_node_id p = k \<and> k \<noteq> [] \<and>
     (\<exists>u. pc_parse_url pc (pi_endpoint p) = Some u \<and> valid_peer_url u) \<and> pi_relay_accept_port p \<noteq> 0 \<and> 0 \<le> pi_relay_load p \<and>
     (\<exists>e epoch scope. scope \<in> {''peers'', ''bootstrap''} \<and> verify_membership (pc_member pc) e (ra_policy r) k scope epoch = Inr () \<and>
        minimum \<le> as_generation (me_assertion e) \<and> pi_membership p = Some e \<and>
        pi_trust_domain_id p = Some (mp_domain_id (ra_policy r)) \<and>
        pi_membership_generation p = Some (as_generation (me_assertion e)) \<and>
        pi_membership_expires_at p = Some (as_expires_at (me_assertion e)))"

text \<open>A property of the entries of a table, which may depend on the minimum generation in force.\<close>

definition table_all :: "admission_mode \<Rightarrow> (u64 \<Rightarrow> string \<Rightarrow> peer_info \<Rightarrow> bool) \<Rightarrow> peer_manager \<Rightarrow> bool" where
  "table_all mode Q m \<longleftrightarrow> pm_admission m = mode \<and> hwf (pm_peers m) \<and>
     (\<forall>k p. hget (pm_peers m) k = Some p \<longrightarrow> Q (pm_minimum_generation m) k p)"

lemma verify_membership_weaker:
  assumes "verify_membership mc e (current_policy minimum r) k scope epoch = Inr ()"
  shows "verify_membership mc e (ra_policy r) k scope epoch = Inr ()" "minimum \<le> as_generation (me_assertion e)"
  using assms by (auto simp: membership_defs current_policy_def not_less)

lemma relay_fields_ok:
  assumes "\<not> invalid_relay_port p" and "\<not> invalid_relay_load fl p"
  shows "pi_relay_accept_port (peer_info fl p k e now) \<noteq> 0" "0 \<le> pi_relay_load (peer_info fl p k e now)"
proof -
  have small: "ucast w \<noteq> (0 :: u16)" if "w \<noteq> 0" "w \<le> 65535" for w :: u64
  proof
    assume "ucast w = (0 :: u16)"
    then have "unat (ucast w :: u16) = 0" by simp
    moreover have "unat w \<le> 65535" using that(2) by (simp add: word_le_nat_alt)
    ultimately have "unat w = 0" by (simp add: unsigned_ucast_eq take_bit_nat_def)
    then show False using that(1) by (simp add: unat_eq_zero)
  qed
  show "pi_relay_accept_port (peer_info fl p k e now) \<noteq> 0"
    using assms(1) small by (cases "json_get p ''relay_accept_port''")
      (auto simp: peer_info_def invalid_relay_port_def get_u64_def json_index_def not_less unwrap_or_def split: option.splits)
  show "0 \<le> pi_relay_load (peer_info fl p k e now)"
    using assms(2) by (cases "json_get p ''relay_load''")
      (auto simp: peer_info_def invalid_relay_load_def json_index_def not_less unwrap_or_def split: option.splits)
qed

lemma admitted_verified:
  assumes "admitted_membership pc (Restricted r) minimum p k scope epoch = Some e" and "scope \<in> {''peers'', ''bootstrap''}" and "k \<noteq> []"
  shows "peer_verified pc r minimum k (peer_info (pc_fl pc) p k e now)"
proof -
  from assms(1) obtain env where e: "e = Some env" and valid: "valid_restricted_peer pc p"
    and v: "verify_membership (pc_member pc) env (current_policy minimum r) k scope epoch = Inr ()"
    by (auto simp: admitted_membership_def verified_restricted_membership_def split: if_splits option.splits sum.splits dest!: sym [of "Some _"])
  from valid obtain endpoint u where u: "get_str p ''endpoint'' = Some endpoint" "pc_parse_url pc endpoint = Some u" "valid_peer_url u"
    and port: "\<not> invalid_relay_port p" and load: "\<not> invalid_relay_load (pc_fl pc) p"
    by (auto simp: valid_restricted_peer_def split: option.splits)
  have "pi_endpoint (peer_info (pc_fl pc) p k e now) = endpoint"
    using u(1) by (auto simp: peer_info_def get_str_def json_index_def split: bind_splits)
  moreover have "as_domain_id (me_assertion env) = mp_domain_id (ra_policy r)"
    using verify_membership_facts(2) [OF verify_membership_weaker(1) [OF v]] .
  ultimately show ?thesis
    unfolding peer_verified_def using u(2,3) relay_fields_ok [OF port load] verify_membership_weaker [OF v] assms(2,3) e
    by (auto simp: peer_info_def)
qed

lemma peer_verified_raise:
  "peer_verified pc r minimum k p \<Longrightarrow> (case pi_membership_generation p of None \<Rightarrow> True | Some g \<Rightarrow> minimum' \<le> g) \<Longrightarrow> peer_verified pc r minimum' k p"
  unfolding peer_verified_def by fastforce

lemma exchange_keeps_peers:
  "verified_peer_dicts pc body sig a b m = (m', res) \<Longrightarrow> \<exists>ids. m' = m\<lparr>pm_replay_ids := ids\<rparr>"
  by (auto simp: verified_peer_dicts_def verify_and_extract_exchange_def verify_restricted_exchange_def
      split: admission_mode.splits if_splits option.splits sum.splits prod.splits intro: exI [of _ "pm_replay_ids m"])

text \<open>Such a property holds of every entry of every reachable table if it holds of the entries admission lets in, outlasts
  a raise of the generation for the entries the raise keeps, and does not depend on the time of the last contact.\<close>

locale peer_table =
  fixes pc :: peer_codec
    and mode :: admission_mode
    and Q :: "u64 \<Rightarrow> string \<Rightarrow> peer_info \<Rightarrow> bool"
  assumes admitted: "admitted_membership pc mode minimum v k scope epoch = Some e \<Longrightarrow> scope \<in> {''peers'', ''bootstrap''} \<Longrightarrow> k \<noteq> [] \<Longrightarrow>
      Q minimum k (peer_info (pc_fl pc) v k e now)"
    and raised: "Q minimum k p \<Longrightarrow> (case pi_membership_generation p of None \<Rightarrow> True | Some g \<Rightarrow> minimum' \<le> g) \<Longrightarrow> Q minimum' k p"
    and contacted: "Q minimum k p \<Longrightarrow> Q minimum k (p\<lparr>pi_last_contact := t\<rparr>)"
begin

lemma merge_keeps:
  assumes "hwf peers" and "\<forall>k p. hget peers k = Some p \<longrightarrow> Q minimum k p" and "scope \<in> {''peers'', ''bootstrap''}"
    and "fold (merge_one pc mode own scope epoch now minimum) incoming (peers, n) = (peers', n')"
  shows "hwf peers' \<and> (\<forall>k p. hget peers' k = Some p \<longrightarrow> Q minimum k p)"
  using assms(1,2,4)
proof (induction incoming arbitrary: peers n)
  case (Cons v vs)
  obtain q i where one: "merge_one pc mode own scope epoch now minimum v (peers, n) = (q, i)" by fastforce
  have "hwf q \<and> (\<forall>k p. hget q k = Some p \<longrightarrow> Q minimum k p)"
    using one Cons.prems(1,2) admitted [OF _ assms(3)]
    by (auto simp: merge_one_def Let_def split: if_splits option.splits)
  then show ?case using Cons.IH [of q i] Cons.prems(3) one by simp
qed simp

lemma merge_table:
  assumes "table_all mode Q m" and "scope \<in> {''peers'', ''bootstrap''}"
  shows "table_all mode Q (fst (merge_peers_at pc incoming scope epoch now m))"
proof -
  obtain peers n where f: "fold (merge_one pc mode (pm_own_id m) scope epoch now (pm_minimum_generation m)) incoming (pm_peers m, 0) = (peers, n)"
    by fastforce
  show ?thesis using merge_keeps [OF _ _ assms(2) f] assms(1) f by (auto simp: table_all_def merge_peers_at_def)
qed

lemma prune_table: "table_all mode Q m \<Longrightarrow> table_all mode Q (fst (prune now epoch m))"
  by (auto simp: table_all_def prune_def Let_def hget_hretain split: option.splits if_splits)

lemma update_table:
  assumes "table_all mode Q m"
  shows "table_all mode Q (fst (update_minimum_generation g m))"
proof -
  let ?P = "\<lambda>_ p. case pi_membership_generation p of None \<Rightarrow> True | Some h \<Rightarrow> max (pm_minimum_generation m) g \<le> h"
  have "Q (max (pm_minimum_generation m) g) k p" if "hget (hretain ?P (pm_peers m)) k = Some p" for k p
  proof -
    from that assms have "hget (pm_peers m) k = Some p" "?P k p"
      by (simp_all add: table_all_def hget_hretain split: option.split_asm if_split_asm)
    then show ?thesis using assms raised unfolding table_all_def by blast
  qed
  then show ?thesis using assms by (simp add: table_all_def update_minimum_generation_def Let_def)
qed

lemma bootstrap_table: "table_all mode Q m \<Longrightarrow> table_all mode Q (bootstrap pc answer t m)"
  by (auto simp: bootstrap_def merge_bootstrap_response_def merge_table split: option.splits prod.splits if_splits)

lemma own_table: "table_all mode Q m \<Longrightarrow> table_all mode Q (m\<lparr>pm_own_id := i, pm_own_endpoint := e\<rparr>)"
  by (simp add: table_all_def)

lemma contact_table:
  "table_all mode Q m \<Longrightarrow> hget (pm_peers m) k = Some p \<Longrightarrow> table_all mode Q (m\<lparr>pm_peers := hput k (p\<lparr>pi_last_contact := t\<rparr>) (pm_peers m)\<rparr>)"
  by (auto simp: table_all_def contacted)

lemma response_table: "table_all mode Q m \<Longrightarrow> table_all mode Q (handle_exchange_response pc resp k t m)"
  by (auto simp: handle_exchange_response_def Let_def merge_table contact_table split: prod.split option.split)

lemma exchange_table: "table_all mode Q m \<Longrightarrow> table_all mode Q (exchange pc answer i t target m)"
  by (simp add: exchange_def Let_def response_table split: option.split)

lemma gossip_table: "table_all mode Q m \<Longrightarrow> table_all mode Q (gossip_round pc directory answer i t t' m)"
  by (simp add: gossip_round_def get_peers_def Let_def prune_table bootstrap_table exchange_table split: option.split)

lemma inbound_table:
  assumes "table_all mode Q m"
  shows "table_all mode Q (fst (peers_endpoint pc body sig t m))"
proof -
  obtain m1 res where v: "verified_peer_dicts pc body sig (rd_verified t) (rd_recorded t) m = (m1, res)" by fastforce
  from exchange_keeps_peers [OF this] have "table_all mode Q m1" using assms by (auto simp: table_all_def)
  then show ?thesis using v by (simp add: peers_endpoint_def Let_def get_peers_def merge_table prune_table split: sum.split)
qed

lemma step_table: "table_all mode Q m \<Longrightarrow> table_all mode Q (peer_step pc e m)"
  by (cases e) (simp_all add: start_def bootstrap_table own_table gossip_table inbound_table update_table prune_table)

lemma fresh_table: "po_admission opts = mode \<Longrightarrow> table_all mode Q (with_opts url token opts)"
  by (simp add: table_all_def with_opts_def)

end

sublocale peer_table \<subseteq> step_system "peer_step pc" "table_all mode Q"
  by unfold_locales (rule step_table)

interpretation member: peer_table pc "Restricted r" "peer_verified pc r" for pc r
proof unfold_locales
  fix minimum k p t
  assume "peer_verified pc r minimum k p"
  then show "peer_verified pc r minimum k (p\<lparr>pi_last_contact := t\<rparr>)" by (simp add: peer_verified_def)
qed (erule (2) admitted_verified, erule (1) peer_verified_raise)

interpretation named: peer_table pc mode "\<lambda>_ k p. pi_node_id p = k" for pc mode
  by unfold_locales (simp_all add: peer_info_def)

text \<open>C9. In a restricted domain tasks are relayed to verified members only.  Whatever the directory answers, whatever
  other nodes send or return, and however often the required generation is raised, every relay target of a restricted manager
  is a node for which the authority signed an assertion that verified, of a generation that is still accepted and
  not expired at the time of the lookup.\<close>

theorem relay_targets_verified:
  assumes "po_admission opts = Restricted r" and "m = fold (peer_step pc) es (with_opts url token opts)"
    and "relay_target now epoch k m = (m', Some p)"
  shows "peer_verified pc r (pm_minimum_generation m) k p \<and> (\<exists>x. pi_membership_expires_at p = Some x \<and> epoch < x)"
proof -
  have "table_all (Restricted r) (peer_verified pc r) (with_opts url token opts)" using assms(1) by (simp add: table_all_def with_opts_def)
  then have m: "table_all (Restricted r) (peer_verified pc r) m" unfolding assms(2) by (rule member.run_inv)
  from assms(3) m have found: "hget (pm_peers m) k = Some p" and x: "\<forall>x. pi_membership_expires_at p = Some x \<longrightarrow> epoch < x"
    by (auto simp: relay_target_def prune_def Let_def table_all_def hget_hretain split: option.splits if_splits)
  from found m have "peer_verified pc r (pm_minimum_generation m) k p" by (simp add: table_all_def)
  with x show ?thesis by (auto simp: peer_verified_def)
qed

subsection \<open>A gossip message is accepted once\<close>

definition replay_offer :: "u64 \<Rightarrow> string \<Rightarrow> u64 \<Rightarrow> (string, u64) hmap \<Rightarrow> (string, u64) hmap \<times> bool" where
  "replay_offer now replay_id x ids = (case record_replay now replay_id x ids of (ids', Inl _) \<Rightarrow> (ids', False) | (ids', Inr _) \<Rightarrow> (ids', True))"

lemma replay_offer_map: "replay_offer = offer_map (Some MAX_REPLAY_IDS)"
  by (intro ext) (simp add: replay_offer_def record_replay_def offer_map_def Let_def)

interpretation gossip: replay_guard replay_offer hget hwf
  unfolding replay_offer_map by (rule offer_map_guard)

text \<open>The offers a run makes to the replay record, and how often the body \<open>b\<close> is accepted in it.\<close>

definition event_offers :: "peer_codec \<Rightarrow> restricted_admission \<Rightarrow> peer_event \<Rightarrow> peer_manager \<Rightarrow> (u64, string) presentation list" where
  "event_offers pc r e m =
    (case e of Inbound body sig t \<Rightarrow>
       (case parse_restricted_exchange pc body of
          Inr (membership, gossip, peers, payload) \<Rightarrow>
            if verify_gossip (pc_member pc) gossip membership (current_policy (pm_minimum_generation m) r) payload (rd_verified t) False = Inr ()
            then [(rd_recorded t, gp_replay_id (ge_proof gossip), as_expires_at (me_assertion membership))] else []
        | Inl _ \<Rightarrow> [])
     | _ \<Rightarrow> [])"

primrec run_offers :: "peer_codec \<Rightarrow> restricted_admission \<Rightarrow> peer_event list \<Rightarrow> peer_manager \<Rightarrow> (u64, string) presentation list" where
  "run_offers pc r [] m = []"
| "run_offers pc r (e # es) m = event_offers pc r e m @ run_offers pc r es (peer_step pc e m)"

definition accepts :: "peer_codec \<Rightarrow> string \<Rightarrow> peer_event \<Rightarrow> peer_manager \<Rightarrow> bool" where
  "accepts pc b e m = (case e of Inbound body sig t \<Rightarrow> body = b \<and> fst (snd (peers_endpoint pc body sig t m)) = 200 | _ \<Rightarrow> False)"

primrec accepted :: "peer_codec \<Rightarrow> string \<Rightarrow> peer_event list \<Rightarrow> peer_manager \<Rightarrow> nat" where
  "accepted pc b [] m = 0"
| "accepted pc b (e # es) m = (if accepts pc b e m then 1 else 0) + accepted pc b es (peer_step pc e m)"

text \<open>The readings at which inbound messages are recorded, and that no assertion expires between the verification of a
  message and its record.\<close>

definition event_times :: "peer_event \<Rightarrow> u64 list" where
  "event_times e = (case e of Inbound body sig t \<Rightarrow> [rd_recorded t] | _ \<Rightarrow> [])"

definition prompt_exchange :: "peer_codec \<Rightarrow> peer_event \<Rightarrow> bool" where
  "prompt_exchange pc e =
    (case e of Inbound body sig t \<Rightarrow>
       (case parse_restricted_exchange pc body of
          Inr (membership, _) \<Rightarrow> rd_verified t < as_expires_at (me_assertion membership) \<longrightarrow> rd_recorded t < as_expires_at (me_assertion membership)
        | Inl _ \<Rightarrow> True)
     | _ \<Rightarrow> True)"

text \<open>No operation but an inbound message touches the replay record.\<close>

lemma merge_replay [simp]: "pm_replay_ids (fst (merge_peers_at pc ps scope epoch now m)) = pm_replay_ids m"
  by (simp add: merge_peers_at_def split: prod.split)

lemma prune_replay [simp]: "pm_replay_ids (fst (prune now epoch m)) = pm_replay_ids m"
  by (simp add: prune_def Let_def)

lemma bootstrap_replay [simp]: "pm_replay_ids (bootstrap pc answer t m) = pm_replay_ids m"
  by (simp add: bootstrap_def merge_bootstrap_response_def split: option.split prod.split)

lemma exchange_replay [simp]: "pm_replay_ids (exchange pc answer i t target m) = pm_replay_ids m"
  by (simp add: exchange_def handle_exchange_response_def Let_def split: option.split prod.split)

lemma inbound_replay:
  assumes "pm_admission m = Restricted r"
  shows "(pm_replay_ids (peer_step pc (Inbound body sig t) m), accepts pc body (Inbound body sig t) m) =
    (case event_offers pc r (Inbound body sig t) m of [] \<Rightarrow> (pm_replay_ids m, False) | (now, k, x) # _ \<Rightarrow> replay_offer now k x (pm_replay_ids m))"
proof -
  have "pm_replay_ids (fst (peers_endpoint pc body sig t m)) = pm_replay_ids (fst (verified_peer_dicts pc body sig (rd_verified t) (rd_recorded t) m))"
    "fst (snd (peers_endpoint pc body sig t m)) = 200 \<longleftrightarrow> (\<exists>ps. snd (verified_peer_dicts pc body sig (rd_verified t) (rd_recorded t) m) = Inr ps)"
    by (auto simp: peers_endpoint_def get_peers_def Let_def split: prod.split sum.split)
  then show ?thesis using assms
    by (auto simp: accepts_def event_offers_def replay_offer_def verified_peer_dicts_def verify_and_extract_exchange_def
        verify_restricted_exchange_def split: prod.splits sum.splits)
qed

lemma other_replay: "(case e of Inbound body sig t \<Rightarrow> False | _ \<Rightarrow> True) \<Longrightarrow> pm_replay_ids (peer_step pc e m) = pm_replay_ids m"
  by (cases e) (simp_all add: start_def gossip_round_def get_peers_def update_minimum_generation_def Let_def split: option.split)

lemma event_offers_cases:
  "event_offers pc r e m = [] \<or> (\<exists>body sig t membership gossip peers payload. e = Inbound body sig t \<and>
     parse_restricted_exchange pc body = Inr (membership, gossip, peers, payload) \<and> rd_verified t < as_expires_at (me_assertion membership) \<and>
     event_offers pc r e m = [(rd_recorded t, gp_replay_id (ge_proof gossip), as_expires_at (me_assertion membership))])"
  by (cases e) (auto simp: event_offers_def dest!: verify_gossip_membership dest: verify_membership_facts(4) split: sum.split)

lemma step_replay:
  assumes "table_all (Restricted r) (peer_verified pc r) m"
  shows "(pm_replay_ids (peer_step pc e m), \<exists>body. accepts pc body e m) =
    (case event_offers pc r e m of [] \<Rightarrow> (pm_replay_ids m, False) | (now, k, x) # _ \<Rightarrow> replay_offer now k x (pm_replay_ids m))"
proof (cases "case e of Inbound body sig t \<Rightarrow> False | _ \<Rightarrow> True")
  case True
  then have "event_offers pc r e m = []" "\<And>b. \<not> accepts pc b e m"
    by (simp_all add: event_offers_def accepts_def split: peer_event.splits)
  then show ?thesis using other_replay [OF True] by simp
next
  case False
  then obtain body sig t where e: "e = Inbound body sig t" by (simp split: peer_event.splits)
  have "pm_admission m = Restricted r" using assms by (simp add: table_all_def)
  moreover have "(\<exists>b. accepts pc b e m) = accepts pc body e m" unfolding e by (auto simp: accepts_def)
  ultimately show ?thesis using inbound_replay [of m r pc body sig t] e by simp
qed

lemma accepted_taken:
  assumes "parse_restricted_exchange pc b = Inr (membership, g, peers, payload)" and "table_all (Restricted r) (peer_verified pc r) m"
  shows "accepted pc b es m \<le>
    taken replay_offer (gp_replay_id (ge_proof g)) (as_expires_at (me_assertion membership)) (run_offers pc r es m) (pm_replay_ids m)"
  using assms(2)
proof (induction es arbitrary: m)
  case (Cons e es)
  note step = step_replay [OF Cons.prems, of e]
  note ih = Cons.IH [OF member.step_table [OF Cons.prems, of e]]
  show ?case
  proof (cases "event_offers pc r e m")
    case Nil
    then have "\<not> accepts pc b e m" "pm_replay_ids (peer_step pc e m) = pm_replay_ids m" using step by auto
    then show ?thesis using ih Nil by simp
  next
    case (Cons q qs)
    then obtain body sig t mb' g' ps pl where e: "e = Inbound body sig t" "parse_restricted_exchange pc body = Inr (mb', g', ps, pl)"
      and o: "event_offers pc r e m = [(rd_recorded t, gp_replay_id (ge_proof g'), as_expires_at (me_assertion mb'))]"
      using event_offers_cases [of pc r e m] by auto
    have "accepts pc b e m \<Longrightarrow> mb' = membership \<and> g' = g" using e assms(1) by (auto simp: accepts_def)
    moreover have "(pm_replay_ids (peer_step pc e m), \<exists>b. accepts pc b e m) =
        replay_offer (rd_recorded t) (gp_replay_id (ge_proof g')) (as_expires_at (me_assertion mb')) (pm_replay_ids m)"
      using step o by simp
    ultimately show ?thesis using ih o by (auto simp del: peer_step.simps split: prod.split)
  qed
qed simp

lemma run_offers_within:
  assumes "sorted (concat (map event_times es))" and "list_all (prompt_exchange pc) es"
  shows "sorted (map fst (run_offers pc r es m)) \<and> list_all (unexpired j x) (run_offers pc r es m) \<and>
    set (map fst (run_offers pc r es m)) \<subseteq> set (concat (map event_times es))"
  using assms
proof (induction es arbitrary: m)
  case (Cons e es)
  have ih: "sorted (map fst (run_offers pc r es m'))" "list_all (unexpired j x) (run_offers pc r es m')"
      "set (map fst (run_offers pc r es m')) \<subseteq> set (concat (map event_times es))" for m'
    using Cons.IH [of m'] Cons.prems by (simp_all add: sorted_append)
  from event_offers_cases [of pc r e m] show ?case
  proof (elim disjE exE conjE)
    assume "event_offers pc r e m = []"
    then show ?thesis using ih [of "peer_step pc e m"] by fastforce
  next
    fix body sig t membership g peers payload
    assume e: "e = Inbound body sig t" "parse_restricted_exchange pc body = Inr (membership, g, peers, payload)"
        "rd_verified t < as_expires_at (me_assertion membership)"
      and o: "event_offers pc r e m = [(rd_recorded t, gp_replay_id (ge_proof g), as_expires_at (me_assertion membership))]"
    have "rd_recorded t < as_expires_at (me_assertion membership)" using Cons.prems(2) e by (simp add: prompt_exchange_def)
    moreover have "\<forall>s \<in> set (concat (map event_times es)). rd_recorded t \<le> s" using Cons.prems(1) e(1) by (auto simp: event_times_def sorted_append)
    moreover define q where "q = run_offers pc r es (peer_step pc e m)"
    moreover have "set (map fst q) \<subseteq> set (concat (map event_times es))" unfolding q_def by (rule ih(3))
    ultimately have "\<forall>p \<in> set q. rd_recorded t \<le> fst p" "unexpired j x (hd (event_offers pc r e m))"
      using o by (auto simp: unexpired_def)
    moreover have "run_offers pc r (e # es) m = event_offers pc r e m @ q" "event_times e = [rd_recorded t]"
      unfolding q_def e(1) by (simp_all add: event_times_def)
    ultimately show ?thesis using ih [of "peer_step pc e m", folded q_def] o by auto
  qed
qed simp


text \<open>Without the proviso a message can be recorded twice: at the expiry of the assertion the first record is already
  dropped when the second is made.\<close>

lemma gossip_replay_race:
  "snd (record_replay 100 i 100 []) = Inr () \<and> snd (record_replay 100 i 100 (fst (record_replay 100 i 100 []))) = Inr ()"
  by (simp add: record_replay_def hretain_def MAX_REPLAY_IDS_def Let_def)

subsection \<open>Election\<close>

lemma score_le_trans: "\<not> score_less a c \<Longrightarrow> \<not> score_less b a \<Longrightarrow> \<not> score_less b c"
  by (auto simp: score_less_def)

lemma fold_better: "fold (better f) xs x \<in> insert x (set xs) \<and> (\<forall>y \<in> insert x (set xs). \<not> score_less (f y) (f (fold (better f) xs x)))"
proof (induction xs arbitrary: x)
  case (Cons z zs)
  have "\<not> score_less (f x) (f (better f z x))" "\<not> score_less (f z) (f (better f z x))" "better f z x \<in> {x, z}"
    by (auto simp: better_def score_less_def)
  then show ?case using Cons.IH [of "better f z x"] score_le_trans [of "f (better f z x)"] by auto
qed (simp add: score_less_def)

lemma min_by_spec: "min_by f xs = Some x \<Longrightarrow> x \<in> set xs \<and> (\<forall>y \<in> set xs. \<not> score_less (f y) (f x))"
  using fold_better [of f] by (cases xs) auto

lemma min_by_None: "min_by f xs = None \<longleftrightarrow> xs = []"
  by (cases xs) simp_all

text \<open>What an election looks at in a candidate.\<close>

definition relay_view :: "peer_info \<Rightarrow> string \<times> string \<times> u16 \<times> rat" where
  "relay_view p = (pi_node_id p, pi_endpoint p, pi_relay_accept_port p, pi_relay_load p)"

lemma named_entry:
  assumes "table_all mode (\<lambda>_ k p. pi_node_id p = k) m" and "v \<in> set (hvals (pm_peers m))"
  shows "hget (pm_peers m) (pi_node_id v) = Some v"
proof -
  have w: "hwf (pm_peers m)" using assms(1) unfolding table_all_def by blast
  have n: "hget (pm_peers m) k = Some v \<Longrightarrow> pi_node_id v = k" for k v using assms(1) unfolding table_all_def by blast
  show ?thesis using n in_hvals_iff [OF w] assms(2) by metis
qed

lemma candidates_named:
  assumes "table_all mode (\<lambda>_ k p. pi_node_id p = k) m" and "get_relay_candidates now epoch m = (m1, c)"
  shows "inj_on pi_node_id (set c)"
proof (rule inj_onI)
  fix p q
  assume pq: "p \<in> set c" "q \<in> set c" "pi_node_id p = pi_node_id q"
  have c: "set c \<subseteq> set (hvals (pm_peers (fst (prune now epoch m))))" using assms(2) by (auto simp: get_relay_candidates_def Let_def)
  note found = named_entry [OF named.prune_table [OF assms(1)]]
  have "Some p = Some q" using found [OF subsetD [OF c pq(1)]] found [OF subsetD [OF c pq(2)]] pq(3) by (simp only:)
  then show "p = q" by simp
qed

text \<open>Relay election needs no coordination.  Two nodes whose tables hold the same relay candidates, in whatever order
  and however recently heard of, elect the same relay for a worker, with the same host and port, as long
  as SHA-256 separates the candidates; and no candidate has a lower score than the elected one.\<close>

theorem election_agrees:
  assumes "m = fold (peer_step pc) es (with_opts url token opts)" and "m' = fold (peer_step pc) es' (with_opts url' token' opts')"
    and "get_relay_candidates now epoch m = (m1, c)" and "get_relay_candidates now' epoch' m' = (m1', c')"
    and "relay_view ` set c = relay_view ` set c'"
    and "inj_on (\<lambda>i. mc_sha_hex (pc_member pc) (worker @ '':'' @ i)) (pi_node_id ` set c)"
  shows "map_option (\<lambda>e. (pi_node_id (el_peer e), el_relay_host e, el_relay_port e)) (snd (elect_relay pc now epoch worker m)) =
    map_option (\<lambda>e. (pi_node_id (el_peer e), el_relay_host e, el_relay_port e)) (snd (elect_relay pc now' epoch' worker m')) \<and>
    (\<forall>e. snd (elect_relay pc now epoch worker m) = Some e \<longrightarrow> el_peer e \<in> set c \<and>
       (\<forall>q \<in> set c. \<not> score_less (score pc worker q) (score pc worker (el_peer e))))"
proof (cases "c = []")
  case True
  then have "c' = []" using assms(5) by auto
  then show ?thesis using True assms(3,4) by (simp add: elect_relay_def)
next
  case False
  then have "c' \<noteq> []" using assms(5) by auto
  with False obtain p p' where p: "min_by (score pc worker) c = Some p" and p': "min_by (score pc worker) c' = Some p'"
    using min_by_None [of "score pc worker"] by fastforce
  note mp = min_by_spec [OF p] and mp' = min_by_spec [OF p']
  have view: "score pc worker a = score pc worker b" if "relay_view a = relay_view b" for a b
    using that by (simp add: relay_view_def score_def)
  obtain q where q: "q \<in> set c" "relay_view q = relay_view p'" using assms(5) mp' by (metis imageE imageI)
  obtain q' where q': "q' \<in> set c'" "relay_view q' = relay_view p" using assms(5) mp by (metis imageE imageI)
  have "\<not> score_less (score pc worker q) (score pc worker p)" using mp q(1) by blast
  moreover have "\<not> score_less (score pc worker p) (score pc worker q)" using mp' q'(1) view [OF q(2)] view [OF q'(2)] by metis
  ultimately have "score pc worker q = score pc worker p" by (auto simp: score_less_def prod_eq_iff)
  then have "mc_sha_hex (pc_member pc) (worker @ '':'' @ pi_node_id q) = mc_sha_hex (pc_member pc) (worker @ '':'' @ pi_node_id p)"
    by (simp add: score_def)
  then have "pi_node_id q = pi_node_id p" using inj_onD [OF assms(6)] q(1) mp by blast
  moreover have "inj_on pi_node_id (set c)"
    by (rule candidates_named [OF _ assms(3)]) (unfold assms(1), rule named.run_inv, rule named.fresh_table, rule refl)
  ultimately have "q = p" using q(1) mp by (meson inj_onD)
  then show ?thesis using q(2) p p' mp assms(3,4) by (simp add: elect_relay_def relay_view_def)
qed

text \<open>The host of an IPv6 endpoint without a port is cut inside its brackets.\<close>

lemma extract_host_ipv6: "extract_host ''http://[2001:db8::1]/x'' = ''[2001:db8:''"
  by (simp add: extract_host_def before_last_def strip_prefix_def)

subsection \<open>Revocation under concurrency\<close>

text \<open>
  \<^verbatim>\<open>update_minimum_generation\<close> raises the atomic minimum, loads it again, and then filters the table under its lock;
  \<^verbatim>\<open>merge_peers_at\<close> holds the lock for the whole loop and loads the minimum for each entry.  The threads that update are
  numbered; a thread is idle, has raised the minimum, or has loaded it.  A merge in progress may have loaded the minimum for
  the entry it works on.
\<close>

datatype update_phase = Idle | Raised | Loaded u64

record shared_table =
  st_minimum :: u64
  st_peers :: "(string, peer_info) hmap"
  st_locked :: bool
  st_entry :: "u64 option"
  st_phase :: "nat \<Rightarrow> update_phase"

inductive table_step :: "peer_codec \<Rightarrow> restricted_admission \<Rightarrow> shared_table \<Rightarrow> shared_table \<Rightarrow> bool" for pc r where
  raise: "st_phase s t = Idle \<Longrightarrow>
    table_step pc r s (s\<lparr>st_minimum := max (st_minimum s) g, st_phase := (st_phase s)(t := Raised)\<rparr>)"
| reload: "st_phase s t = Raised \<Longrightarrow> table_step pc r s (s\<lparr>st_phase := (st_phase s)(t := Loaded (st_minimum s))\<rparr>)"
| retain: "st_phase s t = Loaded minimum \<Longrightarrow> \<not> st_locked s \<Longrightarrow>
    table_step pc r s (s\<lparr>st_peers := hretain (\<lambda>_ p. case pi_membership_generation p of None \<Rightarrow> True | Some g \<Rightarrow> minimum \<le> g) (st_peers s),
      st_phase := (st_phase s)(t := Idle)\<rparr>)"
| merge_begin: "\<not> st_locked s \<Longrightarrow> table_step pc r s (s\<lparr>st_locked := True\<rparr>)"
| merge_load: "st_locked s \<Longrightarrow> st_entry s = None \<Longrightarrow> table_step pc r s (s\<lparr>st_entry := Some (st_minimum s)\<rparr>)"
| merge_insert: "st_entry s = Some minimum \<Longrightarrow>
    table_step pc r s (s\<lparr>st_peers := fst (merge_one pc (Restricted r) own scope epoch now minimum v (st_peers s, n)), st_entry := None\<rparr>)"
| merge_end: "st_locked s \<Longrightarrow> st_entry s = None \<Longrightarrow> table_step pc r s (s\<lparr>st_locked := False\<rparr>)"
| drop: "\<not> st_locked s \<Longrightarrow> table_step pc r s (s\<lparr>st_peers := hretain P (st_peers s)\<rparr>)"

definition new_table :: "u64 \<Rightarrow> shared_table" where
  "new_table minimum = \<lparr>st_minimum = minimum, st_peers = [], st_locked = False, st_entry = None, st_phase = (\<lambda>_. Idle)\<rparr>"

definition generations_ok :: "u64 \<Rightarrow> (string, peer_info) hmap \<Rightarrow> bool" where
  "generations_ok minimum peers \<longleftrightarrow> (\<forall>k p. hget peers k = Some p \<longrightarrow> (\<exists>g. pi_membership_generation p = Some g \<and> minimum \<le> g))"

text \<open>Either the table is up to date, or some thread is still going to filter it by the minimum in force.\<close>

definition revocation_inv :: "shared_table \<Rightarrow> bool" where
  "revocation_inv s \<longleftrightarrow> hwf (st_peers s) \<and> (st_entry s \<noteq> None \<longrightarrow> st_locked s) \<and> generations_ok 0 (st_peers s) \<and>
     ((generations_ok (st_minimum s) (st_peers s) \<and> (\<forall>minimum. st_entry s = Some minimum \<longrightarrow> minimum = st_minimum s)) \<or>
      (\<exists>t. st_phase s t = Raised \<or> st_phase s t = Loaded (st_minimum s)))"

lemma generations_retain: "hwf peers \<Longrightarrow> generations_ok g peers \<Longrightarrow> generations_ok g (hretain P peers)"
  by (auto simp: generations_ok_def hget_hretain split: option.splits if_splits)

lemma generations_filtered:
  "hwf peers \<Longrightarrow> generations_ok 0 peers \<Longrightarrow>
    generations_ok minimum (hretain (\<lambda>_ p. case pi_membership_generation p of None \<Rightarrow> True | Some g \<Rightarrow> minimum \<le> g) peers)"
  by (fastforce simp: generations_ok_def hget_hretain split: option.splits if_splits)

lemma generations_merge:
  assumes "hwf peers" and "generations_ok g peers" and "g \<le> minimum"
  shows "hwf (fst (merge_one pc (Restricted r) own scope epoch now minimum v (peers, n))) \<and>
    generations_ok g (fst (merge_one pc (Restricted r) own scope epoch now minimum v (peers, n)))"
proof (cases "admitted_membership pc (Restricted r) minimum v (unwrap_or (get_str v ''node_id'') []) scope epoch")
  case None
  then show ?thesis using assms by (simp add: merge_one_def Let_def)
next
  case (Some e)
  then obtain env where "e = Some env" "verify_membership (pc_member pc) env (current_policy minimum r) (unwrap_or (get_str v ''node_id'') []) scope epoch = Inr ()"
    by (auto simp: admitted_membership_def verified_restricted_membership_def split: if_splits option.splits sum.splits dest!: sym [of "Some _"])
  then have "\<exists>h. pi_membership_generation (peer_info (pc_fl pc) v k e now) = Some h \<and> g \<le> h" for k
    using verify_membership_weaker(2) assms(3) by (fastforce simp: peer_info_def)
  then show ?thesis using assms Some by (auto simp: merge_one_def Let_def generations_ok_def)
qed

lemma revocation_step: "table_step pc r s s' \<Longrightarrow> revocation_inv s \<Longrightarrow> revocation_inv s'"
proof (induction rule: table_step.induct)
  case (raise s t g)
  then show ?case by (auto simp: revocation_inv_def)
next
  case (reload s t)
  then show ?case by (auto simp: revocation_inv_def)
next
  case (retain s t minimum)
  show ?case
  proof (cases "minimum = st_minimum s")
    case True
    have w: "hwf (st_peers s)" "generations_ok 0 (st_peers s)" using retain.prems by (simp_all add: revocation_inv_def)
    show ?thesis using retain generations_filtered [OF w, of minimum] generations_retain [OF w] True
      by (auto simp: revocation_inv_def)
  next
    case False
    then have "st_phase s u = Raised \<or> st_phase s u = Loaded (st_minimum s) \<Longrightarrow> u \<noteq> t" for u using retain.hyps(1) by auto
    with retain show ?thesis unfolding revocation_inv_def by (auto simp: generations_retain)
  qed
next
  case (merge_insert s minimum own scope epoch now v n)
  then show ?case using generations_merge [of "st_peers s" 0 minimum pc r own scope epoch now v n]
      generations_merge [of "st_peers s" "st_minimum s" minimum pc r own scope epoch now v n]
    by (auto simp: revocation_inv_def)
qed (auto simp: revocation_inv_def generations_retain)

text \<open>C19. Raising the required generation takes effect under every interleaving.  Merges of gossip run concurrently with
  any number of updates, each loading the minimum before an entry is verified and inserting it later; whenever no update is in
  progress, no peer of the table has a generation below the minimum.\<close>

theorem revocation_complete:
  assumes "(table_step pc r)\<^sup>*\<^sup>* (new_table minimum) s" and "\<forall>t. st_phase s t = Idle" and "hget (st_peers s) k = Some p"
  shows "\<exists>g. pi_membership_generation p = Some g \<and> st_minimum s \<le> g"
proof -
  have "revocation_inv (new_table minimum)" by (simp add: revocation_inv_def new_table_def generations_ok_def)
  with assms(1) have "revocation_inv s" by (induction rule: rtranclp_induct) (auto intro: revocation_step)
  then show ?thesis using assms(2,3) by (auto simp: revocation_inv_def generations_ok_def)
qed

subsection \<open>A concrete domain\<close>

definition sample_gossip :: gossip_envelope where
  "sample_gossip = \<lparr>ge_proof = \<lparr>gp_sender_id = ''node-a'', gp_domain_id = ''domain-a'', gp_sent_at = 1090, gp_replay_id = ''u2'',
       gp_payload_sha256 = ''p'', gp_membership_assertion_id = ''u1''\<rparr>,
     ge_signature = \<lparr>sg_algorithm = ''Ed25519'', sg_key_id = Some ''k1'',
       sg_value = take 64 (sample_seed @ (GOSSIP_DOMAIN @ ''u2'') @ replicate 64 CHR ''.'')\<rparr>\<rparr>"

definition sample_peer_codec :: peer_codec where
  "sample_peer_codec = \<lparr>pc_member = sample_member_codec,
     pc_parse_url = (\<lambda>s. Some \<lparr>u_scheme = ''https'', u_username = [], u_password = None, u_host = Some ''a.b'', u_port = Some 443,
       u_origin = s, u_text = s, pu_fragment = None\<rparr>),
     pc_parse_json = (\<lambda>_. Some (JObj [(''known_peers'', JArr [])])), pc_print_json = (\<lambda>_. None), pc_jcs = (\<lambda>_. Some ''p''),
     pc_membership_of = (\<lambda>_. Some (sample_membership ''node-a'' 3)), pc_membership_json = (\<lambda>_. None),
     pc_gossip_of = (\<lambda>_. Some sample_gossip), pc_gossip_json = (\<lambda>_. JNull), pc_secret = (\<lambda>_. None),
     pc_hmac = (\<lambda>_ b. b), pc_fl = (\<lambda>x. x)\<rparr>"

definition sample_restricted :: restricted_admission where
  "sample_restricted = \<lparr>ra_policy = sample_policy, ra_directory_membership_bearer = ''bearer'', ra_directory_context = None,
     ra_local = Some \<lparr>li_membership = sample_membership ''node-a'' 3, li_signing_seed = sample_seed\<rparr>\<rparr>"

definition sample_opts :: "admission_mode \<Rightarrow> peer_manager_opts" where
  "sample_opts mode = \<lparr>po_relay_capable = False, po_relay_accept_port = 9485, po_admission = mode\<rparr>"

definition sample_readings :: readings where
  "sample_readings = \<lparr>rd_verified = 1100, rd_recorded = 1100, rd_merge_epoch = 1100, rd_merge_instant = 5, rd_contact = 5,
     rd_prune_instant = 5, rd_prune_epoch = 1100\<rparr>"

definition sample_entry :: "string \<Rightarrow> rat \<Rightarrow> json" where
  "sample_entry i load = JObj [(''node_id'', JStr i), (''endpoint'', JStr (''https://'' @ i)), (''relay_capable'', JBool True),
     (''relay_load'', JFloat load), (''membership'', JNull)]"

definition sample_started :: "json list \<Rightarrow> peer_event" where
  "sample_started ps = Started (\<lambda>_. Some (True, Some (JObj [(''peers'', JArr ps)]))) sample_readings ''self'' ''https://self''"

lemma sample_policy_current: "current_policy 3 sample_restricted = sample_policy"
  by (simp add: current_policy_def sample_restricted_def sample_policy_def)

lemma sample_admits:
  "scope \<in> {''peers'', ''bootstrap''} \<Longrightarrow>
    admitted_membership sample_peer_codec (Restricted sample_restricted) 3 (sample_entry ''node-a'' 0) ''node-a'' scope 1100 =
      Some (Some (sample_membership ''node-a'' 3))"
  using sample_membership_verifies [of scope]
  by (simp add: admitted_membership_def verified_restricted_membership_def valid_restricted_peer_def sample_entry_def sample_peer_codec_def
      sample_policy_current get_str_def valid_peer_url_def peer_url_has_no_credentials_def invalid_relay_port_def invalid_relay_load_def get_u64_def)

lemma sample_merge:
  "scope \<in> {''peers'', ''bootstrap''} \<Longrightarrow>
    merge_one sample_peer_codec (Restricted sample_restricted) ''self'' scope 1100 5 3 (sample_entry ''node-a'' 0) ([], 0) =
      ([(''node-a'', peer_info (\<lambda>x. x) (sample_entry ''node-a'' 0) ''node-a'' (Some (sample_membership ''node-a'' 3)) 5)], 1)"
proof -
  assume s: "scope \<in> {''peers'', ''bootstrap''}"
  have "unwrap_or (get_str (sample_entry ''node-a'' 0) ''node_id'') [] = ''node-a''" by (simp add: sample_entry_def get_str_def)
  then show ?thesis using sample_admits [OF s] by (simp add: merge_one_def sample_peer_codec_def Let_def)
qed

lemma sample_run:
  "pm_peers (fold (peer_step sample_peer_codec) [sample_started [sample_entry ''node-a'' 0]] (with_opts [] [] (sample_opts (Restricted sample_restricted)))) =
     [(''node-a'', peer_info (\<lambda>x. x) (sample_entry ''node-a'' 0) ''node-a'' (Some (sample_membership ''node-a'' 3)) 5)]"
proof -
  let ?m = "with_opts [] [] (sample_opts (Restricted sample_restricted))"
  have m: "pm_admission ?m = Restricted sample_restricted" "pm_minimum_generation ?m = 3" "pm_peers ?m = []"
    by (simp_all add: with_opts_def sample_opts_def sample_restricted_def sample_policy_def)
  have r: "ra_local sample_restricted \<noteq> None" "ra_directory_context sample_restricted = None" "ra_directory_membership_bearer sample_restricted = ''bearer''"
    by (simp_all add: sample_restricted_def)
  show ?thesis using m r sample_merge [of "''bootstrap''"]
    by (auto simp: sample_started_def start_def bootstrap_def bootstrap_request_def merge_bootstrap_response_def merge_peers_at_def Let_def
        sample_readings_def split: option.split)
qed

theorem relay_targets_verified_witness:
  "let m = fold (peer_step sample_peer_codec) [sample_started [sample_entry ''node-a'' 0]] (with_opts [] [] (sample_opts (Restricted sample_restricted)))
   in \<exists>p. snd (relay_target 6 1101 ''node-a'' m) = Some p \<and>
        peer_verified sample_peer_codec sample_restricted (pm_minimum_generation m) ''node-a'' p"
proof -
  let ?m = "fold (peer_step sample_peer_codec) [sample_started [sample_entry ''node-a'' 0]] (with_opts [] [] (sample_opts (Restricted sample_restricted)))"
  obtain m' p where t: "relay_target 6 1101 ''node-a'' ?m = (m', Some p)"
    using sample_run by (simp add: relay_target_def prune_def Let_def hretain_def PEER_EXPIRY_def peer_info_def sample_membership_def)
  have "po_admission (sample_opts (Restricted sample_restricted)) = Restricted sample_restricted" by (simp add: sample_opts_def)
  from relay_targets_verified [OF this refl t] t show ?thesis by (auto simp: Let_def)
qed

lemma sample_gossip_verifies:
  "verify_gossip sample_member_codec sample_gossip (sample_membership ''node-a'' 3) sample_policy ''p'' 1100 False = Inr ()"
proof -
  have "gp_sender_id (ge_proof sample_gossip) = ''node-a''" by (simp add: sample_gossip_def)
  then show ?thesis using sample_membership_verifies [of "''peers''"]
    by (simp add: verify_gossip_def validate_gossip_identity_def validate_gossip_format_def validate_gossip_binding_def
        validate_gossip_freshness_and_payload_def verify_gossip_signature_def verify_detached_def verifying_key_def signature_bytes_def
        sample_gossip_def sample_member_codec_def sample_membership_def sample_policy_def sample_seed_def sat_add_def sat_sub_def GOSSIP_DOMAIN_def)
qed


text \<open>Two public nodes that learn of the same two relays in opposite orders.\<close>

definition sample_relays :: "json list \<Rightarrow> peer_manager" where
  "sample_relays ps = fold (peer_step sample_peer_codec) [sample_started ps] (with_opts [] [] (sample_opts Public))"

definition sample_relay :: "string \<Rightarrow> rat \<Rightarrow> peer_info" where
  "sample_relay i load = peer_info (\<lambda>x. x) (sample_entry i load) i None 5"

lemma sample_candidates:
  "snd (get_relay_candidates 6 1101 (sample_relays [sample_entry ''a'' 0, sample_entry ''b'' 1])) = [sample_relay ''a'' 0, sample_relay ''b'' 1]"
  "snd (get_relay_candidates 6 1101 (sample_relays [sample_entry ''b'' 1, sample_entry ''a'' 0])) = [sample_relay ''b'' 1, sample_relay ''a'' 0]"
  by (simp_all add: sample_relays_def sample_relay_def get_relay_candidates_def prune_def hretain_def hvals_def PEER_EXPIRY_def sample_started_def
      start_def bootstrap_def bootstrap_request_def merge_bootstrap_response_def merge_peers_at_def merge_one_def admitted_membership_def
      with_opts_def sample_opts_def sample_readings_def sample_peer_codec_def sample_entry_def get_str_def peer_info_def json_index_def Let_def)

theorem election_agrees_witness:
  "let elected = (\<lambda>m. map_option (\<lambda>e. (pi_node_id (el_peer e), el_relay_host e, el_relay_port e)) (snd (elect_relay sample_peer_codec 6 1101 ''w'' m)));
       ps = [sample_entry ''a'' 0, sample_entry ''b'' 1]
   in elected (sample_relays ps) = elected (sample_relays (rev ps)) \<and> elected (sample_relays ps) \<noteq> None"
proof -
  let ?m = "sample_relays [sample_entry ''a'' 0, sample_entry ''b'' 1]" and ?m' = "sample_relays [sample_entry ''b'' 1, sample_entry ''a'' 0]"
  obtain m1 where c: "get_relay_candidates 6 1101 ?m = (m1, [sample_relay ''a'' 0, sample_relay ''b'' 1])"
    using sample_candidates(1) by (metis prod.collapse)
  obtain m2 where c': "get_relay_candidates 6 1101 ?m' = (m2, [sample_relay ''b'' 1, sample_relay ''a'' 0])"
    using sample_candidates(2) by (metis prod.collapse)
  have v: "relay_view ` set [sample_relay ''a'' 0, sample_relay ''b'' 1] = relay_view ` set [sample_relay ''b'' 1, sample_relay ''a'' 0]" by auto
  have i: "inj_on (\<lambda>i. mc_sha_hex (pc_member sample_peer_codec) (''w'' @ '':'' @ i)) (pi_node_id ` set [sample_relay ''a'' 0, sample_relay ''b'' 1])"
    by (simp add: inj_on_def sample_peer_codec_def sample_member_codec_def)
  from election_agrees [OF sample_relays_def sample_relays_def c c' v i] show ?thesis
    using c c' by (simp add: Let_def elect_relay_def)
qed

theorem revocation_complete_witness:
  "\<exists>s. (table_step sample_peer_codec sample_restricted)\<^sup>*\<^sup>* (new_table 3) s \<and> (\<forall>t. st_phase s t = Idle) \<and>
     (\<exists>p g. hget (st_peers s) ''node-a'' = Some p \<and> pi_membership_generation p = Some g \<and> st_minimum s \<le> g)"
proof -
  let ?R = "table_step sample_peer_codec sample_restricted" and ?entry = "peer_info (\<lambda>x. x) (sample_entry ''node-a'' 0) ''node-a'' (Some (sample_membership ''node-a'' 3)) 5"
  define s1 where "s1 = (new_table 3)\<lparr>st_locked := True\<rparr>"
  define s2 where "s2 = s1\<lparr>st_entry := Some (st_minimum s1)\<rparr>"
  define s3 where "s3 = s2\<lparr>st_peers := fst (merge_one sample_peer_codec (Restricted sample_restricted) ''self'' ''peers'' 1100 5 3
    (sample_entry ''node-a'' 0) (st_peers s2, 0)), st_entry := None\<rparr>"
  define s4 where "s4 = s3\<lparr>st_locked := False\<rparr>"
  have "?R (new_table 3) s1" unfolding s1_def by (rule table_step.merge_begin) (simp add: new_table_def)
  moreover have "?R s1 s2" unfolding s2_def by (rule table_step.merge_load) (simp_all add: s1_def new_table_def)
  moreover have "?R s2 s3" unfolding s3_def by (rule table_step.merge_insert) (simp add: s2_def s1_def new_table_def)
  moreover have "?R s3 s4" unfolding s4_def by (rule table_step.merge_end) (simp_all add: s3_def s2_def s1_def)
  ultimately have run: "?R\<^sup>*\<^sup>* (new_table 3) s4" by (meson converse_rtranclp_into_rtranclp rtranclp.rtrancl_refl)
  have idle: "\<forall>t. st_phase s4 t = Idle" by (simp add: s4_def s3_def s2_def s1_def new_table_def)
  have found: "hget (st_peers s4) ''node-a'' = Some ?entry"
    using sample_merge [of "''peers''"] by (simp add: s4_def s3_def s2_def s1_def new_table_def)
  from revocation_complete [OF run idle found] run idle found show ?thesis by blast
qed

end
