(* ===== verification/Wire.thy ===== *)
theory Wire
  imports Native Text "HOL-Library.List_Lexorder" "HOL-Library.Char_ord"
begin

text \<open>
  The native transport, \<^verbatim>\<open>src/iicp_tcp.rs\<close>: frames, CBOR values, the server's session loop and the
  client's calls.  A byte is a \<^typ>\<open>char\<close>, a socket read the chunk of bytes it returns, an empty chunk the end of the
  stream.  The CBOR coder, UTF-8 validation and the JSON parser are the members of \<open>wire_codec\<close>.  What a session
  writes is the list of its writes, in order; that a write itself fails is outside the model, it ends the session early.
\<close>

subsection \<open>Frames\<close>

definition IICP_MAGIC :: string where
  "IICP_MAGIC = ''IICP''"

definition FRAMING_VERSION :: char where
  "FRAMING_VERSION = CHR 0x01"

definition FRAME_HEADER_LEN :: nat where
  "FRAME_HEADER_LEN = 12"

definition MAX_FRAME_PAYLOAD :: nat where
  "MAX_FRAME_PAYLOAD = 16 * 1024 * 1024"

definition stable_task_message_type_error :: "char \<Rightarrow> string option" where
  "stable_task_message_type_error b =
    (let n = of_char b :: nat in
     if (1 \<le> n \<and> n \<le> 10) \<or> n = 13 \<or> n = 14 then None
     else if n = 0 \<or> n = 255 then Some ''invalid_type''
     else if n = 11 \<or> n = 12 then Some ''conflicted_type''
     else if 240 \<le> n \<and> n \<le> 254 then Some ''unsupported_extension''
     else Some ''unknown_type'')"

datatype msg_type =
    Init | Ack | Discover | SubProtocol | Call | Response | Close | Feedback | Ping | Pong | RelayBind | RelayAck

fun msg_byte :: "msg_type \<Rightarrow> char" where
  "msg_byte Init = CHR 0x01"
| "msg_byte Ack = CHR 0x02"
| "msg_byte Discover = CHR 0x03"
| "msg_byte SubProtocol = CHR 0x04"
| "msg_byte Call = CHR 0x05"
| "msg_byte Response = CHR 0x06"
| "msg_byte Close = CHR 0x07"
| "msg_byte Feedback = CHR 0x08"
| "msg_byte Ping = CHR 0x09"
| "msg_byte Pong = CHR 0x0A"
| "msg_byte RelayBind = CHR 0x0B"
| "msg_byte RelayAck = CHR 0x0C"

definition from_u8 :: "char \<Rightarrow> msg_type option" where
  "from_u8 b = List.find (\<lambda>t. msg_byte t = b)
     [Init, Ack, Discover, SubProtocol, Call, Response, Close, Feedback, Ping, Pong, RelayBind, RelayAck]"

record iicp_frame =
  if_version :: char
  if_msg_type :: char
  if_flags :: char
  if_payload :: string

definition to_be_bytes :: "nat \<Rightarrow> string" where
  "to_be_bytes n = [char_of (n div 2 ^ 24), char_of (n div 2 ^ 16), char_of (n div 2 ^ 8), char_of n]"

definition from_be_bytes :: "string \<Rightarrow> nat" where
  "from_be_bytes bs = foldl (\<lambda>n b. n * 256 + of_char b) 0 bs"

definition try_encode_frame :: "char \<Rightarrow> string \<Rightarrow> char \<Rightarrow> string + string" where
  "try_encode_frame t payload flags =
    (if length payload > MAX_FRAME_PAYLOAD
     then Inl (''IICP frame payload too large: '' @ show_nat (length payload) @ '' > '' @ show_nat MAX_FRAME_PAYLOAD)
     else Inr (IICP_MAGIC @ [FRAMING_VERSION, t, flags, CHR 0x00] @ to_be_bytes (length payload) @ payload))"

text \<open>\<^verbatim>\<open>{:?}\<close> of a slice of bytes, and \<^verbatim>\<open>{:02x}\<close> of a byte.\<close>

fun show_items :: "string \<Rightarrow> string" where
  "show_items [] = []"
| "show_items [b] = show_nat (of_char b)"
| "show_items (b # bs) = show_nat (of_char b) @ '', '' @ show_items bs"

definition show_bytes :: "string \<Rightarrow> string" where
  "show_bytes bs = ''['' @ show_items bs @ '']''"

definition hex_of_byte :: "char \<Rightarrow> string" where
  "hex_of_byte b = (let n = of_char b :: nat; d = ''0123456789abcdef'' in [d ! (n div 16), d ! (n mod 16)])"

text \<open>The sum \<^verbatim>\<open>FRAME_HEADER_LEN + payload_len\<close> is below \<open>2 ^ 32\<close> here, so \<^verbatim>\<open>checked_add\<close> does not fail.\<close>

definition decode_frame :: "string \<Rightarrow> string + iicp_frame \<times> nat" where
  "decode_frame data =
    (if length data < FRAME_HEADER_LEN
     then Inl (''IICP frame too short: '' @ show_nat (length data) @ '' < '' @ show_nat FRAME_HEADER_LEN)
     else if take 4 data \<noteq> IICP_MAGIC then Inl (''Invalid IICP magic: '' @ show_bytes (take 4 data))
     else if data ! 4 \<noteq> FRAMING_VERSION
     then Inl (''Unsupported IICP framing version: '' @ show_nat (of_char (data ! 4)) @ ''; expected '' @
       show_nat (of_char FRAMING_VERSION))
     else let payload_len = from_be_bytes (take 4 (drop 8 data)) in
       if payload_len > MAX_FRAME_PAYLOAD
       then Inl (''IICP frame payload too large: '' @ show_nat payload_len @ '' > '' @ show_nat MAX_FRAME_PAYLOAD)
       else let total = FRAME_HEADER_LEN + payload_len in
         if length data < total
         then Inl (''IICP payload truncated: need '' @ show_nat total @ '', have '' @ show_nat (length data))
         else Inr (\<lparr>if_version = data ! 4, if_msg_type = data ! 5, if_flags = data ! 6,
                    if_payload = take payload_len (drop FRAME_HEADER_LEN data)\<rparr>, total))"

subsection \<open>CBOR values\<close>

datatype cbor =
    CInt int
  | CBytes string
  | CFloat rat
  | CText string
  | CBool bool
  | CNull
  | CTag nat cbor
  | CArr "cbor list"
  | CMap "(cbor \<times> cbor) list"

text \<open>\<^verbatim>\<open>wc_encode\<close> and \<^verbatim>\<open>wc_decode\<close> are \<^verbatim>\<open>encode_cbor\<close> and \<^verbatim>\<open>decode_cbor\<close>, the error with its text;
  \<^verbatim>\<open>wc_cbor_as_json\<close> is \<^verbatim>\<open>ciborium::de::from_reader\<close> at the type of JSON values, of the bytes of an encoded value.\<close>

record wire_codec =
  wc_encode :: "cbor \<Rightarrow> string"
  wc_decode :: "string \<Rightarrow> string + cbor"
  wc_utf8 :: "string \<Rightarrow> bool"
  wc_parse_json :: "string \<Rightarrow> json option"
  wc_print_json :: "json \<Rightarrow> string + string"
  wc_cbor_as_json :: "string \<Rightarrow> json option"

fun cbor_map_get :: "cbor \<Rightarrow> int \<Rightarrow> cbor option" where
  "cbor_map_get (CMap entries) key = map_option snd (List.find (\<lambda>(k, _). k = CInt key) entries)"
| "cbor_map_get _ _ = None"

fun cbor_to_str :: "cbor \<Rightarrow> string option" where
  "cbor_to_str (CText s) = Some s"
| "cbor_to_str _ = None"

fun cbor_to_bytes :: "cbor \<Rightarrow> string option" where
  "cbor_to_bytes (CBytes b) = Some b"
| "cbor_to_bytes _ = None"

fun cbor_to_bool :: "cbor \<Rightarrow> bool option" where
  "cbor_to_bool (CBool b) = Some b"
| "cbor_to_bool _ = None"

fun cbor_to_u64 :: "cbor \<Rightarrow> u64 option" where
  "cbor_to_u64 (CInt i) = (if 0 \<le> i \<and> i < 2 ^ 64 then Some (word_of_int i) else None)"
| "cbor_to_u64 _ = None"

fun json_to_cbor :: "json \<Rightarrow> cbor" where
  "json_to_cbor JNull = CNull"
| "json_to_cbor (JBool b) = CBool b"
| "json_to_cbor (JPos n) = CInt (uint n)"
| "json_to_cbor (JNeg i) = CInt i"
| "json_to_cbor (JFloat r) = CFloat r"
| "json_to_cbor (JStr s) = CText s"
| "json_to_cbor (JArr vs) = CArr (map json_to_cbor vs)"
| "json_to_cbor (JObj ms) = CMap (map (\<lambda>(k, c). (CText k, c)) (sort_key fst (map (\<lambda>(k, v). (k, json_to_cbor v)) ms)))"

definition BASE64_ALPHA :: string where
  "BASE64_ALPHA = ''ABCDEFGHIJKLMNOPQRSTUVWXYZabcdefghijklmnopqrstuvwxyz0123456789+/''"

definition sextet :: "nat \<Rightarrow> nat \<Rightarrow> char" where
  "sextet v shift = BASE64_ALPHA ! (v div 2 ^ shift mod 64)"

fun base64_encode :: "string \<Rightarrow> string" where
  "base64_encode (a # b # c # rest) =
    (let v = of_char a * 2 ^ 16 + of_char b * 2 ^ 8 + of_char c
     in sextet v 18 # sextet v 12 # sextet v 6 # sextet v 0 # base64_encode rest)"
| "base64_encode [a, b] =
    (let v = of_char a * 2 ^ 16 + of_char b * 2 ^ 8 in [sextet v 18, sextet v 12, sextet v 6, CHR ''=''])"
| "base64_encode [a] = (let v = of_char a * 2 ^ 16 in [sextet v 18, sextet v 12, CHR ''='', CHR ''=''])"
| "base64_encode [] = []"

definition show_integer :: "int \<Rightarrow> string" where
  "show_integer i = (if i < 0 then ''-'' @ show_nat (nat (- i)) else show_nat (nat i))"

text \<open>The keys an object takes over.\<close>

fun cbor_key :: "cbor \<Rightarrow> string option" where
  "cbor_key (CText s) = Some s"
| "cbor_key (CInt i) = Some (show_integer i)"
| "cbor_key _ = None"

text \<open>Insertion into the ordered map of a JSON object.\<close>

fun obj_insert :: "string \<Rightarrow> json \<Rightarrow> (string \<times> json) list \<Rightarrow> (string \<times> json) list" where
  "obj_insert k v [] = [(k, v)]"
| "obj_insert k v ((k', v') # ms) =
    (if k < k' then (k, v) # (k', v') # ms else if k = k' then (k, v) # ms else (k', v') # obj_insert k v ms)"

fun cbor_to_json :: "cbor \<Rightarrow> json" where
  "cbor_to_json CNull = JNull"
| "cbor_to_json (CBool b) = JBool b"
| "cbor_to_json (CInt i) = (if - (2 ^ 63) \<le> i \<and> i < 2 ^ 63 then json_of_i64 i else JStr (show_integer i))"
| "cbor_to_json (CFloat r) = JFloat r"
| "cbor_to_json (CText s) = JStr s"
| "cbor_to_json (CBytes b) = JStr (base64_encode b)"
| "cbor_to_json (CArr vs) = JArr (map cbor_to_json vs)"
| "cbor_to_json (CMap es) =
    JObj (fold (\<lambda>(k, j) obj. case cbor_key k of Some key \<Rightarrow> obj_insert key j obj | None \<Rightarrow> obj)
      (map (\<lambda>(k, v). (k, cbor_to_json v)) es) [])"
| "cbor_to_json (CTag t v) = JNull"

subsection \<open>Payloads\<close>

record stream_event =
  ev_status :: string
  ev_result :: "json option"
  ev_error_code :: "string option"
  ev_error_message :: "string option"
  ev_tokens_used :: "u64 option"
  ev_event :: "string option"

definition opt_entry :: "int \<Rightarrow> ('a \<Rightarrow> cbor) \<Rightarrow> 'a option \<Rightarrow> (cbor \<times> cbor) list" where
  "opt_entry k f x = (case x of None \<Rightarrow> [] | Some v \<Rightarrow> [(CInt k, f v)])"

definition encode_ack :: "wire_codec \<Rightarrow> char \<Rightarrow> string option \<Rightarrow> string" where
  "encode_ack wc version node_id = wc_encode wc (CMap ((CInt 1, CInt (of_char version)) # opt_entry 2 CText node_id))"

definition encode_pong :: "wire_codec \<Rightarrow> string option \<Rightarrow> string" where
  "encode_pong wc echo = wc_encode wc (CMap (opt_entry 1 CBytes echo))"

definition response_body :: "string \<Rightarrow> string option \<Rightarrow> string option \<Rightarrow> int option \<Rightarrow> string option \<Rightarrow> cbor" where
  "response_body session_id call_id result error_code error_message =
     CMap ([(CInt 2, CText session_id)] @ opt_entry 15 CText call_id @ opt_entry 5 CBytes result @
       opt_entry 100 CInt error_code @ opt_entry 101 CText error_message)"

definition encode_response :: "wire_codec \<Rightarrow> string \<Rightarrow> string option \<Rightarrow> string option \<Rightarrow> int option \<Rightarrow> string option \<Rightarrow> string" where
  "encode_response wc session_id call_id result error_code error_message =
     wc_encode wc (response_body session_id call_id result error_code error_message)"

definition default_event :: "string \<Rightarrow> string" where
  "default_event status =
    (if status = ''partial'' then ''partial'' else if status = ''success'' then ''completed''
     else if status = ''timeout'' then ''timed_out'' else ''failed'')"

definition lifecycle_body :: "string \<Rightarrow> string \<Rightarrow> string \<Rightarrow> u64 \<Rightarrow> stream_event \<Rightarrow> cbor" where
  "lifecycle_body session_id call_id task_id sequence event =
    (let is_final = (ev_status event \<noteq> ''partial'');
         name = unwrap_or (ev_event event) (default_event (ev_status event))
     in CMap ([(CInt 1, CInt (of_char FRAMING_VERSION)), (CInt 2, CText session_id), (CInt 3, CText call_id),
          (CInt 4, CText (ev_status event)), (CInt 12, CBool is_final),
          (CInt 13, CMap [(CInt 1, CText task_id), (CInt 2, CInt (uint sequence)), (CInt 3, CText name), (CInt 4, CBool is_final)])] @
          opt_entry 5 json_to_cbor (ev_result event) @
          (if ev_error_code event \<noteq> None \<or> ev_error_message event \<noteq> None
           then [(CInt 6, CMap [(CInt 1, CText (unwrap_or (ev_error_code event) ''stream_error'')),
                                (CInt 2, CText (unwrap_or (ev_error_message event) ''stream failed''))])] else []) @
          opt_entry 7 (\<lambda>t. CInt (uint t)) (ev_tokens_used event)))"

definition encode_lifecycle_response :: "wire_codec \<Rightarrow> string \<Rightarrow> string \<Rightarrow> string \<Rightarrow> u64 \<Rightarrow> stream_event \<Rightarrow> string" where
  "encode_lifecycle_response wc session_id call_id task_id sequence event =
     wc_encode wc (lifecycle_body session_id call_id task_id sequence event)"

definition encode_discover_response :: "wire_codec \<Rightarrow> string \<Rightarrow> string \<Rightarrow> cbor list \<Rightarrow> string" where
  "encode_discover_response wc session_id intent nodes =
     wc_encode wc (CMap [(CInt 2, CText session_id), (CInt 3, CText intent), (CInt 20, CArr nodes)])"

definition get_text :: "cbor \<Rightarrow> int \<Rightarrow> string option" where
  "get_text body k = Option.bind (cbor_map_get body k) cbor_to_str"

datatype tcp_error = TcpIo | TcpProtocol string | TcpServer int string | TcpTimeout nat

definition opt_string :: "string option \<Rightarrow> json" where
  "opt_string x = (case x of Some s \<Rightarrow> JStr s | None \<Rightarrow> JNull)"

definition decode_lifecycle_response :: "cbor \<Rightarrow> tcp_error + native_frame" where
  "decode_lifecycle_response body =
    (case cbor_map_get body 13 of
       None \<Rightarrow> Inl (TcpProtocol ''missing_lifecycle'')
     | Some lifecycle \<Rightarrow>
         Inr \<lparr>fr_session_id = unwrap_or (get_text body 2) [], fr_call_id = unwrap_or (get_text body 3) [],
              fr_status = unwrap_or (get_text body 4) [],
              fr_is_final = unwrap_or (Option.bind (cbor_map_get body 12) cbor_to_bool) False,
              fr_lifecycle = \<lparr>en_task_id = unwrap_or (get_text lifecycle 1) [],
                en_sequence = unwrap_or (Option.bind (cbor_map_get lifecycle 2) cbor_to_u64) (- 1),
                en_event = unwrap_or (get_text lifecycle 3) [],
                en_is_final = unwrap_or (Option.bind (cbor_map_get lifecycle 4) cbor_to_bool) False\<rparr>,
              fr_result = (case cbor_map_get body 5 of Some v \<Rightarrow> cbor_to_json v | None \<Rightarrow> JNull),
              fr_error = (case cbor_map_get body 6 of
                 Some e \<Rightarrow> JObj [(''code'', opt_string (get_text e 1)), (''message'', opt_string (get_text e 2))] | None \<Rightarrow> JNull),
              fr_tokens_used = Option.bind (cbor_map_get body 7) cbor_to_u64\<rparr>)"

subsection \<open>The server\<close>

record tcp_task =
  tk_task_id :: string
  tk_intent :: string
  tk_payload :: json

text \<open>The gate of a server is the limit it reports and whether it has a free slot when the frame with a given
  number asks; its own behaviour is the subject of \<^verbatim>\<open>Gates\<close>.  A handler is asked with the number of the frame, so it may
  answer the same task differently.  A streaming handler's stream is the list of its items.\<close>

record tcp_server =
  sv_node_id :: "string option"
  sv_handler :: "(nat \<Rightarrow> tcp_task \<Rightarrow> json) option"
  sv_streaming_handler :: "(nat \<Rightarrow> tcp_task \<Rightarrow> (string + stream_event) list) option"
  sv_discover_lookup :: "(nat \<Rightarrow> string \<Rightarrow> cbor list) option"
  sv_concurrency_gate :: "(nat \<times> (nat \<Rightarrow> bool)) option"

text \<open>What a handler of the session does: the frames it writes and whether the session goes on, or the error that ends it.\<close>

type_synonym reply = "string list \<times> (string + bool)"

definition send_frame :: "msg_type \<Rightarrow> string \<Rightarrow> reply" where
  "send_frame t payload =
    (case try_encode_frame (msg_byte t) payload (CHR 0x00) of Inl e \<Rightarrow> ([], Inl e) | Inr f \<Rightarrow> ([f], Inr True))"

fun decode_version :: "cbor option \<Rightarrow> char option" where
  "decode_version (Some (CInt i)) = (if 0 \<le> i \<and> i < 256 then Some (char_of (nat i)) else None)"
| "decode_version _ = None"

definition on_init :: "wire_codec \<Rightarrow> tcp_server \<Rightarrow> iicp_frame \<Rightarrow> reply" where
  "on_init wc sv f =
    (let version = (case wc_decode wc (if_payload f) of Inl _ \<Rightarrow> None | Inr body \<Rightarrow> decode_version (cbor_map_get body 1))
     in if version \<noteq> Some FRAMING_VERSION then ([], Inr False)
        else send_frame Ack (encode_ack wc FRAMING_VERSION (sv_node_id sv)))"

definition on_ping :: "wire_codec \<Rightarrow> iicp_frame \<Rightarrow> reply" where
  "on_ping wc f =
    (let echo = (if if_payload f = [] then None
                 else case wc_decode wc (if_payload f) of Inl _ \<Rightarrow> None
                   | Inr body \<Rightarrow> Option.bind (cbor_map_get body 1) cbor_to_bytes)
     in send_frame Pong (encode_pong wc echo))"

text \<open>The body of a request; a payload that is not CBOR has no members.\<close>

definition body_of :: "wire_codec \<Rightarrow> iicp_frame \<Rightarrow> cbor" where
  "body_of wc f = (case wc_decode wc (if_payload f) of Inl _ \<Rightarrow> CNull | Inr body \<Rightarrow> body)"

definition on_discover :: "wire_codec \<Rightarrow> tcp_server \<Rightarrow> nat \<Rightarrow> iicp_frame \<Rightarrow> reply" where
  "on_discover wc sv k f =
    (let body = body_of wc f;
         session_id = unwrap_or (get_text body 2) ''unknown'';
         intent = unwrap_or (get_text body 3) [];
         nodes = (case sv_discover_lookup sv of Some lookup \<Rightarrow> if intent = [] then [] else lookup k intent | None \<Rightarrow> [])
     in send_frame Response (encode_discover_response wc session_id intent nodes))"

definition call_payload :: "wire_codec \<Rightarrow> cbor \<Rightarrow> json" where
  "call_payload wc body =
    (case cbor_map_get body 5 of
       Some (CBytes bytes) \<Rightarrow> unwrap_or (if wc_utf8 wc bytes then wc_parse_json wc bytes else None) (JObj [])
     | Some (CMap entries) \<Rightarrow>
         JObj (fold (\<lambda>(k, v) obj. case k of
             CText key \<Rightarrow> (case wc_cbor_as_json wc (wc_encode wc v) of Some j \<Rightarrow> obj_insert key j obj | None \<Rightarrow> obj)
           | _ \<Rightarrow> obj) entries [])
     | _ \<Rightarrow> JObj [])"

definition failed_event :: "string \<Rightarrow> string \<Rightarrow> stream_event" where
  "failed_event code message = \<lparr>ev_status = ''error'', ev_result = None, ev_error_code = Some code,
     ev_error_message = Some message, ev_tokens_used = None, ev_event = None\<rparr>"

fun vet_event :: "string + stream_event \<Rightarrow> stream_event" where
  "vet_event (Inr event) =
    (if ev_status event \<in> set [''partial'', ''success'', ''error'', ''timeout''] then event
     else failed_event ''invalid_stream_status'' ''streaming handler emitted an invalid status'')"
| "vet_event (Inl _) = failed_event ''backend_error'' ''streaming handler raised exception''"

definition send_event :: "wire_codec \<Rightarrow> string \<Rightarrow> string \<Rightarrow> string \<Rightarrow> u64 \<Rightarrow> stream_event \<Rightarrow> reply" where
  "send_event wc session_id call_id task_id sequence event =
     send_frame Response (encode_lifecycle_response wc session_id call_id task_id sequence event)"

fun stream_events :: "wire_codec \<Rightarrow> string \<Rightarrow> string \<Rightarrow> string \<Rightarrow> u64 \<Rightarrow> (string + stream_event) list \<Rightarrow> reply" where
  "stream_events wc session_id call_id task_id sequence [] =
     send_event wc session_id call_id task_id sequence
       (failed_event ''stream_incomplete'' ''stream ended without a terminal response'')"
| "stream_events wc session_id call_id task_id sequence (item # items) =
    (let event = vet_event item in
     case send_event wc session_id call_id task_id sequence event of
       (out, Inl e) \<Rightarrow> (out, Inl e)
     | (out, Inr keep) \<Rightarrow>
         if ev_status event \<noteq> ''partial'' then (out, Inr keep)
         else let (rest, r) = stream_events wc session_id call_id task_id (sequence + 1) items in (out @ rest, r))"

definition acquire_slot :: "tcp_server \<Rightarrow> nat \<Rightarrow> bool" where
  "acquire_slot sv k = (case sv_concurrency_gate sv of Some (_, free) \<Rightarrow> free k | None \<Rightarrow> True)"

definition on_stream_call ::
  "wire_codec \<Rightarrow> tcp_server \<Rightarrow> nat \<Rightarrow> (nat \<Rightarrow> tcp_task \<Rightarrow> (string + stream_event) list) \<Rightarrow>
   string \<Rightarrow> string \<Rightarrow> string \<Rightarrow> string \<Rightarrow> json \<Rightarrow> reply" where
  "on_stream_call wc sv k handler session_id call_id task_id intent payload =
    (let events = handler k \<lparr>tk_task_id = task_id, tk_intent = intent, tk_payload = payload\<rparr> in
     if \<not> acquire_slot sv k
     then send_event wc session_id call_id task_id 0 (failed_event ''capacity_exceeded'' ''node concurrency capacity reached'')
     else stream_events wc session_id call_id task_id 0 events)"

definition handler_outcome :: "wire_codec \<Rightarrow> json \<Rightarrow> (int \<times> string) + string" where
  "handler_outcome wc user_result =
    (case user_result of
       JObj ms \<Rightarrow>
         (case Option.bind (map_of ms ''error_code'') as_i64 of
            Some ec \<Rightarrow> Inl (ec, unwrap_or (Option.bind (map_of ms ''error_message'') as_str) ''handler error'')
          | None \<Rightarrow> Inr (wc_encode wc (json_to_cbor (unwrap_or (map_of ms ''result'') user_result))))
     | _ \<Rightarrow> Inr (wc_encode wc (json_to_cbor user_result)))"

definition on_call :: "wire_codec \<Rightarrow> tcp_server \<Rightarrow> nat \<Rightarrow> iicp_frame \<Rightarrow> reply" where
  "on_call wc sv k f =
    (let body = body_of wc f;
         session_id = unwrap_or (get_text body 2) ''unknown'';
         call_id = get_text body 15;
         intent = unwrap_or (get_text body 3) [];
         task_id = get_text body 24;
         payload = call_payload wc body
     in case (task_id, sv_streaming_handler sv) of
       (Some task_id, Some streaming) \<Rightarrow>
         on_stream_call wc sv k streaming session_id (unwrap_or call_id []) task_id intent payload
     | _ \<Rightarrow>
         let outcome =
           (case sv_handler sv of
              None \<Rightarrow> Inl (503, ''no handler configured'')
            | Some handler \<Rightarrow>
                (case sv_concurrency_gate sv of
                   Some (limit, free) \<Rightarrow>
                     if \<not> free k then Inl (429, ''IICP-E021: max_concurrent='' @ show_nat limit @ '' reached'')
                     else handler_outcome wc (handler k \<lparr>tk_task_id = unwrap_or call_id session_id, tk_intent = intent, tk_payload = payload\<rparr>)
                 | None \<Rightarrow>
                     handler_outcome wc (handler k \<lparr>tk_task_id = unwrap_or call_id session_id, tk_intent = intent, tk_payload = payload\<rparr>)))
         in send_frame Response
              (case outcome of
                 Inl (code, message) \<Rightarrow> encode_response wc session_id call_id None (Some code) (Some message)
               | Inr bytes \<Rightarrow> encode_response wc session_id call_id (Some bytes) None None))"

definition dispatch_frame :: "wire_codec \<Rightarrow> tcp_server \<Rightarrow> nat \<Rightarrow> iicp_frame \<Rightarrow> reply" where
  "dispatch_frame wc sv k f =
    (case from_u8 (if_msg_type f) of
       Some Init \<Rightarrow> on_init wc sv f
     | Some Ping \<Rightarrow> on_ping wc f
     | Some Discover \<Rightarrow> on_discover wc sv k f
     | Some Call \<Rightarrow> on_call wc sv k f
     | Some Close \<Rightarrow> ([], Inr False)
     | Some Feedback \<Rightarrow> ([], Inr True)
     | _ \<Rightarrow> ([], Inr True))"

text \<open>\<^verbatim>\<open>while buf.len() < n\<close>: read until the buffer holds \<open>n\<close> bytes, giving up at the end of the stream.\<close>

fun fill_buf :: "nat \<Rightarrow> string \<Rightarrow> string list \<Rightarrow> (string \<times> string list) option" where
  "fill_buf n buf [] = (if n \<le> length buf then Some (buf, []) else None)"
| "fill_buf n buf (c # cs) =
    (if n \<le> length buf then Some (buf, c # cs) else if c = [] then None else fill_buf n (buf @ c) cs)"

lemma fill_buf_total:
  "fill_buf n buf cs = Some (b, cs') \<Longrightarrow>
     n \<le> length b \<and> length b + sum_list (map length cs') = length buf + sum_list (map length cs)"
  by (induction n buf cs rule: fill_buf.induct) (auto split: if_splits)

lemma decode_frame_consumed:
  "decode_frame data = Inr (f, n) \<Longrightarrow> FRAME_HEADER_LEN \<le> n \<and> n \<le> length data"
  by (auto simp: decode_frame_def Let_def split: if_splits)

text \<open>The session loop after the first header: the buffer, the reads to come and the number of the next frame.\<close>

function session_loop :: "wire_codec \<Rightarrow> tcp_server \<Rightarrow> nat \<Rightarrow> bool \<Rightarrow> string \<Rightarrow> string list \<Rightarrow> string list \<times> (string + unit)" where
  "session_loop wc sv k initialized buf cs =
    (case fill_buf FRAME_HEADER_LEN buf cs of None \<Rightarrow> ([], Inr ()) | Some (buf1, cs1) \<Rightarrow>
     if take 4 buf1 \<noteq> IICP_MAGIC then ([], Inr ())
     else if stable_task_message_type_error (buf1 ! 5) \<noteq> None then ([], Inr ())
     else let payload_len = from_be_bytes (take 4 (drop 8 buf1)) in
     if payload_len > MAX_FRAME_PAYLOAD then ([], Inr ())
     else case fill_buf (FRAME_HEADER_LEN + payload_len) buf1 cs1 of None \<Rightarrow> ([], Inr ()) | Some (buf2, cs2) \<Rightarrow>
     (case decode_frame buf2 of Inl _ \<Rightarrow> ([], Inr ()) | Inr (frame, consumed) \<Rightarrow>
      if (\<not> initialized \<and> if_msg_type frame \<noteq> msg_byte Init) \<or> (initialized \<and> if_msg_type frame = msg_byte Init)
      then ([], Inr ())
      else case dispatch_frame wc sv k frame of
          (out, Inl e) \<Rightarrow> (out, Inl e)
        | (out, Inr keep_open) \<Rightarrow>
            if \<not> keep_open then (out, Inr ())
            else let (rest, r) = session_loop wc sv (k + 1) True (drop consumed buf2) cs2 in (out @ rest, r)))"
  by pat_completeness auto

termination
  by (relation "measure (\<lambda>(_, _, _, _, buf, cs). length buf + sum_list (map length cs))")
    (auto dest!: fill_buf_total decode_frame_consumed simp: FRAME_HEADER_LEN_def)

declare session_loop.simps [simp del]

definition handle_connection :: "wire_codec \<Rightarrow> tcp_server \<Rightarrow> string list \<Rightarrow> string list \<times> (string + unit)" where
  "handle_connection wc sv cs =
    (case fill_buf 4 [] cs of None \<Rightarrow> ([], Inr ()) | Some (buf, cs) \<Rightarrow>
     if take 4 buf \<noteq> IICP_MAGIC then ([], Inr ())
     else case fill_buf FRAME_HEADER_LEN buf cs of None \<Rightarrow> ([], Inr ()) | Some (buf, cs) \<Rightarrow>
       session_loop wc sv 0 False buf cs)"

subsection \<open>The client\<close>

text \<open>A client's connection: the bytes the peer has sent and not read yet, whether the peer is silent after them (a read
  then times out) or has closed, whether writes fail, and what was written.\<close>

record tcp_client =
  cl_incoming :: string
  cl_silent :: bool
  cl_broken :: bool
  cl_sent :: "string list"
  cl_timeout_ms :: nat
  cl_peer_node_id :: "string option"
  cl_framing_version :: "char option"

definition client_frame :: "msg_type \<Rightarrow> string \<Rightarrow> tcp_error + string" where
  "client_frame t payload =
    (case try_encode_frame (msg_byte t) payload (CHR 0x00) of Inl e \<Rightarrow> Inl (TcpProtocol e) | Inr f \<Rightarrow> Inr f)"

definition require_handshake :: "tcp_client \<Rightarrow> tcp_error + unit" where
  "require_handshake c =
    (if cl_framing_version c = Some FRAMING_VERSION then Inr ()
     else Inl (TcpProtocol ''native session handshake is not complete''))"

definition client_write_all :: "string \<Rightarrow> tcp_client \<Rightarrow> tcp_client \<times> (tcp_error + unit)" where
  "client_write_all data c =
    (if cl_broken c then (c, Inl TcpIo) else (c\<lparr>cl_sent := cl_sent c @ [data]\<rparr>, Inr ()))"

definition read_exact :: "nat \<Rightarrow> tcp_client \<Rightarrow> tcp_client \<times> (tcp_error + string)" where
  "read_exact n c =
    (if n \<le> length (cl_incoming c)
     then (c\<lparr>cl_incoming := drop n (cl_incoming c)\<rparr>, Inr (take n (cl_incoming c)))
     else (c\<lparr>cl_incoming := []\<rparr>, Inl (if cl_silent c then TcpTimeout (cl_timeout_ms c) else TcpIo)))"

definition client_read_frame :: "tcp_client \<Rightarrow> tcp_client \<times> (tcp_error + char \<times> string)" where
  "client_read_frame c =
    (case read_exact FRAME_HEADER_LEN c of
       (c, Inl e) \<Rightarrow> (c, Inl e)
     | (c, Inr head) \<Rightarrow>
         if take 4 head \<noteq> IICP_MAGIC then (c, Inl (TcpProtocol (''bad magic in response: '' @ show_bytes (take 4 head))))
         else if head ! 4 \<noteq> FRAMING_VERSION
         then (c, Inl (TcpProtocol (''unsupported framing version '' @ show_nat (of_char (head ! 4)) @ '' in response'')))
         else case stable_task_message_type_error (head ! 5) of
           Some reason \<Rightarrow> (c, Inl (TcpProtocol (''rejected native task frame type 0x'' @ hex_of_byte (head ! 5) @ '': '' @ reason)))
         | None \<Rightarrow>
             let payload_len = from_be_bytes (take 4 (drop 8 head)) in
             if payload_len > MAX_FRAME_PAYLOAD
             then (c, Inl (TcpProtocol (''response frame payload too large: '' @ show_nat payload_len @ '' > '' @ show_nat MAX_FRAME_PAYLOAD)))
             else if payload_len = 0 then (c, Inr (head ! 5, []))
             else (case read_exact payload_len c of (c, Inl e) \<Rightarrow> (c, Inl e) | (c, Inr payload) \<Rightarrow> (c, Inr (head ! 5, payload))))"

text \<open>Write a request, then read the frame that answers it, of the type the caller expects.\<close>

definition expected :: "string \<Rightarrow> char \<Rightarrow> tcp_error" where
  "expected what got = TcpProtocol (''expected '' @ what @ '', got 0x'' @ hex_of_byte got)"

definition exchange ::
  "msg_type \<Rightarrow> string \<Rightarrow> msg_type \<Rightarrow> string \<Rightarrow> tcp_client \<Rightarrow> tcp_client \<times> (tcp_error + string)" where
  "exchange t payload answer what c =
    (case client_frame t payload of Inl e \<Rightarrow> (c, Inl e) | Inr frame \<Rightarrow>
     (case client_write_all frame c of (c, Inl e) \<Rightarrow> (c, Inl e) | (c, Inr _) \<Rightarrow>
      (case client_read_frame c of (c, Inl e) \<Rightarrow> (c, Inl e) | (c, Inr (mt, body)) \<Rightarrow>
        if mt \<noteq> msg_byte answer then (c, Inl (expected what mt)) else (c, Inr body))))"

definition show_version :: "char option \<Rightarrow> string" where
  "show_version v = (case v of None \<Rightarrow> ''None'' | Some b \<Rightarrow> ''Some('' @ show_nat (of_char b) @ '')'')"

definition handshake :: "wire_codec \<Rightarrow> tcp_client \<Rightarrow> tcp_client \<times> (tcp_error + unit)" where
  "handshake wc c =
    (case exchange Init (wc_encode wc (CMap [(CInt 1, CInt (of_char FRAMING_VERSION))])) Ack ''ACK (0x02)'' c of
       (c, Inl e) \<Rightarrow> (c, Inl e)
     | (c, Inr payload) \<Rightarrow>
       (case wc_decode wc payload of Inl e \<Rightarrow> (c, Inl (TcpProtocol e)) | Inr body \<Rightarrow>
        let negotiated = decode_version (cbor_map_get body 1) in
        if negotiated \<noteq> Some FRAMING_VERSION
        then (c, Inl (TcpProtocol (''ACK negotiated unsupported framing version '' @ show_version negotiated)))
        else let c = c\<lparr>cl_framing_version := negotiated\<rparr> in
          (case cbor_map_get body 2 of
             Some v \<Rightarrow> (c\<lparr>cl_peer_node_id := cbor_to_str v\<rparr>, Inr ())
           | None \<Rightarrow> (c, Inr ()))))"

definition ping :: "wire_codec \<Rightarrow> string option \<Rightarrow> tcp_client \<Rightarrow> tcp_client \<times> (tcp_error + string option)" where
  "ping wc echo c =
    (case require_handshake c of Inl e \<Rightarrow> (c, Inl e) | Inr _ \<Rightarrow>
     (case exchange Ping (wc_encode wc (CMap (opt_entry 1 CBytes echo))) Pong ''PONG (0x0a)'' c of
        (c, Inl e) \<Rightarrow> (c, Inl e)
      | (c, Inr payload) \<Rightarrow>
          if payload = [] then (c, Inr None)
          else (c, Inr (case wc_decode wc payload of Inl _ \<Rightarrow> None | Inr body \<Rightarrow> Option.bind (cbor_map_get body 1) cbor_to_bytes))))"

definition discover_with_session ::
  "wire_codec \<Rightarrow> string \<Rightarrow> string \<Rightarrow> tcp_client \<Rightarrow> tcp_client \<times> (tcp_error + cbor list)" where
  "discover_with_session wc intent session_id c =
    (case require_handshake c of Inl e \<Rightarrow> (c, Inl e) | Inr _ \<Rightarrow>
     (case exchange Discover (wc_encode wc (CMap [(CInt 2, CText session_id), (CInt 3, CText intent)])) Response ''RESPONSE (0x06)'' c of
        (c, Inl e) \<Rightarrow> (c, Inl e)
      | (c, Inr payload) \<Rightarrow>
        (case wc_decode wc payload of Inl e \<Rightarrow> (c, Inl (TcpProtocol e)) | Inr body \<Rightarrow>
          (c, Inr (case cbor_map_get body 20 of Some (CArr items) \<Rightarrow> items | _ \<Rightarrow> [])))))"

text \<open>\<^verbatim>\<open>code as i64\<close> of an \<^verbatim>\<open>i128\<close>: the low 64 bits, signed.\<close>

definition as_i64_cast :: "int \<Rightarrow> int" where
  "as_i64_cast i = sint (word_of_int i :: 64 word)"

definition call_result :: "wire_codec \<Rightarrow> cbor \<Rightarrow> tcp_error + json" where
  "call_result wc body =
    (case cbor_map_get body 100 of
       Some (CInt code) \<Rightarrow> Inl (TcpServer (as_i64_cast code) (unwrap_or (get_text body 101) []))
     | _ \<Rightarrow>
       (case cbor_map_get body 5 of
          Some (CBytes bytes) \<Rightarrow> (case wc_decode wc bytes of Inl e \<Rightarrow> Inl (TcpProtocol e) | Inr inner \<Rightarrow> Inr (cbor_to_json inner))
        | Some other \<Rightarrow> Inr (cbor_to_json other)
        | None \<Rightarrow> Inr (JObj [])))"

definition call_with_session ::
  "wire_codec \<Rightarrow> string \<Rightarrow> json \<Rightarrow> string option \<Rightarrow> string \<Rightarrow> tcp_client \<Rightarrow> tcp_client \<times> (tcp_error + json)" where
  "call_with_session wc intent payload call_id session_id c =
    (case require_handshake c of Inl e \<Rightarrow> (c, Inl e) | Inr _ \<Rightarrow>
     (case wc_print_json wc payload of Inl e \<Rightarrow> (c, Inl (TcpProtocol (''JSON encode: '' @ e))) | Inr payload_bytes \<Rightarrow>
     (case exchange Call (wc_encode wc (CMap ([(CInt 2, CText session_id), (CInt 3, CText intent), (CInt 5, CBytes payload_bytes)] @
              opt_entry 15 CText call_id))) Response ''RESPONSE (0x06)'' c of
        (c, Inl e) \<Rightarrow> (c, Inl e)
      | (c, Inr bytes) \<Rightarrow>
        (case wc_decode wc bytes of Inl e \<Rightarrow> (c, Inl (TcpProtocol e)) | Inr body \<Rightarrow> (c, call_result wc body)))))"

definition stream_request ::
  "wire_codec \<Rightarrow> string \<Rightarrow> json \<Rightarrow> string \<Rightarrow> string \<Rightarrow> string \<Rightarrow> string option \<Rightarrow> cbor" where
  "stream_request wc intent payload task_id session_id call_id idempotency_key =
     CMap ([(CInt 2, CText session_id), (CInt 3, CText intent),
            (CInt 5, CBytes (case wc_print_json wc payload of Inl _ \<Rightarrow> [] | Inr bytes \<Rightarrow> bytes)),
            (CInt 15, CText call_id), (CInt 24, CText task_id)] @ opt_entry 16 CText idempotency_key)"

text \<open>One step of the stream once the request is out: an item, the client, the sequence and whether the stream has finished.\<close>

definition next_response ::
  "wire_codec \<Rightarrow> tcp_client \<Rightarrow> response_sequence \<Rightarrow> (tcp_error + native_frame) \<times> tcp_client \<times> response_sequence \<times> bool" where
  "next_response wc c s =
    (case client_read_frame c of
       (c, Inl _) \<Rightarrow> (Inl (TcpProtocol ''missing_terminal_response''), c, s, True)
     | (c, Inr (msg_type, payload)) \<Rightarrow>
         if msg_type \<noteq> msg_byte Response then (Inl (expected ''RESPONSE (0x06)'' msg_type), c, s, True)
         else case wc_decode wc payload of Inl e \<Rightarrow> (Inl (TcpProtocol e), c, s, True) | Inr body \<Rightarrow>
         (case decode_lifecycle_response body of Inl e \<Rightarrow> (Inl e, c, s, True) | Inr frame \<Rightarrow>
         (case accept_frame frame s of
            (s, Inl code) \<Rightarrow> (Inl (TcpProtocol code), c, s, True)
          | (s, Inr _) \<Rightarrow> (Inr frame, c, s, fr_is_final frame))))"

lemma client_read_frame_consumes:
  "client_read_frame c = (c', Inr x) \<Longrightarrow> length (cl_incoming c') < length (cl_incoming c)"
  by (auto simp: client_read_frame_def read_exact_def Let_def FRAME_HEADER_LEN_def
      split: if_splits prod.splits sum.splits option.splits)

lemma next_response_consumes:
  "next_response wc c s = (i, c', s', False) \<Longrightarrow> length (cl_incoming c') < length (cl_incoming c)"
  by (auto simp: next_response_def dest!: client_read_frame_consumes split: if_splits prod.splits sum.splits)

text \<open>The stream drained: its items until it finishes.  Every step consumes a frame, so it does.\<close>

function drain_stream :: "wire_codec \<Rightarrow> tcp_client \<Rightarrow> response_sequence \<Rightarrow> (tcp_error + native_frame) list \<times> tcp_client" where
  "drain_stream wc c s =
    (case next_response wc c s of
       (item, c', s', finished) \<Rightarrow>
         if finished then ([item], c')
         else let (items, c'') = drain_stream wc c' s' in (item # items, c''))"
  by pat_completeness auto

termination
proof (relation "measure (\<lambda>(_, c, _). length (cl_incoming c))", goal_cases)
  case (2 wc c s x1 x2 x3 x4 x5 x6)
  then show ?case using next_response_consumes [of wc c s x1 x3 x5] by (cases x6) auto
qed simp

declare drain_stream.simps [simp del]

definition call_stream ::
  "wire_codec \<Rightarrow> string \<Rightarrow> json \<Rightarrow> string \<Rightarrow> string \<Rightarrow> string \<Rightarrow> string option \<Rightarrow> tcp_client \<Rightarrow>
   (tcp_error + native_frame) list \<times> tcp_client" where
  "call_stream wc intent payload task_id session_id call_id idempotency_key c =
    (case (case require_handshake c of Inl e \<Rightarrow> Inl e | Inr _ \<Rightarrow>
             client_frame Call (wc_encode wc (stream_request wc intent payload task_id session_id call_id idempotency_key))) of
       Inl e \<Rightarrow> ([Inl e], c)
     | Inr request \<Rightarrow>
         (case client_write_all request c of
            (c, Inl e) \<Rightarrow> ([Inl e], c)
          | (c, Inr _) \<Rightarrow> drain_stream wc c (new_sequence session_id call_id task_id)))"

definition close_client :: "tcp_client \<Rightarrow> tcp_client \<times> (tcp_error + unit)" where
  "close_client c =
    (case require_handshake c of Inl e \<Rightarrow> (c, Inl e) | Inr _ \<Rightarrow>
     (case client_frame Close [] of Inl e \<Rightarrow> (c, Inl e) | Inr frame \<Rightarrow> client_write_all frame c))"

subsection \<open>Frames round trip\<close>

lemma from_to_be_bytes: "n < 2 ^ 32 \<Longrightarrow> from_be_bytes (to_be_bytes n) = n"
proof -
  assume n: "n < 2 ^ 32"
  have "n div 2 ^ 24 < 256" using n by (simp add: less_mult_imp_div_less)
  then have "from_be_bytes (to_be_bytes n) =
      ((n div 2 ^ 24 * 256 + n div 2 ^ 16 mod 256) * 256 + n div 2 ^ 8 mod 256) * 256 + n mod 256"
    by (simp add: from_be_bytes_def to_be_bytes_def)
  also have "n div 2 ^ 24 * 256 + n div 2 ^ 16 mod 256 = n div 2 ^ 16"
    using div_mult_mod_eq [of "n div 2 ^ 16" 256] by (simp flip: div_mult2_eq)
  also have "n div 2 ^ 16 * 256 + n div 2 ^ 8 mod 256 = n div 2 ^ 8"
    using div_mult_mod_eq [of "n div 2 ^ 8" 256] by (simp flip: div_mult2_eq)
  also have "n div 2 ^ 8 * 256 + n mod 256 = n" by simp
  finally show ?thesis .
qed

lemma length_to_be_bytes [simp]: "length (to_be_bytes n) = 4"
  by (simp add: to_be_bytes_def)

definition frame_bytes :: "char \<Rightarrow> string \<Rightarrow> char \<Rightarrow> string" where
  "frame_bytes t payload flags = IICP_MAGIC @ [FRAMING_VERSION, t, flags, CHR 0x00] @ to_be_bytes (length payload) @ payload"

lemma try_encode_frame_iff:
  "try_encode_frame t payload flags = Inr bs \<longleftrightarrow> length payload \<le> MAX_FRAME_PAYLOAD \<and> bs = frame_bytes t payload flags"
  by (auto simp: try_encode_frame_def frame_bytes_def)

lemma frame_header:
  assumes "length payload \<le> MAX_FRAME_PAYLOAD"
  shows "FRAME_HEADER_LEN + length payload = length (frame_bytes t payload flags)"
    and "take 4 (frame_bytes t payload flags @ rest) = IICP_MAGIC"
    and "(frame_bytes t payload flags @ rest) ! 4 = FRAMING_VERSION"
    and "(frame_bytes t payload flags @ rest) ! 5 = t"
    and "(frame_bytes t payload flags @ rest) ! 6 = flags"
    and "from_be_bytes (take 4 (drop 8 (frame_bytes t payload flags @ rest))) = length payload"
    and "take (length payload) (drop FRAME_HEADER_LEN (frame_bytes t payload flags @ rest)) = payload"
    and "drop (FRAME_HEADER_LEN + length payload) (frame_bytes t payload flags @ rest) = rest"
proof -
  have b: "length payload < 2 ^ 32" using assms by (simp add: MAX_FRAME_PAYLOAD_def)
  show "from_be_bytes (take 4 (drop 8 (frame_bytes t payload flags @ rest))) = length payload"
    using from_to_be_bytes [OF b] by (simp add: frame_bytes_def IICP_MAGIC_def)
  show "drop (FRAME_HEADER_LEN + length payload) (frame_bytes t payload flags @ rest) = rest"
    using drop_append [of "FRAME_HEADER_LEN + length payload" "frame_bytes t payload flags" rest]
    by (simp add: frame_bytes_def IICP_MAGIC_def FRAME_HEADER_LEN_def)
qed (simp_all add: frame_bytes_def IICP_MAGIC_def FRAME_HEADER_LEN_def)

theorem frame_round_trip:
  "try_encode_frame t payload flags = Inr bs \<Longrightarrow>
     decode_frame (bs @ rest) = Inr (\<lparr>if_version = FRAMING_VERSION, if_msg_type = t, if_flags = flags, if_payload = payload\<rparr>, length bs)"
proof -
  assume "try_encode_frame t payload flags = Inr bs"
  then have len: "length payload \<le> MAX_FRAME_PAYLOAD" and bs: "bs = frame_bytes t payload flags"
    by (simp_all add: try_encode_frame_iff)
  have total: "length (bs @ rest) = FRAME_HEADER_LEN + length payload + length rest"
    by (simp add: bs frame_header(1) [OF len, of t flags, symmetric])
  show ?thesis
    unfolding decode_frame_def Let_def bs frame_header [OF len] total [unfolded bs]
    using len by (simp add: frame_header(1) [OF len, of t flags, symmetric])
qed

subsection \<open>A session is a function of the bytes it receives\<close>

lemma fill_buf_None: "list_all (\<lambda>c. c \<noteq> []) cs \<Longrightarrow> fill_buf n buf cs = None \<longleftrightarrow> length (buf @ concat cs) < n"
  by (induction n buf cs rule: fill_buf.induct) auto

lemma fill_buf_Some:
  "list_all (\<lambda>c. c \<noteq> []) cs \<Longrightarrow> fill_buf n buf cs = Some (b, cs') \<Longrightarrow>
     b @ concat cs' = buf @ concat cs \<and> n \<le> length b \<and> list_all (\<lambda>c. c \<noteq> []) cs'"
  by (induction n buf cs rule: fill_buf.induct) (auto split: if_splits)

lemma header_prefix:
  assumes "FRAME_HEADER_LEN \<le> length b"
  shows "take 4 (b @ x) = take 4 b" "(b @ x) ! 4 = b ! 4" "(b @ x) ! 5 = b ! 5" "(b @ x) ! 6 = b ! 6"
    "take 4 (drop 8 (b @ x)) = take 4 (drop 8 b)"
  using assms by (simp_all add: FRAME_HEADER_LEN_def nth_append)

lemma decode_frame_prefix:
  assumes "FRAME_HEADER_LEN + from_be_bytes (take 4 (drop 8 b)) \<le> length b"
  shows "decode_frame (b @ x) = decode_frame b"
proof -
  have h: "FRAME_HEADER_LEN \<le> length b" using assms by simp
  then have d: "drop FRAME_HEADER_LEN (b @ x) = drop FRAME_HEADER_LEN b @ x" by simp
  show ?thesis
    unfolding decode_frame_def Let_def header_prefix [OF h] d using assms by simp
qed

text \<open>The loop by what its two waits give: the stream ends first, or a whole frame is in the buffer.\<close>

lemma session_loop_short:
  assumes "fill_buf FRAME_HEADER_LEN buf cs = None \<or>
    (\<exists>b cs'. fill_buf FRAME_HEADER_LEN buf cs = Some (b, cs') \<and>
       fill_buf (FRAME_HEADER_LEN + from_be_bytes (take 4 (drop 8 b))) b cs' = None)"
  shows "session_loop wc sv k i buf cs = ([], Inr ())"
  using assms by (subst session_loop.simps) (auto simp: Let_def)

definition frame_refused :: "string \<Rightarrow> bool" where
  "frame_refused b \<longleftrightarrow> take 4 b \<noteq> IICP_MAGIC \<or> stable_task_message_type_error (b ! 5) \<noteq> None \<or>
     from_be_bytes (take 4 (drop 8 b)) > MAX_FRAME_PAYLOAD"

lemma session_loop_frame:
  assumes "fill_buf FRAME_HEADER_LEN buf cs = Some (b, cs1)"
    and "fill_buf (FRAME_HEADER_LEN + from_be_bytes (take 4 (drop 8 b))) b cs1 = Some (b2, cs2)"
  shows "session_loop wc sv k i buf cs =
    (if frame_refused b then ([], Inr ())
     else case decode_frame b2 of Inl _ \<Rightarrow> ([], Inr ()) | Inr (frame, consumed) \<Rightarrow>
      if (\<not> i \<and> if_msg_type frame \<noteq> msg_byte Init) \<or> (i \<and> if_msg_type frame = msg_byte Init)
      then ([], Inr ())
      else case dispatch_frame wc sv k frame of
          (out, Inl e) \<Rightarrow> (out, Inl e)
        | (out, Inr keep_open) \<Rightarrow>
            if \<not> keep_open then (out, Inr ())
            else let (rest, r) = session_loop wc sv (k + 1) True (drop consumed b2) cs2 in (out @ rest, r))"
  unfolding session_loop.simps [of wc sv k i buf cs] assms(1) Let_def option.case prod.case assms(2) frame_refused_def
  by simp

lemma frame_refused_prefix: "FRAME_HEADER_LEN \<le> length b \<Longrightarrow> frame_refused (b @ x) = frame_refused b"
  unfolding frame_refused_def by (simp only: header_prefix)

lemma session_loop_bytes:
  "list_all (\<lambda>c. c \<noteq> []) cs \<Longrightarrow> session_loop wc sv k i buf cs = session_loop wc sv k i (buf @ concat cs) []"
proof (induction "length buf + sum_list (map length cs)" arbitrary: k i buf cs rule: less_induct)
  case less
  show ?case
  proof (cases "fill_buf FRAME_HEADER_LEN buf cs")
    case None
    with less(2) show ?thesis by (simp add: session_loop_short fill_buf_None)
  next
    case (Some a)
    then obtain b cs1 where f1: "fill_buf FRAME_HEADER_LEN buf cs = Some (b, cs1)" by (cases a) auto
    let ?x = "b @ concat cs1" and ?n = "FRAME_HEADER_LEN + from_be_bytes (take 4 (drop 8 b))"
    have b: "buf @ concat cs = ?x" "FRAME_HEADER_LEN \<le> length b" "list_all (\<lambda>c. c \<noteq> []) cs1"
      using fill_buf_Some [OF less(2) f1] by simp_all
    note pre = header_prefix [OF b(2)]
    have g1: "fill_buf FRAME_HEADER_LEN ?x [] = Some (?x, [])" using b(2) by simp
    have len: "take 4 (drop 8 ?x) = take 4 (drop 8 b)" by (rule pre)
    show ?thesis
    proof (cases "fill_buf ?n b cs1")
      case None
      then have "fill_buf ?n ?x [] = None" using fill_buf_None [OF b(3)] by simp
      then show ?thesis unfolding b(1) using None f1 g1 len
        by (metis session_loop_short)
    next
      case (Some a)
      then obtain b2 cs2 where f2: "fill_buf ?n b cs1 = Some (b2, cs2)" by (cases a) auto
      have b2: "?x = b2 @ concat cs2" "?n \<le> length b2" "list_all (\<lambda>c. c \<noteq> []) cs2"
        using fill_buf_Some [OF b(3) f2] by simp_all
      have h2: "FRAME_HEADER_LEN \<le> length b2" using b2(2) by simp
      have same: "take 4 (drop 8 b2) = take 4 (drop 8 b)"
        by (metis header_prefix(5) [OF h2] len b2(1))
      have dec: "decode_frame ?x = decode_frame b2"
        unfolding b2(1) by (rule decode_frame_prefix) (use b2(2) same in simp)
      have "fill_buf ?n ?x [] = Some (?x, [])" unfolding b2(1) using b2(2) by simp
      then have g2: "fill_buf (FRAME_HEADER_LEN + from_be_bytes (take 4 (drop 8 ?x))) ?x [] = Some (?x, [])"
        by (simp only: len)
      have next_frame: "session_loop wc sv k' True (drop n b2) cs2 = session_loop wc sv k' True (drop n ?x) []"
        if "decode_frame b2 = Inr (f, n)" for k' f n
      proof -
        have n: "FRAME_HEADER_LEN \<le> n" "n \<le> length b2" using decode_frame_consumed [OF that] by simp_all
        have "length (drop n b2) + sum_list (map length cs2) < length buf + sum_list (map length cs)"
          using n fill_buf_total [OF f1] fill_buf_total [OF f2] unfolding FRAME_HEADER_LEN_def length_drop by linarith
        from less(1) [OF this b2(3)] show ?thesis using n(2) by (simp add: b2(1))
      qed
      show ?thesis
        unfolding b(1) session_loop_frame [OF f1 f2] session_loop_frame [OF g1 g2] dec frame_refused_prefix [OF b(2)]
        by (auto simp: next_frame simp del: append_assoc split: sum.split prod.split)
    qed
  qed
qed

lemma handle_connection_bytes:
  assumes "list_all (\<lambda>c. c \<noteq> []) cs"
  shows "handle_connection wc sv cs = session_loop wc sv 0 False (concat cs) []"
proof (cases "fill_buf 4 [] cs")
  case None
  with assms have "fill_buf FRAME_HEADER_LEN (concat cs) [] = None" by (simp add: fill_buf_None FRAME_HEADER_LEN_def)
  with None show ?thesis by (simp add: handle_connection_def session_loop_short)
next
  case (Some a)
  then obtain b cs1 where f: "fill_buf 4 [] cs = Some (b, cs1)" by (cases a) auto
  have b: "concat cs = b @ concat cs1" "4 \<le> length b" "list_all (\<lambda>c. c \<noteq> []) cs1"
    using fill_buf_Some [OF assms f] by simp_all
  have m: "take 4 (concat cs) = take 4 b" using b by simp
  show ?thesis
  proof (cases "fill_buf FRAME_HEADER_LEN b cs1")
    case None
    with b have "fill_buf FRAME_HEADER_LEN (concat cs) [] = None" by (simp add: fill_buf_None)
    with f None show ?thesis by (simp add: handle_connection_def session_loop_short)
  next
    case (Some a)
    then obtain b2 cs2 where f2: "fill_buf FRAME_HEADER_LEN b cs1 = Some (b2, cs2)" by (cases a) auto
    have b2: "b2 @ concat cs2 = concat cs" "FRAME_HEADER_LEN \<le> length b2" "list_all (\<lambda>c. c \<noteq> []) cs2"
      using fill_buf_Some [OF b(3) f2] b(1) by simp_all
    have "session_loop wc sv 0 False (concat cs) [] = ([], Inr ())" if "take 4 b \<noteq> IICP_MAGIC"
      using that m by (subst session_loop.simps) (simp split: option.split)
    with f f2 session_loop_bytes [OF b2(3), of wc sv 0 False b2] b2(1) show ?thesis
      by (simp add: handle_connection_def)
  qed
qed

text \<open>The session as it reads on the level of frames: the frames in order, each checked for its type and the state of the
  handshake, then answered.\<close>

fun serve_frames :: "wire_codec \<Rightarrow> tcp_server \<Rightarrow> nat \<Rightarrow> bool \<Rightarrow> iicp_frame list \<Rightarrow> string list \<times> (string + unit)" where
  "serve_frames wc sv k initialized [] = ([], Inr ())"
| "serve_frames wc sv k initialized (f # fs) =
    (if stable_task_message_type_error (if_msg_type f) \<noteq> None \<or> (if_msg_type f = msg_byte Init) = initialized then ([], Inr ())
     else case dispatch_frame wc sv k f of
         (out, Inl e) \<Rightarrow> (out, Inl e)
       | (out, Inr False) \<Rightarrow> (out, Inr ())
       | (out, Inr True) \<Rightarrow> let (rest, r) = serve_frames wc sv (k + 1) True fs in (out @ rest, r))"

definition valid_frame :: "iicp_frame \<Rightarrow> bool" where
  "valid_frame f \<longleftrightarrow> if_version f = FRAMING_VERSION \<and> length (if_payload f) \<le> MAX_FRAME_PAYLOAD"

definition bytes_of :: "iicp_frame \<Rightarrow> string" where
  "bytes_of f = frame_bytes (if_msg_type f) (if_payload f) (if_flags f)"

text \<open>Bytes that do not hold the whole frame they begin.\<close>

definition unfinished :: "string \<Rightarrow> bool" where
  "unfinished bs \<longleftrightarrow> length bs < FRAME_HEADER_LEN + (if length bs < FRAME_HEADER_LEN then 0 else from_be_bytes (take 4 (drop 8 bs)))"

lemma decode_bytes_of:
  assumes "valid_frame f"
  shows "decode_frame (bytes_of f @ rest) = Inr (f, length (bytes_of f))"
proof -
  have "try_encode_frame (if_msg_type f) (if_payload f) (if_flags f) = Inr (bytes_of f)"
    using assms by (simp add: try_encode_frame_iff valid_frame_def bytes_of_def)
  from frame_round_trip [OF this] show ?thesis using assms by (simp add: valid_frame_def)
qed

lemma session_loop_serves:
  "list_all valid_frame fs \<Longrightarrow> unfinished rest \<Longrightarrow>
     session_loop wc sv k i (concat (map bytes_of fs) @ rest) [] = serve_frames wc sv k i fs"
proof (induction fs arbitrary: k i)
  case Nil
  then show ?case by (auto intro!: session_loop_short simp: unfinished_def split: if_splits)
next
  case (Cons f fs)
  let ?x = "concat (map bytes_of fs) @ rest"
  let ?b = "bytes_of f @ ?x"
  have len: "length (if_payload f) \<le> MAX_FRAME_PAYLOAD" using Cons by (simp add: valid_frame_def)
  note h = frame_header [OF len, of "if_msg_type f" "if_flags f", folded bytes_of_def]
  have g1: "fill_buf FRAME_HEADER_LEN ?b [] = Some (?b, [])" using h(1) by simp
  have g2: "fill_buf (FRAME_HEADER_LEN + from_be_bytes (take 4 (drop 8 ?b))) ?b [] = Some (?b, [])"
    unfolding h(6) using h(1) by simp
  have dec: "decode_frame ?b = Inr (f, length (bytes_of f))" using Cons by (simp add: decode_bytes_of del: append_assoc)
  have refused: "frame_refused ?b \<longleftrightarrow> stable_task_message_type_error (if_msg_type f) \<noteq> None"
    unfolding frame_refused_def h using len by simp
  have rest: "drop (length (bytes_of f)) ?b = ?x" by simp
  have next_frames: "session_loop wc sv k' True ?x [] = serve_frames wc sv k' True fs" for k'
    using Cons by simp
  have "session_loop wc sv k i ?b [] = serve_frames wc sv k i (f # fs)"
    unfolding session_loop_frame [OF g1 g2] dec refused sum.case prod.case rest next_frames
    by (auto split: sum.split prod.split bool.split)
  then show ?case by simp
qed

text \<open>C20.  However the network cuts the bytes of a connection into reads, a session that receives a sequence of encoded
  frames, and perhaps the beginning of one more, answers exactly those frames, in order: it stops at the first of a refused
  type or out of step with the handshake, and otherwise goes on until a handler closes it or fails.\<close>

theorem session_serves_frames:
  assumes "list_all (\<lambda>c. c \<noteq> []) cs" and "list_all valid_frame fs" and "unfinished rest"
    and "concat cs = concat (map bytes_of fs) @ rest"
  shows "handle_connection wc sv cs = serve_frames wc sv 0 False fs"
  using assms by (simp add: handle_connection_bytes session_loop_serves)

subsection \<open>Streaming calls from end to end\<close>

lemma client_read_bytes:
  assumes "cl_incoming c = frame_bytes t payload flags @ rest" and len: "length payload \<le> MAX_FRAME_PAYLOAD"
    and "stable_task_message_type_error t = None"
  shows "client_read_frame c = (c\<lparr>cl_incoming := rest\<rparr>, Inr (t, payload))"
proof -
  let ?h = "take FRAME_HEADER_LEN (frame_bytes t payload flags)"
  have head: "frame_bytes t payload flags @ rest = ?h @ payload @ rest" "length ?h = FRAME_HEADER_LEN"
    by (simp_all add: frame_bytes_def IICP_MAGIC_def FRAME_HEADER_LEN_def)
  have "read_exact FRAME_HEADER_LEN c = (c\<lparr>cl_incoming := payload @ rest\<rparr>, Inr ?h)"
    unfolding read_exact_def assms(1) head(1) using head(2) by simp
  moreover have "take 4 ?h = IICP_MAGIC" "?h ! 4 = FRAMING_VERSION" "?h ! 5 = t"
    by (simp_all add: frame_bytes_def IICP_MAGIC_def FRAME_HEADER_LEN_def)
  moreover have "take 4 (drop 8 ?h) = take 4 (drop 8 (frame_bytes t payload flags @ []))"
    by (simp add: frame_bytes_def IICP_MAGIC_def FRAME_HEADER_LEN_def)
  then have "from_be_bytes (take 4 (drop 8 ?h)) = length payload" by (simp only: frame_header(6) [OF len])
  moreover have "read_exact (length payload) (c\<lparr>cl_incoming := payload @ rest\<rparr>) = (c\<lparr>cl_incoming := rest\<rparr>, Inr payload)"
    by (simp add: read_exact_def)
  ultimately show ?thesis using assms(3) len by (cases "payload = []") (simp_all add: client_read_frame_def)
qed

definition event_name :: "stream_event \<Rightarrow> string" where
  "event_name e = unwrap_or (ev_event e) (default_event (ev_status e))"

text \<open>The response an event becomes at the client.\<close>

definition event_frame :: "string \<Rightarrow> string \<Rightarrow> string \<Rightarrow> u64 \<Rightarrow> stream_event \<Rightarrow> native_frame" where
  "event_frame session call task n e =
     \<lparr>fr_session_id = session, fr_call_id = call, fr_status = ev_status e, fr_is_final = (ev_status e \<noteq> ''partial''),
      fr_lifecycle = \<lparr>en_task_id = task, en_sequence = n, en_event = event_name e, en_is_final = (ev_status e \<noteq> ''partial'')\<rparr>,
      fr_result = (case ev_result e of Some j \<Rightarrow> cbor_to_json (json_to_cbor j) | None \<Rightarrow> JNull),
      fr_error = (if ev_error_code e = None \<and> ev_error_message e = None then JNull
        else JObj [(''code'', JStr (unwrap_or (ev_error_code e) ''stream_error'')),
                   (''message'', JStr (unwrap_or (ev_error_message e) ''stream failed''))]),
      fr_tokens_used = ev_tokens_used e\<rparr>"

lemma uint_u64_less [simp]: "uint (n :: u64) < 18446744073709551616"
proof -
  have "uint n < 2 ^ LENGTH(64)" by (rule unsigned_less)
  then show ?thesis by simp
qed

lemma decode_lifecycle_body:
  "decode_lifecycle_response (lifecycle_body session call task n e) = Inr (event_frame session call task n e)"
  by (simp add: decode_lifecycle_response_def lifecycle_body_def event_frame_def event_name_def get_text_def opt_entry_def
      opt_string_def Let_def split: option.split)

definition event_consistent :: "stream_event \<Rightarrow> bool" where
  "event_consistent e \<longleftrightarrow> status_matches (ev_status e) (event_name e)"

lemma accept_event_frame:
  assumes "event_consistent e" and "s = \<lparr>rs_session_id = session, rs_call_id = call, rs_task_id = task,
    rs_next_sequence = n, rs_terminal_seen = False\<rparr>"
  shows "accept_frame (event_frame session call task n e) s =
    (s\<lparr>rs_next_sequence := n + 1, rs_terminal_seen := (ev_status e \<noteq> ''partial'')\<rparr>, Inr ())"
  using assms by (simp add: accept_frame_def event_frame_def event_consistent_def)

text \<open>What the values of a call need of the codec: they come back, and they fit a frame.\<close>

definition carries :: "wire_codec \<Rightarrow> cbor \<Rightarrow> bool" where
  "carries wc v \<longleftrightarrow> wc_decode wc (wc_encode wc v) = Inr v \<and> length (wc_encode wc v) \<le> MAX_FRAME_PAYLOAD"

lemma stable_types [simp]:
  "stable_task_message_type_error (msg_byte t) = (if t \<in> {RelayBind, RelayAck} then Some ''conflicted_type'' else None)"
  by (cases t) (simp_all add: stable_task_message_type_error_def)

lemma send_frame_carried:
  "length payload \<le> MAX_FRAME_PAYLOAD \<Longrightarrow> send_frame t payload = ([frame_bytes (msg_byte t) payload (CHR 0x00)], Inr True)"
  by (simp add: send_frame_def try_encode_frame_iff split: sum.split)
    (simp add: try_encode_frame_def)

lemma next_response_event:
  assumes "carries wc (lifecycle_body session call task n e)" and "event_consistent e"
    and "s = \<lparr>rs_session_id = session, rs_call_id = call, rs_task_id = task, rs_next_sequence = n, rs_terminal_seen = False\<rparr>"
    and "cl_incoming c = frame_bytes (msg_byte Response) (encode_lifecycle_response wc session call task n e) (CHR 0x00) @ rest"
  shows "next_response wc c s = (Inr (event_frame session call task n e), c\<lparr>cl_incoming := rest\<rparr>,
    s\<lparr>rs_next_sequence := n + 1, rs_terminal_seen := (ev_status e \<noteq> ''partial'')\<rparr>, ev_status e \<noteq> ''partial'')"
proof -
  let ?p = "encode_lifecycle_response wc session call task n e"
  have "length ?p \<le> MAX_FRAME_PAYLOAD" "wc_decode wc ?p = Inr (lifecycle_body session call task n e)"
    using assms(1) by (simp_all add: carries_def encode_lifecycle_response_def)
  moreover have "client_read_frame c = (c\<lparr>cl_incoming := rest\<rparr>, Inr (msg_byte Response, ?p))"
    by (rule client_read_bytes [OF assms(4)]) (use calculation stable_types [of Response] in simp_all)
  ultimately show ?thesis
    using accept_event_frame [OF assms(2,3)] by (simp add: next_response_def decode_lifecycle_body event_frame_def)
qed

text \<open>The events that go out: those the handler gives, checked, up to the first that ends the call; one more that ends it
  where none did.\<close>

fun delivered :: "(string + stream_event) list \<Rightarrow> stream_event list" where
  "delivered [] = [failed_event ''stream_incomplete'' ''stream ended without a terminal response'']"
| "delivered (item # items) =
    (if ev_status (vet_event item) \<noteq> ''partial'' then [vet_event item] else vet_event item # delivered items)"

fun frames_from :: "(u64 \<Rightarrow> stream_event \<Rightarrow> 'a) \<Rightarrow> u64 \<Rightarrow> stream_event list \<Rightarrow> 'a list" where
  "frames_from f n [] = []"
| "frames_from f n (e # es) = f n e # frames_from f (n + 1) es"

text \<open>A run of events that ends with the first terminal one.\<close>

fun one_terminal :: "stream_event list \<Rightarrow> bool" where
  "one_terminal [] = False"
| "one_terminal (e # es) = (if ev_status e = ''partial'' then one_terminal es else es = [])"

lemma one_terminal_delivered: "one_terminal (delivered items)"
  by (induction items) (auto simp: failed_event_def)

lemma stream_events_delivered:
  "list_all (carries wc) (frames_from (lifecycle_body session call task) n (delivered items)) \<Longrightarrow>
     stream_events wc session call task n items =
       (frames_from (\<lambda>n e. frame_bytes (msg_byte Response) (encode_lifecycle_response wc session call task n e) (CHR 0x00)) n
          (delivered items), Inr True)"
  by (induction items arbitrary: n)
    (auto simp: send_event_def send_frame_carried carries_def encode_lifecycle_response_def Let_def)

lemma drain_stream_events:
  assumes "one_terminal es" and "list_all event_consistent es"
    and "list_all (carries wc) (frames_from (lifecycle_body session call task) n es)"
    and "cl_incoming c = concat (frames_from (\<lambda>n e. frame_bytes (msg_byte Response)
           (encode_lifecycle_response wc session call task n e) (CHR 0x00)) n es) @ rest"
    and "s = \<lparr>rs_session_id = session, rs_call_id = call, rs_task_id = task, rs_next_sequence = n, rs_terminal_seen = False\<rparr>"
  shows "drain_stream wc c s = (map Inr (frames_from (event_frame session call task) n es), c\<lparr>cl_incoming := rest\<rparr>) \<and>
    (\<exists>s'. accept_frames (frames_from (event_frame session call task) n es) s = Inr s' \<and> rs_terminal_seen s')"
  using assms
proof (induction es arbitrary: n c s)
  case (Cons e es)
  let ?s = "s\<lparr>rs_next_sequence := n + 1, rs_terminal_seen := (ev_status e \<noteq> ''partial'')\<rparr>"
  obtain r where r: "cl_incoming c = frame_bytes (msg_byte Response) (encode_lifecycle_response wc session call task n e) (CHR 0x00) @ r"
    "r = concat (frames_from (\<lambda>n e. frame_bytes (msg_byte Response)
           (encode_lifecycle_response wc session call task n e) (CHR 0x00)) (n + 1) es) @ rest"
    using Cons(5) by simp
  have e: "carries wc (lifecycle_body session call task n e)" "event_consistent e" using Cons by simp_all
  note next_e = next_response_event [OF e Cons(6) r(1)] and acc = accept_event_frame [OF e(2) Cons(6)]
  show ?case
  proof (cases "ev_status e = ''partial''")
    case True
    have "drain_stream wc (c\<lparr>cl_incoming := r\<rparr>) ?s =
        (map Inr (frames_from (event_frame session call task) (n + 1) es), c\<lparr>cl_incoming := r\<rparr>\<lparr>cl_incoming := rest\<rparr>) \<and>
      (\<exists>s'. accept_frames (frames_from (event_frame session call task) (n + 1) es) ?s = Inr s' \<and> rs_terminal_seen s')"
      by (rule Cons.IH) (use Cons True r(2) in simp_all)
    with True next_e acc show ?thesis by (simp add: drain_stream.simps [of wc c s])
  next
    case False
    with Cons(2) have "es = []" by simp
    with False r(2) next_e acc show ?thesis by (simp add: drain_stream.simps [of wc c s])
  qed
qed simp

lemma body_of_carried: "carries wc v \<Longrightarrow> if_payload f = wc_encode wc v \<Longrightarrow> body_of wc f = v"
  by (simp add: body_of_def carries_def)

definition call_frame :: "wire_codec \<Rightarrow> cbor \<Rightarrow> iicp_frame" where
  "call_frame wc v = \<lparr>if_version = FRAMING_VERSION, if_msg_type = msg_byte Call, if_flags = CHR 0x00, if_payload = wc_encode wc v\<rparr>"

lemma dispatch_call: "dispatch_frame wc sv k (call_frame wc v) = on_call wc sv k (call_frame wc v)"
  by (simp add: dispatch_frame_def from_u8_def call_frame_def)

lemma client_frame_carried: "carries wc v \<Longrightarrow> client_frame Call (wc_encode wc v) = Inr (bytes_of (call_frame wc v))"
  by (simp add: client_frame_def carries_def try_encode_frame_def bytes_of_def call_frame_def frame_bytes_def)

text \<open>The events a streaming call is answered with: one refusal where no slot is free.\<close>

definition answered_events :: "tcp_server \<Rightarrow> nat \<Rightarrow> (string + stream_event) list \<Rightarrow> stream_event list" where
  "answered_events sv k items =
    (if acquire_slot sv k then delivered items else [failed_event ''capacity_exceeded'' ''node concurrency capacity reached''])"

lemma one_terminal_answered: "one_terminal (answered_events sv k items)"
  using one_terminal_delivered by (simp add: answered_events_def failed_event_def)

lemma on_stream_call_answers:
  assumes "es = answered_events sv k (h k \<lparr>tk_task_id = task, tk_intent = intent, tk_payload = payload\<rparr>)"
    and "list_all (carries wc) (frames_from (lifecycle_body session call task) 0 es)"
  shows "on_stream_call wc sv k h session call task intent payload =
    (frames_from (\<lambda>n e. frame_bytes (msg_byte Response) (encode_lifecycle_response wc session call task n e) (CHR 0x00)) 0 es, Inr True)"
  using assms by (auto simp: on_stream_call_def answered_events_def stream_events_delivered send_event_def
      send_frame_carried carries_def encode_lifecycle_response_def)

lemma stream_request_members:
  fixes wc intent payload task session call key
  defines "r \<equiv> stream_request wc intent payload task session call key"
  shows "get_text r 2 = Some session" "get_text r 3 = Some intent" "get_text r 15 = Some call" "get_text r 24 = Some task"
  by (simp_all add: r_def stream_request_def get_text_def)

text \<open>C34.  A streaming call is answered to its end.  When the server answers the client's request, the client's stream yields
  exactly the events the handler gave, in order and numbered from zero, up to its first terminal one, with a terminal error
  where the handler gave none or no slot was free; every response passes the sequence check, the stream is complete and leaves
  the bytes after it unread.  It needs that the values of the call survive the codec and fit a frame, and that handlers that
  name an event name one that agrees with its status.\<close>

theorem stream_call_completes:
  assumes "sv_streaming_handler sv = Some h"
    and "request = stream_request wc intent payload task session call key"
    and "es = answered_events sv k (h k \<lparr>tk_task_id = task, tk_intent = intent, tk_payload = call_payload wc request\<rparr>)"
    and "list_all (carries wc) (request # frames_from (lifecycle_body session call task) 0 es)"
    and "list_all event_consistent es"
    and "cl_framing_version c = Some FRAMING_VERSION" and "\<not> cl_broken c"
    and "dispatch_frame wc sv k (call_frame wc request) = (out, r)"
    and "cl_incoming c = concat out @ rest"
    and "fs = frames_from (event_frame session call task) 0 es"
  shows "r = Inr True \<and>
    call_stream wc intent payload task session call key c =
      (map Inr fs, c\<lparr>cl_sent := cl_sent c @ [bytes_of (call_frame wc request)], cl_incoming := rest\<rparr>) \<and>
    complete_stream session call task fs"
proof -
  let ?out = "frames_from (\<lambda>n e. frame_bytes (msg_byte Response)
    (encode_lifecycle_response wc session call task n e) (CHR 0x00)) 0 es"
  let ?c = "c\<lparr>cl_sent := cl_sent c @ [bytes_of (call_frame wc request)]\<rparr>"
  have req: "carries wc request" and bodies: "list_all (carries wc) (frames_from (lifecycle_body session call task) 0 es)"
    using assms(4) by simp_all
  have "body_of wc (call_frame wc request) = request" using req by (rule body_of_carried) (simp add: call_frame_def)
  then have "dispatch_frame wc sv k (call_frame wc request) =
      on_stream_call wc sv k h session call task intent (call_payload wc request)"
    using assms(1) stream_request_members [of wc intent payload task session call key]
    by (simp add: dispatch_call on_call_def assms(2))
  with on_stream_call_answers [of es sv k h task intent "call_payload wc request", OF assms(3) bodies] assms(8) have out: "out = ?out" "r = Inr True" by simp_all
  have inc: "cl_incoming ?c = concat ?out @ rest" using assms(9) out by simp
  have "one_terminal es" using one_terminal_answered assms(3) by simp
  note drained = drain_stream_events [OF this assms(5) bodies inc refl]
  show ?thesis
    using drained out(2) assms(6,7,10) client_frame_carried [OF req]
    by (auto simp: call_stream_def require_handshake_def client_write_all_def new_sequence_def complete_stream_def
        finish_sequence_def simp flip: assms(2))
qed

subsection \<open>JSON over CBOR\<close>

text \<open>The values that cross unchanged: integers of \<^verbatim>\<open>i64\<close>, and objects as the library keeps them, keys in order and distinct.\<close>

fun json_portable :: "json \<Rightarrow> bool" where
  "json_portable (JPos n) = (uint n < 2 ^ 63)"
| "json_portable (JNeg i) = (- (2 ^ 63) \<le> i \<and> i < 0)"
| "json_portable (JArr vs) = list_all json_portable vs"
| "json_portable (JObj ms) = (sorted_wrt (<) (map fst ms) \<and> list_all (\<lambda>(k, v). json_portable v) ms)"
| "json_portable _ = True"

lemma obj_insert_last: "list_all (\<lambda>(k', _). k' < k) ms \<Longrightarrow> obj_insert k v ms = ms @ [(k, v)]"
  by (induction ms) auto

lemma obj_insert_all:
  "sorted_wrt (<) (map fst (acc @ ms)) \<Longrightarrow> fold (\<lambda>(k, v) obj. obj_insert k v obj) ms acc = acc @ ms"
proof (induction ms arbitrary: acc)
  case (Cons m ms)
  then have "list_all (\<lambda>(k', _). k' < fst m) acc" by (auto simp: sorted_wrt_append list_all_iff)
  then have "obj_insert (fst m) (snd m) acc = acc @ [m]" by (simp add: obj_insert_last)
  with Cons(1) [of "acc @ [m]"] Cons(2) show ?case by (simp add: case_prod_unfold)
qed simp

lemma json_cbor_portable: "json_portable j \<Longrightarrow> cbor_to_json (json_to_cbor j) = j"
proof (induction j rule: json_to_cbor.induct)
  case (3 n)
  have "- (2 ^ 63) \<le> uint n" by (rule order_trans [of _ 0]) simp_all
  with 3 show ?case by (simp add: json_of_i64_def)
next
  case (8 ms)
  let ?g = "\<lambda>(k, v). (k, json_to_cbor v)"
  have "sorted (map fst (map ?g ms))"
    using 8(2) by (auto simp: comp_def case_prod_unfold intro: sorted_wrt_mono_rel [of _ "(<)"])
  then have "sort_key fst (map ?g ms) = map ?g ms" by (rule sort_key_id_if_sorted)
  then have "cbor_to_json (json_to_cbor (JObj ms)) =
      JObj (fold (\<lambda>(k, v) obj. obj_insert k v obj) (map (\<lambda>(k, v). (k, cbor_to_json (json_to_cbor v))) ms) [])"
    by (simp add: fold_map comp_def case_prod_unfold)
  also have "map (\<lambda>(k, v). (k, cbor_to_json (json_to_cbor v))) ms = ms"
    using 8 by (intro map_idI) (auto simp: list_all_iff)
  also have "fold (\<lambda>(k, v) obj. obj_insert k v obj) ms [] = ms" using 8(2) by (simp add: obj_insert_all)
  finally show ?case .
qed (auto simp: json_of_i64_def list_all_iff intro: map_idI)

text \<open>An unsigned integer past \<^verbatim>\<open>i64::MAX\<close> comes back as a string of its digits.\<close>

lemma large_integer_becomes_string:
  assumes "2 ^ 63 \<le> uint n"
  shows "cbor_to_json (json_to_cbor (JPos n)) = JStr (show_nat (unat n))"
  using assms by (simp add: show_integer_def)

subsection \<open>Buffered calls from end to end\<close>

definition call_request :: "string \<Rightarrow> string \<Rightarrow> string \<Rightarrow> string option \<Rightarrow> cbor" where
  "call_request session intent payload_bytes call_id =
     CMap ([(CInt 2, CText session), (CInt 3, CText intent), (CInt 5, CBytes payload_bytes)] @ opt_entry 15 CText call_id)"

lemma call_request_members:
  "get_text (call_request session intent bytes call_id) 2 = Some session"
  "get_text (call_request session intent bytes call_id) 3 = Some intent"
  "get_text (call_request session intent bytes call_id) 15 = call_id"
  "get_text (call_request session intent bytes call_id) 24 = None"
  "cbor_map_get (call_request session intent bytes call_id) 5 = Some (CBytes bytes)"
  by (simp_all add: call_request_def get_text_def opt_entry_def split: option.split)

text \<open>What a handler's value means: an error code with its message, or the result.\<close>

definition handler_answer :: "json \<Rightarrow> (int \<times> string) + json" where
  "handler_answer v =
    (case Option.bind (json_get v ''error_code'') as_i64 of
       Some ec \<Rightarrow> Inl (ec, unwrap_or (Option.bind (json_get v ''error_message'') as_str) ''handler error'')
     | None \<Rightarrow> Inr (unwrap_or (json_get v ''result'') v))"

lemma handler_outcome_answer:
  "handler_outcome wc v = (case handler_answer v of Inl e \<Rightarrow> Inl e | Inr j \<Rightarrow> Inr (wc_encode wc (json_to_cbor j)))"
  by (cases v) (simp_all add: handler_outcome_def handler_answer_def split: option.split)

definition answer_body :: "wire_codec \<Rightarrow> string \<Rightarrow> string option \<Rightarrow> (int \<times> string) + json \<Rightarrow> cbor" where
  "answer_body wc session call_id a =
    (case a of Inl (code, message) \<Rightarrow> response_body session call_id None (Some code) (Some message)
     | Inr j \<Rightarrow> response_body session call_id (Some (wc_encode wc (json_to_cbor j))) None None)"

definition answer_carried :: "wire_codec \<Rightarrow> string \<Rightarrow> string option \<Rightarrow> (int \<times> string) + json \<Rightarrow> bool" where
  "answer_carried wc session call_id a \<longleftrightarrow> carries wc (answer_body wc session call_id a) \<and>
    (case a of Inl (code, _) \<Rightarrow> - (2 ^ 63) \<le> code \<and> code < 2 ^ 63
     | Inr j \<Rightarrow> json_portable j \<and> wc_decode wc (wc_encode wc (json_to_cbor j)) = Inr (json_to_cbor j))"

lemma as_i64_cast_id: "- (2 ^ 63) \<le> i \<Longrightarrow> i < 2 ^ 63 \<Longrightarrow> as_i64_cast i = i"
  unfolding as_i64_cast_def by (simp add: signed_take_bit_int_eq_self signed_of_int)

lemma call_result_answer:
  "answer_carried wc session call_id a \<Longrightarrow>
     call_result wc (answer_body wc session call_id a) =
       (case a of Inl (code, message) \<Rightarrow> Inl (TcpServer code message) | Inr j \<Rightarrow> Inr j)"
  by (auto simp: answer_carried_def answer_body_def call_result_def response_body_def opt_entry_def get_text_def
      as_i64_cast_id json_cbor_portable split: sum.splits option.split)

lemma on_call_answer:
  assumes "sv_handler sv = Some h" and "acquire_slot sv k"
    and "carries wc (call_request session intent bytes call_id)"
    and "wc_utf8 wc bytes" and "wc_parse_json wc bytes = Some payload"
    and "a = handler_answer (h k \<lparr>tk_task_id = unwrap_or call_id session, tk_intent = intent, tk_payload = payload\<rparr>)"
    and "carries wc (answer_body wc session call_id a)"
  shows "on_call wc sv k (call_frame wc (call_request session intent bytes call_id)) =
    ([frame_bytes (msg_byte Response) (wc_encode wc (answer_body wc session call_id a)) (CHR 0x00)], Inr True)"
proof -
  let ?q = "call_request session intent bytes call_id"
  have body: "body_of wc (call_frame wc ?q) = ?q" using assms(3) by (rule body_of_carried) (simp add: call_frame_def)
  have payload: "call_payload wc ?q = payload"
    using assms(4,5) by (simp add: call_payload_def call_request_members)
  have gate: "sv_concurrency_gate sv = None \<or> (\<exists>limit free. sv_concurrency_gate sv = Some (limit, free) \<and> free k)"
    using assms(2) by (auto simp: acquire_slot_def split: option.splits)
  have "length (wc_encode wc (answer_body wc session call_id a)) \<le> MAX_FRAME_PAYLOAD" using assms(7) by (simp add: carries_def)
  note sent = send_frame_carried [OF this, of Response]
  show ?thesis
    unfolding on_call_def Let_def body call_request_members payload assms(1)
    using gate sent
    by (auto simp: handler_outcome_answer answer_body_def encode_response_def simp flip: assms(6) split: sum.splits)
qed

text \<open>C35.  A buffered call returns what the handler answered: the client gets the handler's result as it was, or the error code
  and message the handler reported, for requests and answers that survive the codecs and fit a frame, and results whose
  integers fit \<^verbatim>\<open>i64\<close>.  The handler is given the client's payload and intent, and the call's id, or the session's without one.\<close>

theorem call_returns_answer:
  assumes "sv_handler sv = Some h" and "acquire_slot sv k"
    and "wc_print_json wc payload = Inr bytes" and "wc_utf8 wc bytes" and "wc_parse_json wc bytes = Some payload"
    and "request = call_request session intent bytes call_id" and "carries wc request"
    and "a = handler_answer (h k \<lparr>tk_task_id = unwrap_or call_id session, tk_intent = intent, tk_payload = payload\<rparr>)"
    and "answer_carried wc session call_id a"
    and "cl_framing_version c = Some FRAMING_VERSION" and "\<not> cl_broken c"
    and "dispatch_frame wc sv k (call_frame wc request) = (out, r)" and "cl_incoming c = concat out @ rest"
  shows "call_with_session wc intent payload call_id session c =
    (c\<lparr>cl_sent := cl_sent c @ [bytes_of (call_frame wc request)], cl_incoming := rest\<rparr>,
     case a of Inl (code, message) \<Rightarrow> Inl (TcpServer code message) | Inr j \<Rightarrow> Inr j)"
proof -
  let ?b = "answer_body wc session call_id a"
  let ?c = "c\<lparr>cl_sent := cl_sent c @ [bytes_of (call_frame wc request)]\<rparr>"
  have b: "carries wc ?b" using assms(9) by (simp add: answer_carried_def)
  have "out = [frame_bytes (msg_byte Response) (wc_encode wc ?b) (CHR 0x00)]"
    using on_call_answer [OF assms(1,2) assms(7) [unfolded assms(6)] assms(4,5,8) b] assms(6,12) by (simp add: dispatch_call)
  then have "client_read_frame ?c = (?c\<lparr>cl_incoming := rest\<rparr>, Inr (msg_byte Response, wc_encode wc ?b))"
    using assms(13) b stable_types [of Response] by (intro client_read_bytes) (simp_all add: carries_def)
  moreover have "wc_decode wc (wc_encode wc ?b) = Inr ?b" using b by (simp add: carries_def)
  moreover have "client_write_all (bytes_of (call_frame wc request)) c = (?c, Inr ())"
    using assms(11) by (simp add: client_write_all_def)
  ultimately show ?thesis
    using assms(3,6,10) client_frame_carried [OF assms(7)] call_result_answer [OF assms(9)]
    by (simp add: call_with_session_def require_handshake_def exchange_def call_request_def)
qed

subsection \<open>Instances\<close>

text \<open>A codec that writes the values of a list by their positions, and every JSON value as the empty object.\<close>

definition table_codec :: "cbor list \<Rightarrow> wire_codec" where
  "table_codec vs =
     \<lparr>wc_encode = (\<lambda>v. case List.find (\<lambda>i. vs ! i = v) [0..<length vs] of Some i \<Rightarrow> [char_of i] | None \<Rightarrow> []),
      wc_decode = (\<lambda>bs. case bs of [b] \<Rightarrow> if of_char b < length vs then Inr (vs ! of_char b) else Inl ''range'' | _ \<Rightarrow> Inl ''length''),
      wc_utf8 = (\<lambda>_. True), wc_parse_json = (\<lambda>_. Some (JObj [])), wc_print_json = (\<lambda>_. Inr ''{}''),
      wc_cbor_as_json = (\<lambda>_. None)\<rparr>"

lemma table_codec_json [simp]:
  "wc_print_json (table_codec vs) j = Inr ''{}''" "wc_utf8 (table_codec vs) bs" "wc_parse_json (table_codec vs) bs = Some (JObj [])"
  by (simp_all add: table_codec_def)

lemma char_of_one [simp]: "char_of (Suc 0) = CHR 0x01"
  by code_simp

lemma table_codec_carries: "v \<in> set vs \<Longrightarrow> length vs \<le> 256 \<Longrightarrow> carries (table_codec vs) v"
proof -
  assume v: "v \<in> set vs" and len: "length vs \<le> 256"
  from v have "List.find (\<lambda>i. vs ! i = v) [0..<length vs] \<noteq> None" by (auto simp: find_None_iff in_set_conv_nth)
  then obtain i where i: "List.find (\<lambda>i. vs ! i = v) [0..<length vs] = Some i" by blast
  then have "i < length vs" "vs ! i = v" by (auto simp: find_Some_iff)
  with i len show ?thesis by (simp add: carries_def table_codec_def MAX_FRAME_PAYLOAD_def)
qed

definition sample_server :: tcp_server where
  "sample_server = \<lparr>sv_node_id = Some ''n'', sv_handler = Some (\<lambda>k t. JObj [(''result'', JStr (tk_task_id t))]),
     sv_streaming_handler = Some (\<lambda>k t. [Inr \<lparr>ev_status = ''partial'', ev_result = Some (JStr (tk_intent t)), ev_error_code = None,
       ev_error_message = None, ev_tokens_used = Some 3, ev_event = None\<rparr>, Inl ''lost'', Inl ''unread'']),
     sv_discover_lookup = None, sv_concurrency_gate = Some (2, \<lambda>k. True)\<rparr>"

definition sample_client :: "string \<Rightarrow> tcp_client" where
  "sample_client incoming = \<lparr>cl_incoming = incoming, cl_silent = True, cl_broken = False, cl_sent = [], cl_timeout_ms = 10000,
     cl_peer_node_id = None, cl_framing_version = Some FRAMING_VERSION\<rparr>"

definition sample_frame :: "msg_type \<Rightarrow> iicp_frame" where
  "sample_frame t = \<lparr>if_version = FRAMING_VERSION, if_msg_type = msg_byte t, if_flags = CHR 0x00, if_payload = [CHR 0x00]\<rparr>"

theorem session_serves_frames_witness:
  "handle_connection (table_codec [CMap [(CInt 1, CInt 1)]]) sample_server
     [take 5 (bytes_of (sample_frame Init)), drop 5 (bytes_of (sample_frame Init)) @ bytes_of (sample_frame Ping) @ ''II''] =
   serve_frames (table_codec [CMap [(CInt 1, CInt 1)]]) sample_server 0 False [sample_frame Init, sample_frame Ping] \<and>
   length (fst (serve_frames (table_codec [CMap [(CInt 1, CInt 1)]]) sample_server 0 False [sample_frame Init, sample_frame Ping])) = 2"
proof
  have "take 5 (bytes_of (sample_frame Init)) \<noteq> []" "bytes_of (sample_frame Ping) \<noteq> []"
    by (simp_all add: bytes_of_def frame_bytes_def IICP_MAGIC_def)
  then show "handle_connection (table_codec [CMap [(CInt 1, CInt 1)]]) sample_server
     [take 5 (bytes_of (sample_frame Init)), drop 5 (bytes_of (sample_frame Init)) @ bytes_of (sample_frame Ping) @ ''II''] =
   serve_frames (table_codec [CMap [(CInt 1, CInt 1)]]) sample_server 0 False [sample_frame Init, sample_frame Ping]"
    by (intro session_serves_frames [where rest = "''II''"])
      (simp_all add: valid_frame_def sample_frame_def MAX_FRAME_PAYLOAD_def unfinished_def FRAME_HEADER_LEN_def
        flip: append_assoc)
  show "length (fst (serve_frames (table_codec [CMap [(CInt 1, CInt 1)]]) sample_server 0 False
      [sample_frame Init, sample_frame Ping])) = 2"
    by (simp add: sample_frame_def dispatch_frame_def from_u8_def on_init_def on_ping_def table_codec_def encode_ack_def
        encode_pong_def send_frame_carried MAX_FRAME_PAYLOAD_def opt_entry_def sample_server_def
        stable_task_message_type_error_def FRAMING_VERSION_def)
qed

definition sample_request :: cbor where
  "sample_request = stream_request (table_codec []) ''i'' (JObj []) ''t'' ''s'' ''c'' None"

definition sample_events :: "stream_event list" where
  "sample_events = delivered (the (sv_streaming_handler sample_server) 0 \<lparr>tk_task_id = ''t'', tk_intent = ''i'', tk_payload = JObj []\<rparr>)"

lemma sample_events_eq:
  "sample_events = [\<lparr>ev_status = ''partial'', ev_result = Some (JStr ''i''), ev_error_code = None,
     ev_error_message = None, ev_tokens_used = Some 3, ev_event = None\<rparr>,
     failed_event ''backend_error'' ''streaming handler raised exception'']"
  by (simp add: sample_events_def sample_server_def failed_event_def)

definition sample_codec :: wire_codec where
  "sample_codec = table_codec (sample_request # frames_from (lifecycle_body ''s'' ''c'' ''t'') 0 sample_events)"

theorem stream_call_completes_witness:
  "\<exists>out fs. dispatch_frame sample_codec sample_server 0 (call_frame sample_codec sample_request) = (out, Inr True) \<and>
     fst (call_stream sample_codec ''i'' (JObj []) ''t'' ''s'' ''c'' None (sample_client (concat out))) = map Inr fs \<and>
     complete_stream ''s'' ''c'' ''t'' fs \<and> map fr_status fs = [''partial'', ''error'']"
proof -
  obtain out r where d: "dispatch_frame sample_codec sample_server 0 (call_frame sample_codec sample_request) = (out, r)" by fastforce
  have req: "sample_request = stream_request sample_codec ''i'' (JObj []) ''t'' ''s'' ''c'' None"
    unfolding sample_codec_def sample_request_def by (simp add: stream_request_def)
  have pay: "call_payload sample_codec sample_request = JObj []"
    unfolding sample_codec_def sample_request_def by (simp add: call_payload_def stream_request_def)
  have es: "sample_events = answered_events sample_server 0 (the (sv_streaming_handler sample_server) 0
      \<lparr>tk_task_id = ''t'', tk_intent = ''i'', tk_payload = call_payload sample_codec sample_request\<rparr>)"
    by (simp add: pay sample_events_def answered_events_def acquire_slot_def sample_server_def)
  have ev: "list_all event_consistent sample_events"
    by (simp add: sample_events_eq event_consistent_def status_matches_def event_name_def default_event_def failed_event_def)
  let ?fs = "frames_from (event_frame ''s'' ''c'' ''t'') 0 sample_events"
  have car: "list_all (carries sample_codec) (sample_request # frames_from (lifecycle_body ''s'' ''c'' ''t'') 0 sample_events)"
  proof -
    have "length (sample_request # frames_from (lifecycle_body ''s'' ''c'' ''t'') 0 sample_events) \<le> 256"
      by (simp add: sample_events_eq)
    then show ?thesis unfolding sample_codec_def list_all_iff by (blast intro: table_codec_carries)
  qed
  have st: "map fr_status ?fs = [''partial'', ''error'']"
    by (simp add: sample_events_eq event_frame_def failed_event_def)
  have "r = Inr True \<and>
    call_stream sample_codec ''i'' (JObj []) ''t'' ''s'' ''c'' None (sample_client (concat out)) =
      (map Inr ?fs, (sample_client (concat out))\<lparr>cl_sent := cl_sent (sample_client (concat out)) @
        [bytes_of (call_frame sample_codec sample_request)], cl_incoming := []\<rparr>) \<and> complete_stream ''s'' ''c'' ''t'' ?fs"
    by (rule stream_call_completes [where h = "the (sv_streaming_handler sample_server)" and k = 0, OF _ req es car ev _ _ d _ refl]) (simp_all add: sample_server_def sample_client_def)
  with d st show ?thesis by auto
qed

definition sample_call :: cbor where
  "sample_call = call_request ''s'' ''i'' ''{}'' None"

definition sample_call_codec :: wire_codec where
  "sample_call_codec = table_codec [sample_call, CText ''s'', response_body ''s'' None (Some [CHR 0x01]) None None]"

theorem call_returns_answer_witness:
  "\<exists>out r. dispatch_frame sample_call_codec sample_server 0 (call_frame sample_call_codec sample_call) = (out, r) \<and>
     snd (call_with_session sample_call_codec ''i'' (JObj []) None ''s'' (sample_client (concat out))) = Inr (JStr ''s'')"
proof -
  obtain out r where d: "dispatch_frame sample_call_codec sample_server 0 (call_frame sample_call_codec sample_call) = (out, r)" by fastforce
  have a: "Inr (JStr ''s'') = handler_answer (the (sv_handler sample_server) 0
      \<lparr>tk_task_id = unwrap_or None ''s'', tk_intent = ''i'', tk_payload = JObj []\<rparr>)"
    by (simp add: sample_server_def handler_answer_def)
  have car: "carries sample_call_codec sample_call"
    unfolding sample_call_codec_def by (rule table_codec_carries) simp_all
  have ans: "answer_carried sample_call_codec ''s'' None (Inr (JStr ''s''))"
    by (simp add: answer_carried_def answer_body_def sample_call_codec_def carries_def table_codec_def sample_call_def
        call_request_def response_body_def opt_entry_def MAX_FRAME_PAYLOAD_def)
  have "call_with_session sample_call_codec ''i'' (JObj []) None ''s'' (sample_client (concat out)) =
    ((sample_client (concat out))\<lparr>cl_sent := cl_sent (sample_client (concat out)) @ [bytes_of (call_frame sample_call_codec sample_call)],
       cl_incoming := []\<rparr>,
     case Inr (JStr ''s'') of Inl (code, message) \<Rightarrow> Inl (TcpServer code message) | Inr j \<Rightarrow> Inr j)"
    by (rule call_returns_answer [where h = "the (sv_handler sample_server)" and k = 0, OF _ _ _ _ _ sample_call_def car a ans _ _ d])
      (simp_all add: sample_server_def sample_client_def acquire_slot_def sample_call_codec_def table_codec_def)
  with d show ?thesis by simp
qed

end
