(* ===== verification/Relay.thy ===== *)
theory Relay
  imports Wire Tickets
begin

text \<open>
  The relay of last resort: \<^verbatim>\<open>src/relay_session.rs\<close> and the relay handlers of \<^verbatim>\<open>src/node.rs\<close>.  Workers that cannot be
  reached bind an outbound session, over native frames or by HTTP polling; the relay keeps the sessions in a registry, limits
  binds by source, and forwards calls and streams.  A session is an address in a store, as its handles are shared; times of the
  monotonic clock are in nanoseconds.  A bind, from its first look at the registry to the entry it makes, is one step here; what
  goes wrong when two interleave is \<open>bind_race\<close>.
\<close>

subsection \<open>Frames and values\<close>

definition relay_make_frame :: "char \<Rightarrow> string \<Rightarrow> string" where
  "relay_make_frame t payload = ''IICP'' @ [CHR 0x01, t, CHR 0x00, CHR 0x00] @ to_be_bytes (length payload mod 2 ^ 32) @ payload"

definition cbor_encode_int_map :: "wire_codec \<Rightarrow> (int \<times> cbor) list \<Rightarrow> string" where
  "cbor_encode_int_map wc entries = wc_encode wc (CMap (map (\<lambda>(k, v). (CInt k, v)) entries))"

definition cbor_decode_int_map :: "wire_codec \<Rightarrow> string \<Rightarrow> (int, cbor) hmap option" where
  "cbor_decode_int_map wc data =
    (case wc_decode wc data of
       Inr (CMap entries) \<Rightarrow>
         Some (fold (\<lambda>(k, v) out. case k of
             CInt n \<Rightarrow> if - (2 ^ 63) \<le> n \<and> n < 2 ^ 63 then hput n v out else out
           | _ \<Rightarrow> out) entries [])
     | _ \<Rightarrow> None)"

fun cbor_text_or_bytes :: "wire_codec \<Rightarrow> cbor option \<Rightarrow> string option" where
  "cbor_text_or_bytes wc (Some (CText s)) = Some s"
| "cbor_text_or_bytes wc (Some (CBytes b)) = (if wc_utf8 wc b then Some b else None)"
| "cbor_text_or_bytes wc _ = None"

fun cbor_bytes :: "cbor option \<Rightarrow> string option" where
  "cbor_bytes (Some (CBytes b)) = Some b"
| "cbor_bytes (Some (CText s)) = Some s"
| "cbor_bytes _ = None"

text \<open>Reading a frame from the bytes the worker sends; a stream that ends inside one is an error.\<close>

definition relay_read_frame :: "string \<Rightarrow> string + (char \<times> string) \<times> string" where
  "relay_read_frame bs =
    (if length bs < 12 then Inl ''early eof''
     else if take 4 bs \<noteq> ''IICP'' then Inl (''bad magic '' @ show_bytes (take 4 bs))
     else let payload_len = from_be_bytes (take 4 (drop 8 bs)) in
       if payload_len > 16 * 1024 * 1024 then Inl (''payload too large: '' @ show_nat payload_len)
       else if length bs < 12 + payload_len then Inl ''early eof''
       else Inr ((bs ! 5, take payload_len (drop 12 bs)), drop (12 + payload_len) bs))"

subsection \<open>Calls and streams in flight\<close>

definition MAX_RELAY_STREAM_EVENTS :: nat where
  "MAX_RELAY_STREAM_EVENTS = 32"

text \<open>A stream the relay forwards: the entry of the pending map with its sequence check, as long as there is one; the bounded
  channel; the failure the two sides share; and the consumer, with what it has yielded, whether it waits for the channel (after
  the look at the failure that starts a turn of its loop) and whether it has returned.\<close>

record relay_stream =
  st_pending :: "response_sequence option"
  st_queue :: "native_frame list"
  st_failure :: "string option"
  st_waiting :: bool
  st_yielded :: "(string + native_frame) list"
  st_done :: bool

definition new_stream :: "string \<Rightarrow> string \<Rightarrow> string \<Rightarrow> relay_stream" where
  "new_stream session_id call_id task_id =
     \<lparr>st_pending = Some (new_sequence session_id call_id task_id), st_queue = [], st_failure = None, st_waiting = False,
      st_yielded = [], st_done = False\<rparr>"

text \<open>\<^verbatim>\<open>deliver_stream_event\<close>, on the stream of the event's call.\<close>

definition deliver_stream_event :: "native_frame \<Rightarrow> relay_stream \<Rightarrow> relay_stream" where
  "deliver_stream_event event st =
    (case st_pending st of
       None \<Rightarrow> st
     | Some sequence \<Rightarrow>
         (case accept_frame event sequence of
            (_, Inl code) \<Rightarrow> st\<lparr>st_failure := Some code, st_pending := None\<rparr>
          | (sequence', Inr _) \<Rightarrow>
              if length (st_queue st) \<ge> MAX_RELAY_STREAM_EVENTS
              then st\<lparr>st_failure := Some ''relay_backpressure_exceeded'', st_pending := None\<rparr>
              else st\<lparr>st_pending := Some sequence', st_queue := st_queue st @ [event]\<rparr>))"

text \<open>The consumer returns: the guard drops the pending entry.\<close>

definition stream_return :: "relay_stream \<Rightarrow> relay_stream" where
  "stream_return st = st\<lparr>st_done := True, st_pending := None, st_waiting := False\<rparr>"

definition stream_yield :: "string + native_frame \<Rightarrow> relay_stream \<Rightarrow> relay_stream" where
  "stream_yield item st = st\<lparr>st_yielded := st_yielded st @ [item]\<rparr>"

text \<open>The start of a turn of the consumer's loop, then what its wait for the channel gives: an event, the end of a channel whose
  sender is gone, or, as long as neither is there, a timeout.\<close>

definition stream_turn :: "relay_stream \<Rightarrow> relay_stream" where
  "stream_turn st =
    (if st_done st \<or> st_waiting st then st
     else case st_failure st of
       Some reason \<Rightarrow> stream_return (stream_yield (Inl reason) (st\<lparr>st_failure := None\<rparr>))
     | None \<Rightarrow> st\<lparr>st_waiting := True\<rparr>)"

definition stream_recv :: "relay_stream \<Rightarrow> relay_stream" where
  "stream_recv st =
    (if st_done st \<or> \<not> st_waiting st then st
     else case st_queue st of
       event # queue \<Rightarrow>
         let st = stream_yield (Inr event) (st\<lparr>st_queue := queue, st_waiting := False\<rparr>)
         in if fr_is_final event then stream_return st else st
     | [] \<Rightarrow>
         if st_pending st = None
         then stream_return (stream_yield (Inl (unwrap_or (st_failure st) ''relay stream closed before terminal'')) st)
         else st)"

definition stream_expire :: "nat \<Rightarrow> string \<Rightarrow> relay_stream \<Rightarrow> relay_stream" where
  "stream_expire timeout_secs call_id st =
    (if st_done st \<or> \<not> st_waiting st \<or> st_queue st \<noteq> [] \<or> st_pending st = None then st
     else stream_return (stream_yield (Inl (''relay stream timeout ('' @ show_nat timeout_secs @ ''s) for call '' @ call_id)) st))"

text \<open>The calls of one session: those waiting for an answer, the answers handed over, the streams.\<close>

record call_desk =
  dk_pending :: "string list"
  dk_answers :: "(string \<times> json) list"
  dk_streams :: "(string, relay_stream) hmap"

definition new_desk :: call_desk where
  "new_desk = \<lparr>dk_pending = [], dk_answers = [], dk_streams = []\<rparr>"

definition await_call :: "string \<Rightarrow> call_desk \<Rightarrow> call_desk" where
  "await_call call_id d = d\<lparr>dk_pending := List.insert call_id (dk_pending d)\<rparr>"

definition forget_call :: "string \<Rightarrow> call_desk \<Rightarrow> call_desk" where
  "forget_call call_id d = d\<lparr>dk_pending := removeAll call_id (dk_pending d)\<rparr>"

definition on_response :: "string \<Rightarrow> json \<Rightarrow> call_desk \<Rightarrow> call_desk" where
  "on_response call_id result d =
    (if call_id \<in> set (dk_pending d)
     then (forget_call call_id d)\<lparr>dk_answers := dk_answers d @ [(call_id, result)]\<rparr> else d)"

definition on_stream_response :: "string \<Rightarrow> native_frame \<Rightarrow> call_desk \<Rightarrow> call_desk" where
  "on_stream_response call_id event d =
    (case hget (dk_streams d) call_id of
       None \<Rightarrow> d
     | Some st \<Rightarrow> d\<lparr>dk_streams := hput call_id (deliver_stream_event event st) (dk_streams d)\<rparr>)"

subsection \<open>The registry\<close>

text \<open>A native session has the frames given to its writer, and whether the writer still runs; a polling one the calls queued for
  the next poll.\<close>

record tcp_worker =
  tw_worker_id :: string
  tw_open :: bool
  tw_written :: "string list"
  tw_desk :: call_desk

record poll_worker =
  pw_worker_id :: string
  pw_intent :: string
  pw_models :: "string list"
  pw_session_token :: string
  pw_calls :: "json list"
  pw_desk :: call_desk
  pw_last_pull :: nat
  pw_liveness_window :: nat
  pw_closed :: bool

datatype relay_session = Tcp tcp_worker | HttpPoll poll_worker

definition MAX_RELAY_SESSIONS :: nat where
  "MAX_RELAY_SESSIONS = 256"

definition RELAY_BIND_RATE_WINDOW :: nat where
  "RELAY_BIND_RATE_WINDOW = 60 * 10 ^ 9"

text \<open>The registry, the store of sessions its entries point to, and the cache of used bind tickets of the process.\<close>

record relay =
  rl_sessions :: "(string, nat) hmap"
  rl_bind_rate_limit :: u32
  rl_buckets :: "(string, nat \<times> u32) hmap"
  rl_store :: "(nat, relay_session) hmap"
  rl_next :: nat
  rl_used :: "(string, int) hmap"

definition new_relay :: "u32 \<Rightarrow> relay" where
  "new_relay limit = \<lparr>rl_sessions = [], rl_bind_rate_limit = limit, rl_buckets = [], rl_store = [], rl_next = 0, rl_used = []\<rparr>"

fun session_worker :: "relay_session \<Rightarrow> string" where
  "session_worker (Tcp s) = tw_worker_id s"
| "session_worker (HttpPoll s) = pw_worker_id s"

fun session_alive :: "nat \<Rightarrow> relay_session \<Rightarrow> bool" where
  "session_alive now (Tcp s) = tw_open s"
| "session_alive now (HttpPoll s) = (\<not> pw_closed s \<and> now - pw_last_pull s < pw_liveness_window s)"

fun session_models :: "relay_session \<Rightarrow> string list" where
  "session_models (Tcp _) = []"
| "session_models (HttpPoll s) = pw_models s"

definition count_attempt :: "string \<Rightarrow> nat \<Rightarrow> (string, nat \<times> u32) hmap \<Rightarrow> (string, nat \<times> u32) hmap \<times> u32" where
  "count_attempt source now buckets =
    (let entry = unwrap_or (hget buckets source) (now, 0);
         entry = (if now - fst entry \<ge> RELAY_BIND_RATE_WINDOW then (now, 0) else entry);
         entry = (fst entry, snd entry + 1)
     in (hput source entry buckets, snd entry))"

definition allow_bind :: "string \<Rightarrow> bool \<Rightarrow> nat \<Rightarrow> relay \<Rightarrow> relay \<times> bool" where
  "allow_bind source rebind now r =
    (if rebind \<or> rl_bind_rate_limit r = 0 then (r, True)
     else let (buckets, n) = count_attempt source now (rl_buckets r);
              buckets = (if length buckets > 4096
                then hretain (\<lambda>_ (start, _). now - start < RELAY_BIND_RATE_WINDOW) buckets else buckets)
          in (r\<lparr>rl_buckets := buckets\<rparr>, n \<le> rl_bind_rate_limit r))"

definition at_capacity :: "string \<Rightarrow> relay \<Rightarrow> bool" where
  "at_capacity worker_id r \<longleftrightarrow> hget (rl_sessions r) worker_id = None \<and> length (rl_sessions r) \<ge> MAX_RELAY_SESSIONS"

text \<open>\<^verbatim>\<open>get\<close>: the session an entry points to.\<close>

definition relay_get :: "string \<Rightarrow> relay \<Rightarrow> relay_session option" where
  "relay_get worker_id r = Option.bind (hget (rl_sessions r) worker_id) (hget (rl_store r))"

definition bind_session :: "string \<Rightarrow> relay_session \<Rightarrow> relay \<Rightarrow> relay" where
  "bind_session worker_id s r =
     r\<lparr>rl_sessions := hput worker_id (rl_next r) (rl_sessions r), rl_store := hput (rl_next r) s (rl_store r), rl_next := rl_next r + 1\<rparr>"

definition unbind :: "string \<Rightarrow> relay \<Rightarrow> relay" where
  "unbind worker_id r = r\<lparr>rl_sessions := hdel worker_id (rl_sessions r)\<rparr>"

text \<open>\<^verbatim>\<open>unbind_session\<close> compares the shared maps of the two handles by address.\<close>

definition unbind_session :: "string \<Rightarrow> nat \<Rightarrow> relay \<Rightarrow> relay" where
  "unbind_session worker_id session r =
    (case relay_get worker_id r of
       Some (Tcp _) \<Rightarrow> if hget (rl_sessions r) worker_id = Some session then unbind worker_id r else r
     | _ \<Rightarrow> r)"

fun has_token :: "string \<Rightarrow> relay_session \<Rightarrow> bool" where
  "has_token token (HttpPoll s) = (pw_session_token s = token)"
| "has_token token (Tcp _) = False"

definition get_by_token :: "string \<Rightarrow> relay \<Rightarrow> nat option" where
  "get_by_token token r =
    (if token = [] then None
     else List.find (\<lambda>a. case hget (rl_store r) a of Some s \<Rightarrow> has_token token s | None \<Rightarrow> False) (hvals (rl_sessions r)))"

subsection \<open>Binding\<close>

record relay_config =
  rc_codec :: codec
  rc_claims_of :: "string \<Rightarrow> bind_claims option"
  rc_require_bind_ticket :: bool
  rc_bind_ticket_public_key_hex :: "string option"
  rc_relay_node_id :: string
  rc_http_port :: nat

text \<open>A request to bind, with the clock readings the handler makes: the wall clock at verification and consumption, the
  monotonic clock at the test for life and at the rate limit.\<close>

record bind_request =
  br_worker_id :: string
  br_intent :: string
  br_models :: "string list"
  br_ticket :: string
  br_source :: string
  br_token :: string
  br_verified_at :: int
  br_alive_at :: nat
  br_rated_at :: nat
  br_consumed_at :: int
  br_bound_at :: nat

datatype ticket_verdict = Refused string | Verified bind_claims | Unsigned

definition tcp_ticket :: "relay_config \<Rightarrow> bind_request \<Rightarrow> ticket_verdict" where
  "tcp_ticket cfg q =
    (if br_ticket q \<noteq> [] then
       (case rc_bind_ticket_public_key_hex cfg of
          Some key \<Rightarrow>
            (case verify_relay_bind_ticket (rc_codec cfg) (rc_claims_of cfg) (br_ticket q) key (br_worker_id q) (rc_relay_node_id cfg)
                (br_verified_at q) of
               None \<Rightarrow> Refused ''relay bind ticket invalid''
             | Some claims \<Rightarrow> Verified claims)
        | None \<Rightarrow> Unsigned)
     else if rc_require_bind_ticket cfg then Refused ''relay bind ticket required''
     else Unsigned)"

definition http_ticket :: "relay_config \<Rightarrow> bind_request \<Rightarrow> ticket_verdict" where
  "http_ticket cfg q =
    (let key = unwrap_or (rc_bind_ticket_public_key_hex cfg) [] in
     if br_ticket q \<noteq> [] \<and> key \<noteq> [] then
       (case verify_relay_bind_ticket (rc_codec cfg) (rc_claims_of cfg) (br_ticket q) key (br_worker_id q) (rc_relay_node_id cfg)
           (br_verified_at q) of
          None \<Rightarrow> Refused ''relay bind ticket invalid''
        | Some claims \<Rightarrow> Verified claims)
     else if rc_require_bind_ticket cfg then Refused ''relay bind ticket required''
     else Unsigned)"

text \<open>The checks both transports make in this order once the ticket is judged: a living session, the rate, the capacity, the
  ticket's single use.  The reasons are those of the native transport; the HTTP handler has its own wording.\<close>

definition bind_checks :: "ticket_verdict \<Rightarrow> bind_request \<Rightarrow> relay \<Rightarrow> relay \<times> (string + unit)" where
  "bind_checks verdict q r =
    (case verdict of Refused reason \<Rightarrow> (r, Inl reason) | _ \<Rightarrow>
     if (case relay_get (br_worker_id q) r of Some s \<Rightarrow> session_alive (br_alive_at q) s | None \<Rightarrow> False)
     then (r, Inl ''worker_id already bound to an alive session'')
     else case allow_bind (br_source q) (relay_get (br_worker_id q) r \<noteq> None) (br_rated_at q) r of
       (r, False) \<Rightarrow> (r, Inl ''relay_bind_rate_limited'')
     | (r, True) \<Rightarrow>
       if at_capacity (br_worker_id q) r then (r, Inl ''relay at session capacity'')
       else case verdict of
         Verified claims \<Rightarrow>
           (case consume_relay_bind_ticket claims (br_consumed_at q) (rl_used r) of
              (used, False) \<Rightarrow> (r\<lparr>rl_used := used\<rparr>, Inl ''relay bind ticket replayed'')
            | (used, True) \<Rightarrow> (r\<lparr>rl_used := used\<rparr>, Inr ()))
       | _ \<Rightarrow> (r, Inr ()))"

definition tcp_session :: "bind_request \<Rightarrow> relay_session" where
  "tcp_session q = Tcp \<lparr>tw_worker_id = br_worker_id q, tw_open = True, tw_written = [], tw_desk = new_desk\<rparr>"

definition http_session :: "bind_request \<Rightarrow> relay_session" where
  "http_session q = HttpPoll \<lparr>pw_worker_id = br_worker_id q, pw_intent = br_intent q, pw_models = br_models q,
     pw_session_token = br_token q, pw_calls = [], pw_desk = new_desk, pw_last_pull = br_bound_at q, pw_liveness_window = 90 * 10 ^ 9, pw_closed = False\<rparr>"

definition relay_bind :: "ticket_verdict \<Rightarrow> relay_session \<Rightarrow> bind_request \<Rightarrow> relay \<Rightarrow> relay \<times> (string + nat)" where
  "relay_bind verdict s q r =
    (case bind_checks verdict q r of
       (r, Inl reason) \<Rightarrow> (r, Inl reason)
     | (r, Inr _) \<Rightarrow> (bind_session (br_worker_id q) s r, Inr (rl_next r)))"

subsection \<open>The native connection\<close>

text \<open>What a worker's connection sends before the registry is asked: the first frame must be \<^verbatim>\<open>INIT\<close>, the second \<^verbatim>\<open>RELAY_BIND\<close>.  The
  result is what was written, and the error or the identifiers of the request with the bytes after it.\<close>

definition read_bind :: "wire_codec \<Rightarrow> string \<Rightarrow> string list \<times> (string + (string \<times> string \<times> string) \<times> string)" where
  "read_bind wc bs =
    (case relay_read_frame bs of Inl e \<Rightarrow> ([], Inl e) | Inr ((mt, _), bs) \<Rightarrow>
     if mt \<noteq> CHR 0x01 then ([], Inl (''expected INIT, got 0x'' @ hex_of_byte mt))
     else let ack = [relay_make_frame (CHR 0x02) (cbor_encode_int_map wc [(1, CInt 1)])] in
     case relay_read_frame bs of Inl e \<Rightarrow> (ack, Inl e) | Inr ((mt, payload), bs) \<Rightarrow>
     if mt \<noteq> CHR 0x0B then (ack, Inl (''expected RELAY_BIND, got 0x'' @ hex_of_byte mt))
     else case cbor_decode_int_map wc payload of None \<Rightarrow> (ack, Inl ''RELAY_BIND decode failed'') | Some body \<Rightarrow>
     let text = (\<lambda>k. unwrap_or (cbor_text_or_bytes wc (hget body k)) [])
     in if text 1 = [] then (ack, Inl ''RELAY_BIND missing worker_id'') else (ack, Inr ((text 1, text 2, text 4), bs)))"

definition nack :: "wire_codec \<Rightarrow> string \<Rightarrow> string \<Rightarrow> string" where
  "nack wc worker_id reason =
     relay_make_frame (CHR 0x0C) (cbor_encode_int_map wc [(1, CText ''error''), (2, CText worker_id), (3, CText reason)])"

text \<open>The connection up to its frame loop; the clock readings and the source address come in \<open>q\<close>, the identifiers from the wire.
  The result is the relay, what was written, and the error, or the address of the session bound and the bytes that follow, or
  nothing where the request was refused.\<close>

definition accept_worker ::
  "wire_codec \<Rightarrow> relay_config \<Rightarrow> bind_request \<Rightarrow> string \<Rightarrow> relay \<Rightarrow> relay \<times> string list \<times> (string + (nat \<times> string) option)" where
  "accept_worker wc cfg q0 bs r =
    (case read_bind wc bs of
       (out, Inl e) \<Rightarrow> (r, out, Inl e)
     | (out, Inr ((worker_id, intent, ticket), bs)) \<Rightarrow>
         let q = q0\<lparr>br_worker_id := worker_id, br_intent := intent, br_ticket := ticket\<rparr> in
         (case relay_bind (tcp_ticket cfg q) (tcp_session q) q r of
            (r, Inl reason) \<Rightarrow> (r, out @ [nack wc worker_id reason], Inr None)
          | (r, Inr session) \<Rightarrow>
              (r, out @ [relay_make_frame (CHR 0x0C) (cbor_encode_int_map wc
                  [(1, CText ''ok''), (2, CText worker_id), (4, CInt (int (rc_http_port cfg)))])], Inr (Some (session, bs)))))"

text \<open>What the loop does with a frame of the worker.\<close>

datatype worker_action = SendPong string | StreamResponse string native_frame | CallResponse string json | EndSession | Ignore

definition worker_frame :: "wire_codec \<Rightarrow> char \<Rightarrow> string \<Rightarrow> worker_action" where
  "worker_frame wc mt payload =
    (if mt = CHR 0x09 then
       SendPong (unwrap_or (Option.bind (cbor_decode_int_map wc payload) (\<lambda>b. cbor_bytes (hget b 1))) [])
     else if mt = CHR 0x06 then
       (case (case wc_decode wc payload of Inl _ \<Rightarrow> Inl (TcpProtocol []) | Inr body \<Rightarrow> decode_lifecycle_response body) of
          Inr event \<Rightarrow> StreamResponse (fr_call_id event) event
        | Inl _ \<Rightarrow>
            (case cbor_decode_int_map wc payload of
               None \<Rightarrow> Ignore
             | Some body \<Rightarrow>
                 let call_id = unwrap_or (cbor_text_or_bytes wc (hget body 15)) [];
                     result = (case cbor_bytes (hget body 5) of
                       Some bytes \<Rightarrow> unwrap_or (if wc_utf8 wc bytes then wc_parse_json wc bytes else None) JNull | None \<Rightarrow> JNull)
                 in if call_id = [] then Ignore else CallResponse call_id result))
     else if mt = CHR 0x07 then EndSession
     else Ignore)"

definition worker_acts :: "wire_codec \<Rightarrow> worker_action \<Rightarrow> tcp_worker \<Rightarrow> tcp_worker" where
  "worker_acts wc a w =
    (case a of
       SendPong echo \<Rightarrow> w\<lparr>tw_written := tw_written w @ [relay_make_frame (CHR 0x0A) (cbor_encode_int_map wc [(1, CBytes echo)])]\<rparr>
     | StreamResponse call_id event \<Rightarrow> w\<lparr>tw_desk := on_stream_response call_id event (tw_desk w)\<rparr>
     | CallResponse call_id result \<Rightarrow> w\<lparr>tw_desk := on_response call_id result (tw_desk w)\<rparr>
     | _ \<Rightarrow> w)"

lemma relay_read_frame_less: "relay_read_frame bs = Inr (f, bs') \<Longrightarrow> length bs' < length bs"
  by (auto simp: relay_read_frame_def Let_def split: if_splits)

text \<open>\<^verbatim>\<open>relay_worker_loop\<close>; a pong that finds the writer gone ends it.\<close>

function relay_worker_loop :: "wire_codec \<Rightarrow> string \<Rightarrow> tcp_worker \<Rightarrow> tcp_worker \<times> (string + unit)" where
  "relay_worker_loop wc bs w =
    (case relay_read_frame bs of
       Inl _ \<Rightarrow> (w, Inr ())
     | Inr ((mt, payload), bs') \<Rightarrow>
         (case worker_frame wc mt payload of
            EndSession \<Rightarrow> (w, Inr ())
          | SendPong echo \<Rightarrow>
              if \<not> tw_open w then (w, Inl ''relay write channel closed'')
              else relay_worker_loop wc bs' (worker_acts wc (SendPong echo) w)
          | a \<Rightarrow> relay_worker_loop wc bs' (worker_acts wc a w)))"
  by pat_completeness auto

termination
  by (relation "measure (\<lambda>(_, bs, _). length bs)") (auto dest!: relay_read_frame_less [rotated] relay_read_frame_less)

declare relay_worker_loop.simps [simp del]

subsection \<open>Forwarding\<close>

definition task_member :: "json \<Rightarrow> string \<Rightarrow> string \<Rightarrow> string" where
  "task_member task key call_id = unwrap_or (get_str task key) call_id"

definition printed_task :: "wire_codec \<Rightarrow> json \<Rightarrow> string" where
  "printed_task wc task = (case wc_print_json wc task of Inl _ \<Rightarrow> [] | Inr s \<Rightarrow> s)"

text \<open>\<^verbatim>\<open>forward_task\<close> up to its wait, with the identifier of the call as an argument; then its timeout.\<close>

fun forward_task :: "wire_codec \<Rightarrow> string \<Rightarrow> json \<Rightarrow> relay_session \<Rightarrow> relay_session \<times> (string + unit)" where
  "forward_task wc call_id task (Tcp w) =
    (if tw_open w
     then (Tcp (w\<lparr>tw_written := tw_written w @ [relay_make_frame (CHR 0x05) (cbor_encode_int_map wc
             [(15, CText call_id), (5, CBytes (printed_task wc task))])], tw_desk := await_call call_id (tw_desk w)\<rparr>), Inr ())
     else (Tcp (w\<lparr>tw_desk := forget_call call_id (await_call call_id (tw_desk w))\<rparr>), Inl ''relay session write channel closed''))"
| "forward_task wc call_id task (HttpPoll w) =
    (HttpPoll (w\<lparr>pw_calls := pw_calls w @ [JObj [(''call_id'', JStr call_id), (''task'', task)]],
       pw_desk := await_call call_id (pw_desk w)\<rparr>), Inr ())"

definition forward_timeout :: "nat \<Rightarrow> string \<Rightarrow> call_desk \<Rightarrow> call_desk \<times> string" where
  "forward_timeout timeout_secs call_id d =
     (forget_call call_id d, ''relay forward timeout ('' @ show_nat timeout_secs @ ''s) for call '' @ call_id)"

text \<open>\<^verbatim>\<open>forward_stream\<close>: the stream it registers and the request it sends; a failed send is the only item of the stream.\<close>

definition register_stream :: "string \<Rightarrow> relay_stream \<Rightarrow> call_desk \<Rightarrow> call_desk" where
  "register_stream call_id st d = d\<lparr>dk_streams := hput call_id st (dk_streams d)\<rparr>"

fun forward_stream :: "wire_codec \<Rightarrow> string \<Rightarrow> json \<Rightarrow> relay_session \<Rightarrow> relay_session" where
  "forward_stream wc call_id task (Tcp w) =
    (let task_id = task_member task ''task_id'' call_id; session_id = task_member task ''session_id'' call_id;
         st = new_stream session_id call_id task_id
     in if tw_open w
        then Tcp (w\<lparr>tw_written := tw_written w @ [relay_make_frame (CHR 0x05) (cbor_encode_int_map wc
               [(2, CText session_id), (15, CText call_id), (24, CText task_id), (5, CBytes (printed_task wc task))])],
               tw_desk := register_stream call_id st (tw_desk w)\<rparr>)
        else Tcp (w\<lparr>tw_desk := register_stream call_id
               (stream_return (stream_yield (Inl ''relay session write channel closed'') st)) (tw_desk w)\<rparr>))"
| "forward_stream wc call_id task (HttpPoll w) =
    (let task_id = task_member task ''task_id'' call_id; session_id = task_member task ''session_id'' call_id
     in HttpPoll (w\<lparr>pw_calls := pw_calls w @ [JObj [(''call_id'', JStr call_id), (''session_id'', JStr session_id), (''stream'', JBool True),
            (''task'', task), (''task_id'', JStr task_id)]],
          pw_desk := register_stream call_id (new_stream session_id call_id task_id) (pw_desk w)\<rparr>))"

subsection \<open>The HTTP handlers\<close>

text \<open>A response is its status and body, \<^verbatim>\<open>Null\<close> for an empty one; the cross-origin headers are the same on every response and
  left out.\<close>

type_synonym relay_reply = "nat \<times> json"

definition relay_error :: "nat \<Rightarrow> string \<Rightarrow> string \<Rightarrow> relay_reply" where
  "relay_error status code message = (status, JObj [(''error'', JObj [(''code'', JStr code), (''message'', JStr message)])])"

definition EM_DASH :: string where
  "EM_DASH = [CHR 0xE2, CHR 0x80, CHR 0x94]"

definition bind_refusal :: "string \<Rightarrow> relay_reply" where
  "bind_refusal reason =
    (if reason \<in> set [''relay bind ticket invalid'', ''relay bind ticket required''] then relay_error 401 ''IICP-E040'' reason
     else if reason = ''worker_id already bound to an alive session''
     then relay_error 409 ''IICP-E038'' (''worker_id has an alive relay session '' @ EM_DASH @ '' rebind rejected'')
     else if reason = ''relay_bind_rate_limited''
     then (429, JObj [(''error'', JObj [(''code'', JStr ''IICP-E039''), (''message'', JStr ''relay bind rate limit exceeded''),
            (''reason'', JStr ''relay_bind_rate_limited'')])])
     else if reason = ''relay at session capacity''
     then relay_error 503 ''IICP-E039'' (''relay at session capacity '' @ EM_DASH @ '' try another relay'')
     else relay_error 409 ''IICP-E040'' reason)"

definition string_members :: "json option \<Rightarrow> string list" where
  "string_members v = (case Option.bind v as_array of Some xs \<Rightarrow> List.map_filter as_str xs | None \<Rightarrow> [])"

definition bind_request_of :: "json \<Rightarrow> bind_request \<Rightarrow> bind_request" where
  "bind_request_of payload q0 =
    (let worker_id = unwrap_or (get_str payload ''worker_id'') [] in
     q0\<lparr>br_worker_id := worker_id, br_source := ''worker:'' @ worker_id, br_ticket := unwrap_or (get_str payload ''bind_ticket'') [],
        br_intent := unwrap_or (get_str payload ''intent'') [], br_models := string_members (json_get payload ''models'')\<rparr>)"

text \<open>\<^verbatim>\<open>relay_bind_endpoint\<close>; the clock readings and the random token of the session come in \<open>q0\<close>.\<close>

definition relay_bind_endpoint :: "relay_config \<Rightarrow> bind_request \<Rightarrow> json \<Rightarrow> relay \<Rightarrow> relay \<times> relay_reply" where
  "relay_bind_endpoint cfg q0 payload r =
    (let q = bind_request_of payload q0 in
     if br_worker_id q = [] then (r, relay_error 422 ''IICP-E001'' ''worker_id is required'')
     else case relay_bind (http_ticket cfg q) (http_session q) q r of
       (r, Inl reason) \<Rightarrow> (r, bind_refusal reason)
     | (r, Inr _) \<Rightarrow>
         (r, 200, JObj [(''poll_timeout_s'', JPos 25), (''session_token'', JStr (br_token q)),
            (''worker_endpoint_path'', JStr (''/v1/relay-for/'' @ br_worker_id q))]))"

definition relay_authed_session :: "string option \<Rightarrow> relay \<Rightarrow> nat option" where
  "relay_authed_session authorization r =
    (let auth = unwrap_or authorization [];
         token = (if starts_with auth ''Bearer '' then drop 7 auth else [])
     in get_by_token token r)"

definition change_poll :: "nat \<Rightarrow> (poll_worker \<Rightarrow> poll_worker) \<Rightarrow> relay \<Rightarrow> relay" where
  "change_poll a f r =
    (case hget (rl_store r) a of
       Some (HttpPoll w) \<Rightarrow> r\<lparr>rl_store := hput a (HttpPoll (f w)) (rl_store r)\<rparr>
     | _ \<Rightarrow> r)"

definition unauthorized :: relay_reply where
  "unauthorized = relay_error 401 ''IICP-E021'' ''invalid or missing relay session token''"

text \<open>A poll begins, marking the worker alive, and ends with the next call or, once its window has passed, without one.\<close>

definition begin_pull :: "string option \<Rightarrow> nat \<Rightarrow> relay \<Rightarrow> relay \<times> (relay_reply + nat)" where
  "begin_pull authorization now r =
    (case relay_authed_session authorization r of
       None \<Rightarrow> (r, Inl unauthorized)
     | Some a \<Rightarrow> (change_poll a (\<lambda>w. w\<lparr>pw_last_pull := now\<rparr>) r, Inr a))"

definition end_pull :: "nat \<Rightarrow> nat \<Rightarrow> relay \<Rightarrow> relay \<times> relay_reply" where
  "end_pull a now r =
    (case hget (rl_store r) a of
       Some (HttpPoll w) \<Rightarrow>
         (change_poll a (\<lambda>w. w\<lparr>pw_last_pull := now, pw_calls := tl (pw_calls w)\<rparr>) r,
          case pw_calls w of [] \<Rightarrow> (204, JNull) | call # _ \<Rightarrow> (200, call))
     | _ \<Rightarrow> (r, 204, JNull))"

definition is_object :: "json option \<Rightarrow> bool" where
  "is_object v \<longleftrightarrow> Option.bind v as_object \<noteq> None"

text \<open>\<^verbatim>\<open>relay_result_endpoint\<close>; the derived deserializer of a lifecycle event is the argument \<open>event_of\<close>.\<close>

definition relay_result_endpoint ::
  "(json \<Rightarrow> native_frame option) \<Rightarrow> string option \<Rightarrow> json \<Rightarrow> relay \<Rightarrow> relay \<times> relay_reply" where
  "relay_result_endpoint event_of authorization payload r =
    (case relay_authed_session authorization r of None \<Rightarrow> (r, unauthorized) | Some a \<Rightarrow>
     let call_id = unwrap_or (get_str payload ''call_id'') [];
         result = json_get payload ''result''; event = json_get payload ''event''
     in if call_id = [] \<or> (\<not> is_object result \<and> \<not> is_object event)
        then (r, relay_error 422 ''IICP-E001'' ''call_id and result are required'')
        else case event of
          Some v \<Rightarrow>
            (case event_of v of
               None \<Rightarrow> (r, relay_error 422 ''IICP-E001'' ''invalid lifecycle event'')
             | Some e \<Rightarrow> (change_poll a (\<lambda>w. w\<lparr>pw_desk := on_stream_response call_id e (pw_desk w)\<rparr>) r, 204, JNull))
        | None \<Rightarrow> (change_poll a (\<lambda>w. w\<lparr>pw_desk := on_response call_id (the result) (pw_desk w)\<rparr>) r, 204, JNull))"

definition relay_unbind_endpoint :: "string option \<Rightarrow> relay \<Rightarrow> relay \<times> relay_reply" where
  "relay_unbind_endpoint authorization r =
    (case relay_authed_session authorization r of
       None \<Rightarrow> (r, unauthorized)
     | Some a \<Rightarrow>
         (case hget (rl_store r) a of
            Some s \<Rightarrow> (unbind (session_worker s) (change_poll a (\<lambda>w. w\<lparr>pw_closed := True\<rparr>) r), 204, JNull)
          | None \<Rightarrow> (r, 204, JNull)))"

text \<open>The handlers a consumer reaches a worker by: the session to forward to, and the reply once the worker answered.\<close>

definition alive_session :: "string \<Rightarrow> nat \<Rightarrow> relay \<Rightarrow> relay_reply + relay_session" where
  "alive_session wid now r =
    (case relay_get wid r of
       Some s \<Rightarrow> if session_alive now s then Inr s else Inl (relay_error 404 ''IICP-E030'' ''no alive relay session for this worker'')
     | None \<Rightarrow> Inl (relay_error 404 ''IICP-E030'' ''no alive relay session for this worker''))"

definition relay_for_task_reply :: "json \<Rightarrow> string + json \<Rightarrow> relay_reply" where
  "relay_for_task_reply task outcome =
    (case outcome of
       Inl e \<Rightarrow> relay_error 502 ''IICP-E031'' (''relay session forward failed: '' @ e)
     | Inr result \<Rightarrow>
         let body = [(''status'', JStr ''completed''), (''task_id'', JStr (unwrap_or (get_str task ''task_id'') []))]
         in (200, JObj (case as_object result of Some ms \<Rightarrow> fold (\<lambda>(k, v) obj. obj_insert k v obj) ms body | None \<Rightarrow> body)))"

definition relay_for_health_endpoint :: "string \<Rightarrow> nat \<Rightarrow> relay \<Rightarrow> relay_reply" where
  "relay_for_health_endpoint wid now r =
    (case alive_session wid now r of
       Inl e \<Rightarrow> e
     | Inr s \<Rightarrow> (200, JObj [(''models'', JArr (map JStr (session_models s))), (''node_id'', JStr wid), (''status'', JStr ''ok''),
         (''via_relay'', JBool True)]))"

subsection \<open>Runs of a relay\<close>

text \<open>The steps: a connection binds or is refused, a writer finds its socket dead, a connection's loop ends, and the requests of
  polling workers.\<close>

datatype relay_event =
    NativeBind bind_request string
  | WriterGone nat
  | LoopEnded string nat
  | PollBind bind_request json
  | PollBegins "string option" nat
  | PollEnds nat nat
  | PollUnbinds "string option"

definition writer_gone :: "nat \<Rightarrow> relay \<Rightarrow> relay" where
  "writer_gone a r =
    (case hget (rl_store r) a of
       Some (Tcp w) \<Rightarrow> r\<lparr>rl_store := hput a (Tcp (w\<lparr>tw_open := False\<rparr>)) (rl_store r)\<rparr>
     | _ \<Rightarrow> r)"

fun relay_step :: "wire_codec \<Rightarrow> relay_config \<Rightarrow> relay_event \<Rightarrow> relay \<Rightarrow> relay" where
  "relay_step wc cfg (NativeBind q bs) r = fst (accept_worker wc cfg q bs r)"
| "relay_step wc cfg (WriterGone a) r = writer_gone a r"
| "relay_step wc cfg (LoopEnded w a) r = unbind_session w a r"
| "relay_step wc cfg (PollBind q payload) r = fst (relay_bind_endpoint cfg q payload r)"
| "relay_step wc cfg (PollBegins auth now) r = fst (begin_pull auth now r)"
| "relay_step wc cfg (PollEnds a now) r = fst (end_pull a now r)"
| "relay_step wc cfg (PollUnbinds auth) r = fst (relay_unbind_endpoint auth r)"

subsection \<open>The registry stays in order\<close>

definition relay_wf :: "relay \<Rightarrow> bool" where
  "relay_wf r \<longleftrightarrow> hwf (rl_sessions r) \<and> length (rl_sessions r) \<le> MAX_RELAY_SESSIONS \<and>
     (\<forall>w a. hget (rl_sessions r) w = Some a \<longrightarrow> (\<exists>s. hget (rl_store r) a = Some s \<and> session_worker s = w)) \<and>
     (\<forall>a s. hget (rl_store r) a = Some s \<longrightarrow> a < rl_next r)"

lemma relay_wfD:
  assumes "relay_wf r"
  shows "hwf (rl_sessions r)" "length (rl_sessions r) \<le> MAX_RELAY_SESSIONS"
    "hget (rl_sessions r) w = Some a \<Longrightarrow> \<exists>s. hget (rl_store r) a = Some s \<and> session_worker s = w"
    "hget (rl_store r) a = Some s \<Longrightarrow> a < rl_next r"
  using assms unfolding relay_wf_def by blast+

text \<open>What two relays agree on that differ in rate buckets and used tickets only.\<close>

definition same_sessions :: "relay \<Rightarrow> relay \<Rightarrow> bool" where
  "same_sessions r r' \<longleftrightarrow> rl_sessions r' = rl_sessions r \<and> rl_store r' = rl_store r \<and> rl_next r' = rl_next r"

lemma same_sessions_wf: "same_sessions r r' \<Longrightarrow> relay_wf r' = relay_wf r"
  by (simp add: same_sessions_def relay_wf_def)

lemma same_sessions_get: "same_sessions r r' \<Longrightarrow> relay_get w r' = relay_get w r"
  by (simp add: same_sessions_def relay_get_def)

lemma allow_bind_same: "same_sessions r (fst (allow_bind source rebind now r))"
  by (simp add: same_sessions_def allow_bind_def Let_def split: prod.split)

lemma bind_checks_same: "same_sessions r (fst (bind_checks v q r))"
proof -
  obtain r1 ok where a: "allow_bind (br_source q) (relay_get (br_worker_id q) r \<noteq> None) (br_rated_at q) r = (r1, ok)" by fastforce
  then have "same_sessions r r1" using allow_bind_same by (metis fst_conv)
  then show ?thesis unfolding bind_checks_def a
    by (cases v; cases ok) (auto simp: same_sessions_def split: bool.split prod.split)
qed

lemma bind_checks_passed:
  assumes "bind_checks v q r = (r', Inr u)"
  shows "(\<forall>s. relay_get (br_worker_id q) r = Some s \<longrightarrow> \<not> session_alive (br_alive_at q) s) \<and>
    (hget (rl_sessions r) (br_worker_id q) = None \<longrightarrow> length (rl_sessions r) < MAX_RELAY_SESSIONS)"
proof -
  obtain r1 ok where a: "allow_bind (br_source q) (relay_get (br_worker_id q) r \<noteq> None) (br_rated_at q) r = (r1, ok)" by fastforce
  then have "rl_sessions r1 = rl_sessions r" using allow_bind_same unfolding same_sessions_def by (metis fst_conv)
  then show ?thesis using assms unfolding bind_checks_def a
    by (cases v; cases ok) (auto simp: at_capacity_def split: if_splits option.splits)
qed

lemma bind_session_wf:
  assumes wf: "relay_wf r" and room: "hget (rl_sessions r) w = None \<longrightarrow> length (rl_sessions r) < MAX_RELAY_SESSIONS"
    and "session_worker s = w"
  shows "relay_wf (bind_session w s r)"
proof -
  have old: "a \<noteq> rl_next r" if "hget (rl_store r) a = Some s'" for a s' using relay_wfD(4) [OF wf that] by simp
  have len: "length (hput w (rl_next r) (rl_sessions r)) \<le> MAX_RELAY_SESSIONS"
    using room relay_wfD(2) [OF wf] by (cases "hget (rl_sessions r) w") (simp_all add: length_hput Suc_le_eq)
  have entries: "\<exists>s'. hget (hput (rl_next r) s (rl_store r)) a = Some s' \<and> session_worker s' = v"
    if "hget (hput w (rl_next r) (rl_sessions r)) v = Some a" for v a
  proof (cases "v = w")
    case True
    with that assms(3) show ?thesis by (simp add: update_conv')
  next
    case False
    with that have "hget (rl_sessions r) v = Some a" by (simp add: update_conv')
    from relay_wfD(3) [OF wf this] obtain s' where "hget (rl_store r) a = Some s'" "session_worker s' = v" by blast
    with old show ?thesis by (simp add: update_conv')
  qed
  have addresses: "a < rl_next r + 1" if "hget (hput (rl_next r) s (rl_store r)) a = Some s'" for a s'
    using that relay_wfD(4) [OF wf, of a s'] by (cases "a = rl_next r") (simp_all add: update_conv')
  show ?thesis
    unfolding relay_wf_def bind_session_def using relay_wfD(1) [OF wf] len entries addresses by simp
qed

lemma relay_bind_wf:
  assumes "relay_wf r" and "session_worker s = br_worker_id q"
  shows "relay_wf (fst (relay_bind v s q r))"
proof -
  obtain r1 x where c: "bind_checks v q r = (r1, x)" by fastforce
  then have same: "same_sessions r r1" using bind_checks_same by (metis fst_conv)
  have wf1: "relay_wf r1" using same_sessions_wf [OF same] assms(1) by simp
  show ?thesis
  proof (cases x)
    case (Inl e)
    with c wf1 show ?thesis by (simp add: relay_bind_def)
  next
    case (Inr u)
    have eq: "fst (relay_bind v s q r) = bind_session (br_worker_id q) s r1" using c Inr by (simp add: relay_bind_def)
    have room: "hget (rl_sessions r1) (br_worker_id q) = None \<longrightarrow> length (rl_sessions r1) < MAX_RELAY_SESSIONS"
      using bind_checks_passed [of v q r r1 u] c Inr same by (simp add: same_sessions_def)
    show ?thesis unfolding eq by (rule bind_session_wf [OF wf1 room assms(2)])
  qed
qed

lemma unbind_wf: "relay_wf r \<Longrightarrow> relay_wf (unbind w r)"
  unfolding relay_wf_def unbind_def
  by (auto simp: delete_conv' intro: order_trans [OF length_hdel_le] split: if_splits)

text \<open>A session that changes keeps its worker.\<close>

lemma store_change_wf:
  assumes "relay_wf r" and "hget (rl_store r) a = Some s" and "session_worker s' = session_worker s"
  shows "relay_wf (r\<lparr>rl_store := hput a s' (rl_store r)\<rparr>)"
  using assms unfolding relay_wf_def by (auto simp: update_conv' split: if_splits) (metis option.inject)+

lemma change_poll_wf:
  assumes "relay_wf r" and "\<And>w. pw_worker_id (f w) = pw_worker_id w"
  shows "relay_wf (change_poll a f r)"
  using assms by (auto simp: change_poll_def intro: store_change_wf split: option.split relay_session.split)

text \<open>Both handlers leave the relay alone or try one bind.\<close>

lemma accept_worker_binds:
  "fst (accept_worker wc cfg q bs r) = r \<or>
     (\<exists>q'. fst (accept_worker wc cfg q bs r) = fst (relay_bind (tcp_ticket cfg q') (tcp_session q') q' r))"
proof (cases "read_bind wc bs")
  case (Pair out x)
  show ?thesis
  proof (cases x)
    case (Inl e)
    with Pair show ?thesis by (simp add: accept_worker_def)
  next
    case (Inr y)
    obtain w i t bs' where y: "y = ((w, i, t), bs')" by (cases y) auto
    let ?q = "q\<lparr>br_worker_id := w, br_intent := i, br_ticket := t\<rparr>"
    have "fst (accept_worker wc cfg q bs r) = fst (relay_bind (tcp_ticket cfg ?q) (tcp_session ?q) ?q r)"
      by (simp add: accept_worker_def Pair Inr y Let_def split: prod.split sum.split)
    then show ?thesis by blast
  qed
qed

lemma relay_bind_endpoint_binds:
  "fst (relay_bind_endpoint cfg q payload r) = r \<or>
     (\<exists>q'. fst (relay_bind_endpoint cfg q payload r) = fst (relay_bind (http_ticket cfg q') (http_session q') q' r))"
proof (cases "br_worker_id (bind_request_of payload q) = []")
  case False
  let ?q = "bind_request_of payload q"
  have "fst (relay_bind_endpoint cfg q payload r) = fst (relay_bind (http_ticket cfg ?q) (http_session ?q) ?q r)"
    using False by (simp add: relay_bind_endpoint_def Let_def split: prod.split sum.split)
  then show ?thesis by blast
qed (simp add: relay_bind_endpoint_def)

lemma relay_step_wf: "relay_wf r \<Longrightarrow> relay_wf (relay_step wc cfg e r)"
proof (induction e)
  case (NativeBind q bs)
  have "relay_wf (fst (relay_bind v (tcp_session q') q' r))" for v q'
    by (rule relay_bind_wf [OF NativeBind]) (simp add: tcp_session_def)
  with accept_worker_binds [of wc cfg q bs r] NativeBind show ?case
    unfolding relay_step.simps by (elim disjE exE) simp_all
next
  case (PollBind q payload)
  have "relay_wf (fst (relay_bind v (http_session q') q' r))" for v q'
    by (rule relay_bind_wf [OF PollBind]) (simp add: http_session_def)
  with relay_bind_endpoint_binds [of cfg q payload r] PollBind show ?case
    unfolding relay_step.simps by (elim disjE exE) simp_all
next
  case (WriterGone a)
  show ?case
  proof (cases "\<exists>w. hget (rl_store r) a = Some (Tcp w)")
    case True
    then obtain w where "hget (rl_store r) a = Some (Tcp w)" by blast
    with WriterGone store_change_wf [OF WriterGone this, of "Tcp (w\<lparr>tw_open := False\<rparr>)"] show ?thesis
      by (simp add: writer_gone_def)
  next
    case False
    with WriterGone show ?thesis by (auto simp: writer_gone_def split: option.split relay_session.split)
  qed
next
  case (LoopEnded w a)
  then have "unbind_session w a r = r \<or> unbind_session w a r = unbind w r"
    by (simp add: unbind_session_def split: option.split relay_session.split)
  with LoopEnded unbind_wf [of r w] show ?case by auto
next
  case (PollBegins auth now)
  then show ?case by (simp add: begin_pull_def change_poll_wf split: option.split)
next
  case (PollEnds a now)
  then show ?case by (simp add: end_pull_def change_poll_wf split: option.split relay_session.split)
next
  case (PollUnbinds auth)
  then show ?case by (simp add: relay_unbind_endpoint_def change_poll_wf unbind_wf split: option.split)
qed

lemma new_relay_wf: "relay_wf (new_relay limit)"
  by (simp add: relay_wf_def new_relay_def hwf_def MAX_RELAY_SESSIONS_def)

interpretation rl: step_system "relay_step wc cfg" relay_wf
  by unfold_locales (rule relay_step_wf)

text \<open>Whatever binds, polls, unbinds, broken sockets and ended connections a relay sees, in any order, it never has more
  sessions than its limit, no two workers share a session, and the session of an entry is one that was bound for that worker.\<close>

theorem registry_in_order:
  "let r = fold (relay_step wc cfg) es (new_relay limit) in
     length (rl_sessions r) \<le> MAX_RELAY_SESSIONS \<and> distinct (map fst (rl_sessions r)) \<and> distinct (map snd (rl_sessions r)) \<and>
     list_all (\<lambda>(w, a). map_option session_worker (hget (rl_store r) a) = Some w) (rl_sessions r)"
proof -
  define r where "r = fold (relay_step wc cfg) es (new_relay limit)"
  have wf: "relay_wf r" unfolding r_def by (rule rl.run_inv [OF new_relay_wf])
  have d: "distinct (map fst (rl_sessions r))" using relay_wfD(1) [OF wf] by (simp add: hwf_def)
  have own: "map_option session_worker (hget (rl_store r) a) = Some w" if "(w, a) \<in> set (rl_sessions r)" for w a
    using relay_wfD(3) [OF wf, of w a] that d by auto
  have "inj_on snd (set (rl_sessions r))"
  proof (rule inj_onI)
    fix x y assume "x \<in> set (rl_sessions r)" "y \<in> set (rl_sessions r)" "snd x = snd y"
    moreover from this have "(fst x, snd x) \<in> set (rl_sessions r)" "(fst y, snd x) \<in> set (rl_sessions r)"
      by simp_all (metis prod.collapse)
    ultimately show "x = y" using own [of "fst x" "snd x"] own [of "fst y" "snd x"] by (auto simp: prod_eq_iff)
  qed
  then have "distinct (map snd (rl_sessions r))" using d by (simp add: distinct_map)
  with d own relay_wfD(2) [OF wf] show ?thesis
    by (auto simp: Let_def list_all_iff simp flip: r_def)
qed

subsection \<open>A living session is not displaced\<close>

text \<open>A worker's native session in force: the entry points to it and its writer runs.\<close>

definition in_force :: "string \<Rightarrow> nat \<Rightarrow> relay \<Rightarrow> bool" where
  "in_force w a r \<longleftrightarrow> hget (rl_sessions r) w = Some a \<and>
     (case hget (rl_store r) a of Some (Tcp s) \<Rightarrow> tw_open s | _ \<Rightarrow> False)"

lemma in_force_get: "in_force w a r \<Longrightarrow> \<exists>s. relay_get w r = Some (Tcp s) \<and> hget (rl_store r) a = Some (Tcp s) \<and> tw_open s"
  by (auto simp: in_force_def relay_get_def split: option.splits relay_session.splits)

lemma in_force_same: "same_sessions r r' \<Longrightarrow> in_force w a r' = in_force w a r"
  by (simp add: same_sessions_def in_force_def)

lemma in_force_bind:
  assumes "relay_wf r" and "in_force w a r"
  shows "in_force w a (fst (relay_bind v s q r))"
proof -
  obtain r1 x where c: "bind_checks v q r = (r1, x)" by fastforce
  then have same: "same_sessions r r1" using bind_checks_same by (metis fst_conv)
  have f1: "in_force w a r1" using in_force_same [OF same] assms(2) by simp
  show ?thesis
  proof (cases x)
    case (Inl e)
    with c f1 show ?thesis by (simp add: relay_bind_def)
  next
    case (Inr u)
    obtain t where t: "relay_get w r = Some (Tcp t)" "tw_open t" using in_force_get [OF assms(2)] by blast
    have other: "br_worker_id q \<noteq> w" using bind_checks_passed [of v q r r1 u] c Inr t by auto
    have "relay_wf r1" using same_sessions_wf [OF same] assms(1) by simp
    then have "a \<noteq> rl_next r1" using in_force_get [OF f1] relay_wfD(4) [of r1 a] by fastforce
    with c Inr f1 other show ?thesis by (simp add: relay_bind_def bind_session_def in_force_def update_conv')
  qed
qed

lemma in_force_poll: "in_force w a r \<Longrightarrow> in_force w a (change_poll b f r)"
  by (auto simp: in_force_def change_poll_def update_conv' split: option.splits relay_session.splits)

lemma in_force_unbind: "in_force w a r \<Longrightarrow> v \<noteq> w \<Longrightarrow> in_force w a (unbind v r)"
  by (simp add: in_force_def unbind_def delete_conv')

lemma get_by_token_entry:
  assumes "relay_wf r" and "get_by_token token r = Some b"
  shows "\<exists>p. hget (rl_store r) b = Some (HttpPoll p) \<and> hget (rl_sessions r) (pw_worker_id p) = Some b"
proof -
  have m: "b \<in> set (hvals (rl_sessions r))" and t: "case hget (rl_store r) b of Some s \<Rightarrow> has_token token s | None \<Rightarrow> False"
    using assms(2) by (auto simp: get_by_token_def find_Some_iff split: if_splits)
  from m obtain v where v: "hget (rl_sessions r) v = Some b" using in_hvals_iff [OF relay_wfD(1) [OF assms(1)]] by blast
  obtain s where s: "hget (rl_store r) b = Some s" "session_worker s = v" using relay_wfD(3) [OF assms(1) v] by blast
  with t v show ?thesis by (cases s) auto
qed

definition spares :: "nat \<Rightarrow> relay_event \<Rightarrow> bool" where
  "spares a e = (case e of WriterGone b \<Rightarrow> b \<noteq> a | LoopEnded _ b \<Rightarrow> b \<noteq> a | _ \<Rightarrow> True)"

lemma in_force_step:
  assumes wf: "relay_wf r" and f: "in_force w a r" and "spares a e"
  shows "in_force w a (relay_step wc cfg e r)"
proof (cases e)
  case (NativeBind q bs)
  from accept_worker_binds [of wc cfg q bs r] show ?thesis
    unfolding NativeBind relay_step.simps by (elim disjE exE) (simp_all add: f in_force_bind [OF wf f])
next
  case (PollBind q payload)
  from relay_bind_endpoint_binds [of cfg q payload r] show ?thesis
    unfolding PollBind relay_step.simps by (elim disjE exE) (simp_all add: f in_force_bind [OF wf f])
next
  case (WriterGone b)
  then have "b \<noteq> a" using assms(3) by (simp add: spares_def)
  with f WriterGone show ?thesis
    by (auto simp: writer_gone_def in_force_def update_conv' split: option.splits relay_session.splits)
next
  case (LoopEnded v b)
  then have "b \<noteq> a" using assms(3) by (simp add: spares_def)
  then have "unbind_session v b r = r \<or> (v \<noteq> w \<and> unbind_session v b r = unbind v r)"
    using f by (auto simp: unbind_session_def in_force_def split: option.splits relay_session.splits)
  with f LoopEnded in_force_unbind [OF f, of v] show ?thesis by auto
next
  case (PollUnbinds auth)
  have "v \<noteq> w" if auth: "relay_authed_session auth r = Some b" and s: "hget (rl_store r) b = Some s" "session_worker s = v" for b s v
  proof
    assume "v = w"
    obtain p where "hget (rl_store r) b = Some (HttpPoll p)" "hget (rl_sessions r) (pw_worker_id p) = Some b"
      using get_by_token_entry [OF wf] auth unfolding relay_authed_session_def Let_def by blast
    with s \<open>v = w\<close> f in_force_get [OF f] show False by (auto simp: in_force_def)
  qed
  with f PollUnbinds show ?thesis
    by (auto simp: relay_unbind_endpoint_def in_force_poll in_force_unbind split: option.split)
qed (use f in \<open>auto simp: begin_pull_def end_pull_def in_force_poll split: option.split relay_session.split\<close>)


definition sample_bind_request :: "string \<Rightarrow> nat \<Rightarrow> bind_request" where
  "sample_bind_request worker now = \<lparr>br_worker_id = worker, br_intent = [], br_models = [], br_ticket = [], br_source = ''a'', br_token = ''k'',
     br_verified_at = 0, br_alive_at = now, br_rated_at = now, br_consumed_at = 0, br_bound_at = now\<rparr>"

text \<open>The same with two binds whose checks interleave is false: both pass, and the second displaces the living session of the
  first.\<close>

lemma bind_race:
  "\<exists>r1 r2 r3. bind_checks Unsigned (sample_bind_request ''w'' 0) (new_relay 30) = (r1, Inr ()) \<and>
     bind_checks Unsigned (sample_bind_request ''w'' 1) r1 = (r2, Inr ()) \<and>
     bind_session ''w'' (tcp_session (sample_bind_request ''w'' 0)) r2 = r3 \<and> in_force ''w'' 0 r3 \<and>
     \<not> in_force ''w'' 0 (bind_session ''w'' (tcp_session (sample_bind_request ''w'' 1)) r3)"
  by (simp add: bind_checks_def relay_get_def new_relay_def sample_bind_request_def allow_bind_def count_attempt_def at_capacity_def
      MAX_RELAY_SESSIONS_def RELAY_BIND_RATE_WINDOW_def in_force_def bind_session_def tcp_session_def Let_def)

lemma relay_read_make:
  assumes "length payload \<le> 16 * 1024 * 1024"
  shows "relay_read_frame (relay_make_frame t payload @ rest) = Inr ((t, payload), rest)"
proof -
  have m: "length payload mod 2 ^ 32 = length payload" using assms by simp
  have eq: "relay_make_frame t payload = frame_bytes t payload (CHR 0x00)"
    unfolding relay_make_frame_def m by (simp add: frame_bytes_def IICP_MAGIC_def FRAMING_VERSION_def)
  have len: "length payload \<le> MAX_FRAME_PAYLOAD" using assms by (simp add: MAX_FRAME_PAYLOAD_def)
  note h = frame_header [OF len, of t "CHR 0x00", folded eq]
  have "length (relay_make_frame t payload @ rest) = 12 + length payload + length rest"
    using h(1) by (simp add: FRAME_HEADER_LEN_def)
  then show ?thesis
    unfolding relay_read_frame_def Let_def h using h(2,7,8) assms
    by (simp add: FRAME_HEADER_LEN_def IICP_MAGIC_def del: append_assoc drop_append take_append)
qed

definition sample_relay_codec :: wire_codec where
  "sample_relay_codec = table_codec [CMap [(CInt 1, CText ''w'')]]"

definition sample_relay_config :: relay_config where
  "sample_relay_config = \<lparr>rc_codec = Tickets.sample_codec, rc_claims_of = (\<lambda>_. None), rc_require_bind_ticket = False,
     rc_bind_ticket_public_key_hex = None, rc_relay_node_id = ''r'', rc_http_port = 9484\<rparr>"

definition sample_worker_bytes :: string where
  "sample_worker_bytes = relay_make_frame (CHR 0x01) [] @ relay_make_frame (CHR 0x0B) [CHR 0x00] @ []"

lemma sample_read_bind: "snd (read_bind sample_relay_codec sample_worker_bytes) = Inr ((''w'', [], []), [])"
  by (simp add: read_bind_def sample_worker_bytes_def relay_read_make cbor_decode_int_map_def sample_relay_codec_def table_codec_def
      del: append_Nil2)

lemma sample_native_bind:
  "relay_step sample_relay_codec sample_relay_config (NativeBind (sample_bind_request ''x'' now) sample_worker_bytes) r =
     fst (relay_bind Unsigned (tcp_session (sample_bind_request ''w'' now)) (sample_bind_request ''w'' now) r)"
proof -
  have "(sample_bind_request ''x'' now)\<lparr>br_worker_id := ''w'', br_intent := [], br_ticket := []\<rparr> = sample_bind_request ''w'' now"
    by (simp add: sample_bind_request_def)
  moreover have "tcp_ticket sample_relay_config (sample_bind_request ''w'' now) = Unsigned"
    by (simp add: tcp_ticket_def sample_bind_request_def sample_relay_config_def)
  ultimately show ?thesis
    using sample_read_bind by (cases "read_bind sample_relay_codec sample_worker_bytes")
      (simp add: accept_worker_def Let_def split: prod.split sum.split)
qed

lemma sample_first_bind:
  "in_force ''w'' 0 (fold (relay_step sample_relay_codec sample_relay_config)
     [NativeBind (sample_bind_request ''x'' 0) sample_worker_bytes] (new_relay 30))"
  unfolding fold_simps sample_native_bind
  by (simp add: relay_bind_def bind_checks_def relay_get_def new_relay_def sample_bind_request_def allow_bind_def
      count_attempt_def at_capacity_def MAX_RELAY_SESSIONS_def RELAY_BIND_RATE_WINDOW_def in_force_def bind_session_def
      tcp_session_def Let_def)


subsection \<open>The rate of binds\<close>

text \<open>Attempts of a relay, in order: source, whether the worker has an entry, time.  Those of one source that are not rebinds and
  pass.\<close>

fun granted :: "string \<Rightarrow> (string \<times> bool \<times> nat) list \<Rightarrow> relay \<Rightarrow> nat list" where
  "granted s [] r = []"
| "granted s ((source, rebind, now) # as) r =
    (case allow_bind source rebind now r of (r', ok) \<Rightarrow>
       (if ok \<and> \<not> rebind \<and> source = s then [now] else []) @ granted s as r')"

text \<open>The bucket of a source after an attempt.\<close>

definition next_bucket :: "nat \<Rightarrow> (nat \<times> u32) option \<Rightarrow> nat \<times> u32" where
  "next_bucket now b =
    (case b of
       None \<Rightarrow> (now, 1)
     | Some (start, n) \<Rightarrow> if now - start \<ge> RELAY_BIND_RATE_WINDOW then (now, 1) else (start, n + 1))"

lemma allow_bind_bucket:
  assumes "hwf (rl_buckets r)" and "rl_bind_rate_limit r \<noteq> 0" and "allow_bind source False now r = (r', ok)"
  shows "hwf (rl_buckets r')" and "rl_bind_rate_limit r' = rl_bind_rate_limit r"
    and "source = s \<Longrightarrow> hget (rl_buckets r') s = Some (next_bucket now (hget (rl_buckets r) s)) \<and>
           ok = (snd (next_bucket now (hget (rl_buckets r) s)) \<le> rl_bind_rate_limit r)"
    and "source \<noteq> s \<Longrightarrow> hget (rl_buckets r') s = hget (rl_buckets r) s \<or>
           (hget (rl_buckets r') s = None \<and> (\<exists>start n. hget (rl_buckets r) s = Some (start, n) \<and> now - start \<ge> RELAY_BIND_RATE_WINDOW))"
proof -
  let ?b = "next_bucket now (hget (rl_buckets r) source)"
  let ?m = "hput source ?b (rl_buckets r)"
  let ?P = "\<lambda>(_ :: string) (start, _ :: u32). now - start < RELAY_BIND_RATE_WINDOW"
  have c: "count_attempt source now (rl_buckets r) = (?m, snd ?b)"
    by (auto simp: count_attempt_def next_bucket_def RELAY_BIND_RATE_WINDOW_def split: option.split)
  have r': "r' = r\<lparr>rl_buckets := (if length ?m > 4096 then hretain ?P ?m else ?m)\<rparr>" "ok = (snd ?b \<le> rl_bind_rate_limit r)"
    using assms(2,3) by (auto simp: allow_bind_def c)
  have live: "now - fst ?b < RELAY_BIND_RATE_WINDOW"
    by (auto simp: next_bucket_def RELAY_BIND_RATE_WINDOW_def split: option.split)
  have wf: "hwf ?m" using assms(1) by simp
  show "hwf (rl_buckets r')" "rl_bind_rate_limit r' = rl_bind_rate_limit r" using wf r' by simp_all
  show "hget (rl_buckets r') s = Some (next_bucket now (hget (rl_buckets r) s)) \<and>
      ok = (snd (next_bucket now (hget (rl_buckets r) s)) \<le> rl_bind_rate_limit r)" if "source = s"
    using that r' live hget_hretain [OF wf, of ?P s] by (auto simp: update_conv' case_prod_unfold)
  show "hget (rl_buckets r') s = hget (rl_buckets r) s \<or>
      (hget (rl_buckets r') s = None \<and> (\<exists>start n. hget (rl_buckets r) s = Some (start, n) \<and> now - start \<ge> RELAY_BIND_RATE_WINDOW))"
    if "source \<noteq> s"
    using that r'(1) hget_hretain [OF wf, of ?P s] by (auto simp: update_conv' case_prod_unfold split: option.splits)
qed

text \<open>How many attempts a window from \<open>t0\<close> can have let pass so far, by the bucket of the source, at the time \<open>T\<close>.\<close>

definition granted_so_far :: "nat \<Rightarrow> nat \<Rightarrow> nat \<Rightarrow> (nat \<times> u32) option \<Rightarrow> nat \<Rightarrow> bool" where
  "granted_so_far L t0 T b A =
    (case b of
       None \<Rightarrow> A = 0 \<or> (A \<le> L \<and> t0 < T) \<or> (A \<le> 2 * L \<and> t0 + RELAY_BIND_RATE_WINDOW \<le> T)
     | Some (start, n) \<Rightarrow>
         if start \<le> t0 then A \<le> min (unat n) L \<and> (A > 0 \<longrightarrow> t0 < start + RELAY_BIND_RATE_WINDOW)
         else if start < t0 + RELAY_BIND_RATE_WINDOW then A \<le> L + min (unat n) L
         else A \<le> 2 * L)"

lemma granted_bound: "granted_so_far L t0 T b A \<Longrightarrow> A \<le> 2 * L"
  by (auto simp: granted_so_far_def min_def split: option.splits if_splits)

lemma granted_later: "granted_so_far L t0 T b A \<Longrightarrow> T \<le> T' \<Longrightarrow> granted_so_far L t0 T' b A"
  by (auto simp: granted_so_far_def split: option.splits)

lemma granted_pruned:
  "granted_so_far L t0 T (Some (start, n)) A \<Longrightarrow> start + RELAY_BIND_RATE_WINDOW \<le> T \<Longrightarrow> granted_so_far L t0 T None A"
  by (auto simp: granted_so_far_def split: if_splits)

lemma granted_attempt:
  assumes "granted_so_far L t0 T b A" and "T \<le> now" and "\<And>start n. b = Some (start, n) \<Longrightarrow> start \<le> T \<and> unat n < 2 ^ 32 - 1"
    and "counted = (t0 \<le> now \<and> now < t0 + RELAY_BIND_RATE_WINDOW \<and> unat (snd (next_bucket now b)) \<le> L)"
  shows "granted_so_far L t0 now (Some (next_bucket now b)) (A + (if counted then 1 else 0))"
proof (cases b)
  case None
  have "RELAY_BIND_RATE_WINDOW > 0" by (simp add: RELAY_BIND_RATE_WINDOW_def)
  with assms None show ?thesis by (auto simp: granted_so_far_def next_bucket_def split: if_splits)
next
  case (Some p)
  obtain start n where p: "p = (start, n)" by (cases p)
  have b: "start \<le> T" "unat n < 2 ^ 32 - 1" using assms(3) [of start n] Some p by simp_all
  then have n: "unat (n + 1) = unat n + 1" by (subst unat_Suc_nowrap) simp_all
  show ?thesis
  proof (cases "now - start \<ge> RELAY_BIND_RATE_WINDOW")
    case True
    with assms(1,2,4) Some p b show ?thesis by (auto simp: granted_so_far_def next_bucket_def split: if_splits)
  next
    case False
    with assms(1,2,4) Some p b n show ?thesis by (auto simp: granted_so_far_def next_bucket_def split: if_splits)
  qed
qed

lemma granted_in_window:
  assumes "hwf (rl_buckets r)" and "rl_bind_rate_limit r = limit" and "limit \<noteq> 0"
    and "sorted (T # map (\<lambda>(_, _, t). t) as)"
    and "granted_so_far (unat limit) t0 T (hget (rl_buckets r) s) A"
    and "\<And>start n. hget (rl_buckets r) s = Some (start, n) \<Longrightarrow> start \<le> T \<and> unat n + length as < 2 ^ 32"
    and "length as < 2 ^ 32"
  shows "A + length (filter (\<lambda>t. t0 \<le> t \<and> t < t0 + RELAY_BIND_RATE_WINDOW) (granted s as r)) \<le> 2 * unat limit"
  using assms
proof (induction as arbitrary: r T A)
  case Nil
  then show ?case using granted_bound by simp
next
  case (Cons a as)
  obtain source rebind now where a: "a = (source, rebind, now)" by (cases a)
  have times: "T \<le> now" "sorted (now # map (\<lambda>(_, _, t). t) as)" using Cons.prems(4) a by auto
  have len: "length as < 2 ^ 32" using Cons.prems(7) by simp
  let ?b = "hget (rl_buckets r) s"
  have later: "granted_so_far (unat limit) t0 now ?b A" using granted_later [OF Cons.prems(5) times(1)] .
  show ?case
  proof (cases rebind)
    case True
    have "A + length (filter (\<lambda>t. t0 \<le> t \<and> t < t0 + RELAY_BIND_RATE_WINDOW) (granted s as r)) \<le> 2 * unat limit"
      by (rule Cons.IH [OF Cons.prems(1-3) times(2) later _ len]) (use Cons.prems(6) times(1) in fastforce)
    with a True show ?thesis by (simp add: allow_bind_def)
  next
    case False
    obtain r' ok where o: "allow_bind source False now r = (r', ok)" by fastforce
    have l: "rl_bind_rate_limit r \<noteq> 0" using Cons.prems(2,3) by simp
    note bucket = allow_bind_bucket(1,2) [OF Cons.prems(1) l o] allow_bind_bucket(3,4) [OF Cons.prems(1) l o, of s]
    define counted where "counted = (source = s \<and> ok \<and> t0 \<le> now \<and> now < t0 + RELAY_BIND_RATE_WINDOW)"
    have step: "granted_so_far (unat limit) t0 now (hget (rl_buckets r') s) (A + (if counted then 1 else 0)) \<and>
      (\<forall>start n. hget (rl_buckets r') s = Some (start, n) \<longrightarrow> start \<le> now \<and> unat n + length as < 2 ^ 32)"
    proof (cases "source = s")
      case True
      have ok: "ok = (unat (snd (next_bucket now ?b)) \<le> unat limit)"
        using bucket(3) [OF True] Cons.prems(2) by (simp add: word_le_nat_alt)
      have old: "start \<le> T \<and> unat n < 2 ^ 32 - 1" if "?b = Some (start, n)" for start n
        using Cons.prems(6) [OF that] by simp
      have "counted = (t0 \<le> now \<and> now < t0 + RELAY_BIND_RATE_WINDOW \<and> unat (snd (next_bucket now ?b)) \<le> unat limit)"
        using ok True by (auto simp: counted_def)
      from granted_attempt [OF Cons.prems(5) times(1) old this]
      have g: "granted_so_far (unat limit) t0 now (Some (next_bucket now ?b)) (A + (if counted then 1 else 0))" .
      have "start \<le> now \<and> unat n + length as < 2 ^ 32" if "next_bucket now ?b = (start, n)" for start n
      proof (cases ?b)
        case None
        with that Cons.prems(7) show ?thesis by (simp add: next_bucket_def)
      next
        case (Some p)
        obtain s0 n0 where p: "p = (s0, n0)" by (cases p)
        have "s0 \<le> T" "unat n0 + length (a # as) < 2 ^ 32" using Cons.prems(6) [of s0 n0] Some p by simp_all
        then have "unat (n0 + 1) + length as < 2 ^ 32" by (subst unat_Suc_nowrap) simp_all
        with that Some p \<open>s0 \<le> T\<close> times(1) Cons.prems(7) show ?thesis
          by (auto simp: next_bucket_def split: if_splits)
      qed
      with g bucket(3) [OF True] show ?thesis by simp
    next
      case False
      from bucket(4) [OF False] show ?thesis
      proof
        assume "hget (rl_buckets r') s = ?b"
        with later Cons.prems(6) times(1) False show ?thesis by (auto simp: counted_def)
      next
        assume pr: "hget (rl_buckets r') s = None \<and> (\<exists>start n. ?b = Some (start, n) \<and> now - start \<ge> RELAY_BIND_RATE_WINDOW)"
        then obtain start n where b: "?b = Some (start, n)" "now - start \<ge> RELAY_BIND_RATE_WINDOW" by blast
        then have "start + RELAY_BIND_RATE_WINDOW \<le> now" by (auto simp: RELAY_BIND_RATE_WINDOW_def)
        with granted_pruned [of "unat limit" t0 now start n A] later b pr False show ?thesis by (simp add: counted_def)
      qed
    qed
    then have "A + (if counted then 1 else 0) + length (filter (\<lambda>t. t0 \<le> t \<and> t < t0 + RELAY_BIND_RATE_WINDOW) (granted s as r'))
        \<le> 2 * unat limit"
      using Cons.IH [OF bucket(1) _ Cons.prems(3) times(2)] bucket(2) Cons.prems(2) Cons.prems(7) by simp
    with a False o show ?thesis by (auto simp: counted_def)
  qed
qed



subsection \<open>Bind tickets\<close>

text \<open>The bind an event attempts: the judgement of its ticket, the session it would make, the request.\<close>

definition attempt_of :: "wire_codec \<Rightarrow> relay_config \<Rightarrow> relay_event \<Rightarrow> (ticket_verdict \<times> relay_session \<times> bind_request) option" where
  "attempt_of wc cfg e =
    (case e of
       NativeBind q bs \<Rightarrow>
         (case read_bind wc bs of
            (_, Inr ((w, i, t), _)) \<Rightarrow>
              let q = q\<lparr>br_worker_id := w, br_intent := i, br_ticket := t\<rparr> in Some (tcp_ticket cfg q, tcp_session q, q)
          | _ \<Rightarrow> None)
     | PollBind q payload \<Rightarrow>
         let q = bind_request_of payload q in
         if br_worker_id q = [] then None else Some (http_ticket cfg q, http_session q, q)
     | _ \<Rightarrow> None)"

lemma attempt_step:
  "attempt_of wc cfg e = Some (v, s, q) \<Longrightarrow> relay_step wc cfg e r = fst (relay_bind v s q r)"
  by (cases e) (auto simp: attempt_of_def accept_worker_def relay_bind_endpoint_def Let_def split: prod.splits sum.splits if_splits)

lemma no_attempt_used: "attempt_of wc cfg e = None \<Longrightarrow> rl_used (relay_step wc cfg e r) = rl_used r"
  by (cases e) (auto simp: attempt_of_def accept_worker_def relay_bind_endpoint_def begin_pull_def end_pull_def change_poll_def
      relay_unbind_endpoint_def writer_gone_def unbind_session_def unbind_def Let_def
      split: prod.splits sum.splits if_splits option.splits relay_session.splits)

text \<open>The binds that succeed with a given ticket in a run.\<close>

primrec binds_with :: "wire_codec \<Rightarrow> relay_config \<Rightarrow> string \<Rightarrow> relay_event list \<Rightarrow> relay \<Rightarrow> nat" where
  "binds_with wc cfg token [] r = 0"
| "binds_with wc cfg token (e # es) r =
    (case attempt_of wc cfg e of
       Some (v, s, q) \<Rightarrow> if br_ticket q = token \<and> \<not> isl (snd (relay_bind v s q r)) then 1 else 0
     | None \<Rightarrow> 0) + binds_with wc cfg token es (relay_step wc cfg e r)"

lemma allow_bind_used: "rl_used (fst (allow_bind source rebind now r)) = rl_used r"
  by (simp add: allow_bind_def Let_def split: prod.split)

lemma bind_checks_offer:
  assumes "bind_checks (Verified c) q r = (r', x)"
  shows "(rl_used r' = rl_used r \<and> isl x) \<or>
    (case consume_relay_bind_ticket c (br_consumed_at q) (rl_used r) of (used, ok) \<Rightarrow> rl_used r' = used \<and> isl x = (\<not> ok))"
proof -
  obtain r1 ok where a: "allow_bind (br_source q) (relay_get (br_worker_id q) r \<noteq> None) (br_rated_at q) r = (r1, ok)" by fastforce
  then have "rl_used r1 = rl_used r" using allow_bind_used by (metis fst_conv)
  then show ?thesis using assms unfolding bind_checks_def a
    by (cases ok) (auto split: if_splits prod.splits bool.splits)
qed

lemma bind_checks_unsigned_used: "\<forall>c. v \<noteq> Verified c \<Longrightarrow> rl_used (fst (bind_checks v q r)) = rl_used r"
proof -
  assume v: "\<forall>c. v \<noteq> Verified c"
  obtain r1 ok where a: "allow_bind (br_source q) (relay_get (br_worker_id q) r \<noteq> None) (br_rated_at q) r = (r1, ok)" by fastforce
  then have "rl_used r1 = rl_used r" using allow_bind_used by (metis fst_conv)
  then show ?thesis using v unfolding bind_checks_def a by (cases v; cases ok) auto
qed

text \<open>The tickets a run presents to the cache of used tickets: those of binds that pass every other check.\<close>

primrec ticket_offers :: "wire_codec \<Rightarrow> relay_config \<Rightarrow> relay_event list \<Rightarrow> relay \<Rightarrow> (int, string) presentation list" where
  "ticket_offers wc cfg [] r = []"
| "ticket_offers wc cfg (e # es) r =
    (case attempt_of wc cfg e of
       Some (Verified c, s, q) \<Rightarrow>
         (case bind_checks (Verified c) q r of (r', x) \<Rightarrow>
            if rl_used r' = rl_used r \<and> isl x then [] else [(br_consumed_at q, bc_jti c, bc_exp c)])
     | _ \<Rightarrow> []) @ ticket_offers wc cfg es (relay_step wc cfg e r)"

text \<open>A configuration that demands tickets, and events whose tickets are consumed before they expire.\<close>

definition demands_tickets :: "relay_config \<Rightarrow> bool" where
  "demands_tickets cfg \<longleftrightarrow> rc_require_bind_ticket cfg \<and> unwrap_or (rc_bind_ticket_public_key_hex cfg) [] \<noteq> []"

definition consumed_in_time :: "wire_codec \<Rightarrow> relay_config \<Rightarrow> relay_event \<Rightarrow> bool" where
  "consumed_in_time wc cfg e =
    (case attempt_of wc cfg e of Some (Verified c, s, q) \<Rightarrow> br_consumed_at q < bc_exp c | _ \<Rightarrow> True)"

definition consume_times :: "wire_codec \<Rightarrow> relay_config \<Rightarrow> relay_event \<Rightarrow> int list" where
  "consume_times wc cfg e = (case attempt_of wc cfg e of Some (v, s, q) \<Rightarrow> [br_consumed_at q] | None \<Rightarrow> [])"

lemma attempt_verdict:
  assumes "attempt_of wc cfg e = Some (v, s, q)" and "demands_tickets cfg"
  shows "(\<exists>reason. v = Refused reason) \<or>
    (\<exists>c. v = Verified c \<and> br_ticket q \<noteq> [] \<and> verify_relay_bind_ticket (rc_codec cfg) (rc_claims_of cfg) (br_ticket q)
       (the (rc_bind_ticket_public_key_hex cfg)) (br_worker_id q) (rc_relay_node_id cfg) (br_verified_at q) = Some c)"
proof -
  obtain key where k: "rc_bind_ticket_public_key_hex cfg = Some key" "key \<noteq> []" "rc_require_bind_ticket cfg"
    using assms(2) by (auto simp: demands_tickets_def unwrap_or_def split: option.splits)
  have "v = tcp_ticket cfg q \<or> v = http_ticket cfg q"
    using assms(1) by (auto simp: attempt_of_def Let_def split: relay_event.splits prod.splits sum.splits if_splits)
  then show ?thesis using k by (auto simp: tcp_ticket_def http_ticket_def split: if_splits option.splits)
qed

lemma relay_bind_outcome:
  "bind_checks v q r = (r', x) \<Longrightarrow>
     rl_used (fst (relay_bind v s q r)) = rl_used r' \<and> isl (snd (relay_bind v s q r)) = isl x"
  by (cases x) (simp_all add: relay_bind_def bind_session_def)

lemma binds_with_taken:
  assumes "demands_tickets cfg"
    and "verify_relay_bind_ticket (rc_codec cfg) (rc_claims_of cfg) token (the (rc_bind_ticket_public_key_hex cfg)) w rid t = Some claims"
  shows "binds_with wc cfg token es r \<le> taken bind_offer (bc_jti claims) (bc_exp claims) (ticket_offers wc cfg es r) (rl_used r)"
proof (induction es arbitrary: r)
  case (Cons e es)
  show ?case
  proof (cases "attempt_of wc cfg e")
    case None
    with Cons.IH [of "relay_step wc cfg e r"] no_attempt_used [OF None, of r] show ?thesis by simp
  next
    case (Some p)
    obtain v s q where p: "attempt_of wc cfg e = Some (v, s, q)" using Some by (cases p) auto
    obtain r' x where c: "bind_checks v q r = (r', x)" by fastforce
    note out = relay_bind_outcome [OF c, of s] and step = attempt_step [OF p, of r]
    note IH = Cons.IH [of "fst (relay_bind v s q r)"]
    from attempt_verdict [OF p assms(1)] show ?thesis
    proof (elim disjE exE conjE)
      fix reason assume v: "v = Refused reason"
      then have "r' = r" "isl x" using c by (auto simp: bind_checks_def)
      with IH out step p v show ?thesis by simp
    next
      fix cl assume v: "v = Verified cl" and ver: "verify_relay_bind_ticket (rc_codec cfg) (rc_claims_of cfg) (br_ticket q)
        (the (rc_bind_ticket_public_key_hex cfg)) (br_worker_id q) (rc_relay_node_id cfg) (br_verified_at q) = Some cl"
      have same: "br_ticket q = token \<Longrightarrow> cl = claims" using verify_bind_same [OF assms(2)] ver by metis
      show ?thesis
      proof (cases "rl_used r' = rl_used r \<and> isl x")
        case True
        with IH out step p v c show ?thesis by simp
      next
        case False
        obtain used ok where o: "bind_offer (br_consumed_at q) (bc_jti cl) (bc_exp cl) (rl_used r) = (used, ok)" by fastforce
        then have "rl_used r' = used" "isl x = (\<not> ok)"
          using bind_checks_offer [of cl q r r' x] c v False by (auto simp: consume_bind_offer)
        with IH out step p v c False o same show ?thesis by auto
      qed
    qed
  qed
qed simp

lemma ticket_offers_times:
  "sorted (T # concat (map (consume_times wc cfg) es)) \<Longrightarrow> sorted (T # map fst (ticket_offers wc cfg es r))"
proof (induction es arbitrary: r T)
  case (Cons e es)
  show ?case
  proof (cases "attempt_of wc cfg e")
    case None
    then have "sorted (T # concat (map (consume_times wc cfg) es))" using Cons.prems by (simp add: consume_times_def [of wc cfg e])
    from Cons.IH [OF this, of "relay_step wc cfg e r"] None show ?thesis by simp
  next
    case (Some p)
    obtain v s q where p: "attempt_of wc cfg e = Some (v, s, q)" using Some by (cases p) auto
    have "T \<le> br_consumed_at q" "sorted (br_consumed_at q # concat (map (consume_times wc cfg) es))"
      using Cons.prems p by (auto simp: consume_times_def [of wc cfg e])
    with Cons.IH [of "br_consumed_at q" "relay_step wc cfg e r"] p show ?thesis
      by (cases v) (auto split: prod.splits)
  qed
qed simp

lemma ticket_offers_unexpired:
  "list_all (consumed_in_time wc cfg) es \<Longrightarrow> list_all (unexpired j x) (ticket_offers wc cfg es r)"
  by (induction es arbitrary: r)
    (auto simp: consumed_in_time_def unexpired_def split: option.splits prod.splits ticket_verdict.splits if_splits)

lemma binds_with_zero:
  assumes "demands_tickets cfg"
    and "\<forall>w rid t. verify_relay_bind_ticket (rc_codec cfg) (rc_claims_of cfg) token (the (rc_bind_ticket_public_key_hex cfg)) w rid t = None"
  shows "binds_with wc cfg token es r = 0"
proof (induction es arbitrary: r)
  case (Cons e es)
  have "isl (snd (relay_bind v s q r))" if a: "attempt_of wc cfg e = Some (v, s, q)" and "br_ticket q = token" for v s q
    using attempt_verdict [OF a assms(1)] assms(2) that(2) by (auto simp: relay_bind_def bind_checks_def)
  with Cons show ?case by (auto split: option.split)
qed simp

text \<open>A relay that demands bind tickets honours each at most once, over both transports together: in any run, with any other
  binds, polls and ends of sessions in between, at most one bind with a given ticket succeeds, provided the wall clock does not
  go back and no ticket expires between its verification and its consumption.\<close>

theorem ticket_binds_once:
  assumes "demands_tickets cfg" and "sorted (concat (map (consume_times wc cfg) es))" and "list_all (consumed_in_time wc cfg) es"
  shows "binds_with wc cfg token es (new_relay limit) \<le> 1"
proof (cases "\<exists>w rid t claims. verify_relay_bind_ticket (rc_codec cfg) (rc_claims_of cfg) token
    (the (rc_bind_ticket_public_key_hex cfg)) w rid t = Some claims")
  case True
  then obtain w rid t claims where c: "verify_relay_bind_ticket (rc_codec cfg) (rc_claims_of cfg) token
    (the (rc_bind_ticket_public_key_hex cfg)) w rid t = Some claims" by blast
  let ?os = "ticket_offers wc cfg es (new_relay limit)"
  have "sorted (map fst ?os)"
  proof (cases "concat (map (consume_times wc cfg) es)")
    case Nil
    then have "sorted (0 # concat (map (consume_times wc cfg) es))" by (simp only: Nil) simp
    from ticket_offers_times [OF this] show ?thesis by simp
  next
    case (Cons t ts)
    then have "sorted (t # concat (map (consume_times wc cfg) es))" using assms(2) by simp
    from ticket_offers_times [OF this] show ?thesis by simp
  qed
  moreover have "hwf (rl_used (new_relay limit))" by (simp add: new_relay_def hwf_def)
  ultimately have "taken bind_offer (bc_jti claims) (bc_exp claims) ?os (rl_used (new_relay limit)) \<le> 1"
    using bind.taken_at_most_once ticket_offers_unexpired [OF assms(3)] by blast
  then show ?thesis using binds_with_taken [OF assms(1) c] le_trans by blast
next
  case False
  then have "\<forall>w rid t. verify_relay_bind_ticket (rc_codec cfg) (rc_claims_of cfg) token
      (the (rc_bind_ticket_public_key_hex cfg)) w rid t = None" by (metis option.exhaust)
  from binds_with_zero [OF assms(1) this] show ?thesis by simp
qed

definition strict_relay_config :: relay_config where
  "strict_relay_config = \<lparr>rc_codec = Tickets.sample_codec, rc_claims_of = sample_bind, rc_require_bind_ticket = True,
     rc_bind_ticket_public_key_hex = Some (replicate 64 CHR ''a''), rc_relay_node_id = ''r'', rc_http_port = 9484\<rparr>"

definition ticket_event :: "int \<Rightarrow> relay_event" where
  "ticket_event t = PollBind ((sample_bind_request [] 0)\<lparr>br_verified_at := t, br_consumed_at := t\<rparr>)
     (JObj [(''bind_ticket'', JStr sample_ticket), (''worker_id'', JStr ''w'')])"

lemma ticket_event_attempt:
  assumes "t < 100"
  shows "\<exists>s q. attempt_of wc strict_relay_config (ticket_event t) = Some (Verified (the (sample_bind ''p'')), s, q) \<and> br_consumed_at q = t"
proof -
  have "verify_relay_bind_ticket Tickets.sample_codec sample_bind sample_ticket (replicate 64 CHR ''a'') ''w'' ''r'' t = sample_bind ''p''"
    using assms by (rule sample_ticket_verifies)
  moreover have "sample_ticket \<noteq> []" by (simp add: sample_ticket_def)
  ultimately show ?thesis
    by (simp add: attempt_of_def ticket_event_def strict_relay_config_def bind_request_of_def http_ticket_def get_str_def
        sample_bind_request_def sample_bind_def Let_def)
qed

theorem ticket_binds_once_witness:
  "binds_with sample_relay_codec strict_relay_config sample_ticket [ticket_event 1, ticket_event 2] (new_relay 30) \<le> 1"
proof (rule ticket_binds_once)
  show "demands_tickets strict_relay_config" by (simp add: demands_tickets_def strict_relay_config_def)
  show "sorted (concat (map (consume_times sample_relay_codec strict_relay_config) [ticket_event 1, ticket_event 2]))"
    using ticket_event_attempt [of 1 sample_relay_codec] ticket_event_attempt [of 2 sample_relay_codec]
    by (auto simp: consume_times_def)
  show "list_all (consumed_in_time sample_relay_codec strict_relay_config) [ticket_event 1, ticket_event 2]"
    using ticket_event_attempt [of 1 sample_relay_codec] ticket_event_attempt [of 2 sample_relay_codec]
    by (auto simp: consumed_in_time_def sample_bind_def)
qed

subsection \<open>Forwarded streams\<close>

text \<open>What can happen to a forwarded stream, in any order: an event of the worker arrives, the consumer takes a turn, receives
  or runs into its timeout.\<close>

datatype stream_op = Deliver native_frame | Turn | Recv | Expire

fun stream_step :: "nat \<Rightarrow> string \<Rightarrow> stream_op \<Rightarrow> relay_stream \<Rightarrow> relay_stream" where
  "stream_step secs call_id (Deliver e) st = deliver_stream_event e st"
| "stream_step secs call_id Turn st = stream_turn st"
| "stream_step secs call_id Recv st = stream_recv st"
| "stream_step secs call_id Expire st = stream_expire secs call_id st"

lemma accept_frames_append:
  "accept_frames (fs @ gs) s = (case accept_frames fs s of Inl e \<Rightarrow> Inl e | Inr s' \<Rightarrow> accept_frames gs s')"
  by (induction fs arbitrary: s) (auto split: prod.splits sum.splits)

text \<open>The frames a consumer was given, and those it was given or that wait in the channel.\<close>

fun frames_of :: "(string + native_frame) list \<Rightarrow> native_frame list" where
  "frames_of [] = []"
| "frames_of (Inl _ # items) = frames_of items"
| "frames_of (Inr f # items) = f # frames_of items"

lemma frames_of_append [simp]: "frames_of (xs @ ys) = frames_of xs @ frames_of ys"
  by (induction xs rule: frames_of.induct) simp_all

lemma frames_of_map [simp]: "frames_of (map Inr fs) = fs"
  by (induction fs) simp_all

abbreviation given :: "relay_stream \<Rightarrow> native_frame list" where
  "given st \<equiv> frames_of (st_yielded st)"

definition stream_inv :: "response_sequence \<Rightarrow> relay_stream \<Rightarrow> bool" where
  "stream_inv s0 st \<longleftrightarrow> length (st_queue st) \<le> MAX_RELAY_STREAM_EVENTS \<and>
     (\<exists>s. accept_frames (given st @ st_queue st) s0 = Inr s \<and> (st_pending st = None \<or> st_pending st = Some s)) \<and>
     (if st_done st
      then (\<exists>e. st_yielded st = map Inr (given st) @ [Inl e]) \<or>
        (st_yielded st = map Inr (given st) \<and> given st \<noteq> [] \<and> fr_is_final (last (given st)))
      else st_yielded st = map Inr (given st))"

lemma deliver_inv:
  assumes "stream_inv s0 st"
  shows "stream_inv s0 (deliver_stream_event e st)"
proof (cases "st_pending st")
  case None
  with assms show ?thesis by (simp add: deliver_stream_event_def)
next
  case (Some s)
  obtain s' x where a: "accept_frame e s = (s', x)" by fastforce
  have acc: "accept_frames (given st @ st_queue st) s0 = Inr s" using assms Some by (auto simp: stream_inv_def)
  have more: "accept_frames (given st @ st_queue st @ [e]) s0 = Inr s'" if "x = Inr u" for u
    using accept_frames_append [of "given st @ st_queue st" "[e]" s0] acc a that by simp
  show ?thesis using assms Some a acc more
    by (auto simp: stream_inv_def deliver_stream_event_def split: sum.split)
qed

lemma turn_inv: "stream_inv s0 st \<Longrightarrow> stream_inv s0 (stream_turn st)"
  by (auto simp: stream_inv_def stream_turn_def stream_return_def stream_yield_def split: option.split)

lemma recv_inv: "stream_inv s0 st \<Longrightarrow> stream_inv s0 (stream_recv st)"
  by (auto simp: stream_inv_def stream_recv_def stream_return_def stream_yield_def Let_def split: list.split)

lemma expire_inv: "stream_inv s0 st \<Longrightarrow> stream_inv s0 (stream_expire secs call_id st)"
  by (auto simp: stream_inv_def stream_expire_def stream_return_def stream_yield_def)

interpretation fs: step_system "stream_step secs call_id" "stream_inv s0"
proof
  fix st e assume "stream_inv s0 st"
  then show "stream_inv s0 (stream_step secs call_id e st)"
    by (cases e) (simp_all add: deliver_inv turn_inv recv_inv expire_inv)
qed

lemma accept_frames_last: "accept_frames fs s = Inr s' \<Longrightarrow> fs \<noteq> [] \<Longrightarrow> rs_terminal_seen s' = fr_is_final (last fs)"
proof (induction fs rule: rev_induct)
  case (snoc f fs)
  then obtain s1 where "accept_frames fs s = Inr s1" by (auto simp: accept_frames_append split: sum.splits)
  with snoc show ?case by (auto simp: accept_frames_append accept_frame_def split: if_splits)
qed simp

text \<open>C22.  A relayed stream is as sound as a direct one.  Whatever responses a worker sends, however they interleave with the
  consumer's turns and timeouts, what the consumer has been given at any moment is a gap-free beginning of a valid stream of
  that call; it ends either with one error, or without one, and then the stream is complete; and at most 32 events wait in
  the relay.\<close>

theorem relayed_stream_sound:
  "let st = fold (stream_step secs call_id) ops (new_stream session_id call_id task_id) in
     length (st_queue st) \<le> MAX_RELAY_STREAM_EVENTS \<and>
     (\<exists>fs s. accept_frames fs (new_sequence session_id call_id task_id) = Inr s \<and>
       (if st_done st
        then (\<exists>e. st_yielded st = map Inr fs @ [Inl e]) \<or>
             (st_yielded st = map Inr fs \<and> complete_stream session_id call_id task_id fs)
        else st_yielded st = map Inr fs))"
proof -
  define st where "st = fold (stream_step secs call_id) ops (new_stream session_id call_id task_id)"
  let ?s0 = "new_sequence session_id call_id task_id"
  have "stream_inv ?s0 (new_stream session_id call_id task_id)"
    by (simp add: stream_inv_def new_stream_def)
  then have inv: "stream_inv ?s0 st" unfolding st_def by (rule fs.run_inv)
  then obtain s where s: "accept_frames (given st) ?s0 = Inr s"
    by (auto simp: stream_inv_def accept_frames_append split: sum.splits)
  have "complete_stream session_id call_id task_id (given st)" if "given st \<noteq> []" "fr_is_final (last (given st))"
    using accept_frames_last [OF s that(1)] that(2) s by (simp add: complete_stream_def finish_sequence_def)
  with inv s show ?thesis by (auto simp: stream_inv_def Let_def simp flip: st_def)
qed

text \<open>And it is complete where the consumer keeps up: each response received before the next one arrives, a complete stream
  reaches the consumer as it is.\<close>

lemma lockstep_frame:
  assumes "st_pending st = Some s" "st_queue st = []" "st_failure st = None" "\<not> st_waiting st" "\<not> st_done st"
    and "accept_frame f s = (s', Inr u)"
  shows "fold (stream_step secs call_id) [Deliver f, Turn, Recv] st =
    (if fr_is_final f then stream_return (st\<lparr>st_yielded := st_yielded st @ [Inr f]\<rparr>)
     else st\<lparr>st_pending := Some s', st_yielded := st_yielded st @ [Inr f]\<rparr>)"
  using assms by (simp add: deliver_stream_event_def stream_turn_def stream_recv_def stream_yield_def stream_return_def
      MAX_RELAY_STREAM_EVENTS_def)

lemma lockstep_stream:
  assumes "accept_frames fs s = Inr s'" and "rs_terminal_seen s'" and "\<not> rs_terminal_seen s"
    and "st_pending st = Some s" "st_queue st = []" "st_failure st = None" "\<not> st_waiting st" "\<not> st_done st"
  shows "st_done (fold (stream_step secs call_id) (concat (map (\<lambda>f. [Deliver f, Turn, Recv]) fs)) st) \<and>
    st_yielded (fold (stream_step secs call_id) (concat (map (\<lambda>f. [Deliver f, Turn, Recv]) fs)) st) = st_yielded st @ map Inr fs"
  using assms
proof (induction fs arbitrary: s st)
  case (Cons f fs)
  obtain s1 u where a: "accept_frame f s = (s1, Inr u)" using Cons.prems(1) by (auto split: prod.splits sum.splits)
  have seen: "rs_terminal_seen s1 = fr_is_final f" using a by (auto simp: accept_frame_def split: if_splits)
  have step: "fold (stream_step secs call_id) (concat (map (\<lambda>f. [Deliver f, Turn, Recv]) (f # fs))) st =
      fold (stream_step secs call_id) (concat (map (\<lambda>f. [Deliver f, Turn, Recv]) fs))
        (fold (stream_step secs call_id) [Deliver f, Turn, Recv] st)" by simp
  show ?case
  proof (cases "fr_is_final f")
    case True
    have "fs = []"
    proof (cases fs)
      case (Cons g gs)
      with Cons.prems(1) a seen True show ?thesis by (auto simp: accept_frame_def split: if_splits)
    qed simp
    then show ?thesis unfolding step lockstep_frame [OF Cons.prems(4-8) a] using True by (simp add: stream_return_def)
  next
    case False
    let ?st = "st\<lparr>st_pending := Some s1, st_yielded := st_yielded st @ [Inr f]\<rparr>"
    have "accept_frames fs s1 = Inr s'" using Cons.prems(1) a by simp
    from Cons.IH [OF this Cons.prems(2), of ?st] seen False Cons.prems
    show ?thesis unfolding step lockstep_frame [OF Cons.prems(4-8) a] by simp
  qed
qed simp

lemma relayed_in_lockstep:
  assumes "complete_stream session_id call_id task_id fs"
  shows "st_yielded (fold (stream_step secs call_id) (concat (map (\<lambda>f. [Deliver f, Turn, Recv]) fs))
    (new_stream session_id call_id task_id)) = map Inr fs"
proof -
  obtain s' where "accept_frames fs (new_sequence session_id call_id task_id) = Inr s'" "rs_terminal_seen s'"
    using assms by (auto simp: complete_stream_def finish_sequence_def split: sum.splits if_splits)
  from lockstep_stream [OF this, of "new_stream session_id call_id task_id"] show ?thesis
    by (simp add: new_sequence_def new_stream_def)
qed

text \<open>A buffered call is answered by the first response that names it; a later one changes nothing.\<close>

lemma second_answer_ignored: "on_response call_id result' (on_response call_id result d) = on_response call_id result d"
  by (simp add: on_response_def forget_call_def)

text \<open>A response of a native worker, as its server writes it, reaches the stream of its call as the frame the server sent.\<close>

lemma worker_event_forwarded:
  assumes "carries wc (lifecycle_body session call task n e)"
  shows "worker_frame wc (CHR 0x06) (encode_lifecycle_response wc session call task n e) =
    StreamResponse call (event_frame session call task n e)"
  using assms by (simp add: worker_frame_def encode_lifecycle_response_def carries_def decode_lifecycle_body event_frame_def)

end
