(* ===== verification/Relay_Worker.thy ===== *)
theory Relay_Worker
  imports Relay
begin

text \<open>
  The worker's end of a relay session, \<^verbatim>\<open>src/relay_worker_client.rs\<close>: the handshake, the calls it answers and the delays between
  its attempts.  Its framing is the relay's, a second copy of the same code.  Each call is answered by a task of its own; the
  model answers them in the order they arrive.  The keep-alive pings, the callbacks and the connection itself are left out.
\<close>

subsection \<open>The worker\<close>

text \<open>The lossy decoding of bytes, the debug form of a value and the fetch of a ticket from the directory are arguments.\<close>

record worker_client =
  wk_worker_id :: string
  wk_intent :: string
  wk_models :: "string list"
  wk_bind_ticket :: "string option"
  wk_directory :: "(string \<times> string) option"
  wk_fetch_ticket :: "string \<Rightarrow> string \<Rightarrow> string option"
  wk_handler :: "json \<Rightarrow> json"
  wk_lossy :: "string \<Rightarrow> string"
  wk_show :: "cbor option \<Rightarrow> string"

fun worker_cbor_text :: "(string \<Rightarrow> string) \<Rightarrow> cbor option \<Rightarrow> string" where
  "worker_cbor_text lossy (Some (CText s)) = s"
| "worker_cbor_text lossy (Some (CBytes b)) = lossy b"
| "worker_cbor_text lossy _ = []"

definition worker_read_frame :: "string \<Rightarrow> ((char \<times> string) \<times> string) option" where
  "worker_read_frame bs = (case relay_read_frame bs of Inl _ \<Rightarrow> None | Inr x \<Rightarrow> Some x)"

definition worker_ticket :: "worker_client \<Rightarrow> string option" where
  "worker_ticket w =
    (case wk_bind_ticket w of
       Some t \<Rightarrow> Some t
     | None \<Rightarrow> Option.bind (wk_directory w) (\<lambda>(url, token). wk_fetch_ticket w url token))"

definition bind_fields :: "worker_client \<Rightarrow> (int \<times> cbor) list" where
  "bind_fields w = [(1, CText (wk_worker_id w)), (2, CText (wk_intent w)), (3, CArr (map CText (wk_models w)))] @
     (case worker_ticket w of Some t \<Rightarrow> [(4, CText t)] | None \<Rightarrow> [])"

fun http_port_of :: "cbor option \<Rightarrow> nat" where
  "http_port_of (Some (CInt n)) = (if 0 \<le> n \<and> n < 2 ^ 16 then nat n else 9484)"
| "http_port_of _ = 9484"

definition worker_init :: "wire_codec \<Rightarrow> string" where
  "worker_init wc = relay_make_frame (CHR 0x01) (cbor_encode_int_map wc [(1, CInt 1)])"

definition worker_bind :: "wire_codec \<Rightarrow> worker_client \<Rightarrow> string" where
  "worker_bind wc w = relay_make_frame (CHR 0x0B) (cbor_encode_int_map wc (bind_fields w))"

text \<open>The handshake over the bytes the relay sends: what is written, and the error or the relay's HTTP port and the rest.\<close>

definition worker_handshake :: "wire_codec \<Rightarrow> worker_client \<Rightarrow> string \<Rightarrow> string list \<times> (string + nat \<times> string)" where
  "worker_handshake wc w bs =
    (case worker_read_frame bs of None \<Rightarrow> ([worker_init wc], Inl ''EOF after INIT'') | Some ((mt, _), bs) \<Rightarrow>
     if mt \<noteq> CHR 0x02 then ([worker_init wc], Inl (''expected ACK, got 0x'' @ hex_of_byte mt))
     else (let out = [worker_init wc, worker_bind wc w] in
     case worker_read_frame bs of None \<Rightarrow> (out, Inl ''EOF after RELAY_BIND'') | Some ((mt, payload), bs) \<Rightarrow>
     if mt \<noteq> CHR 0x0C then (out, Inl (''expected RELAY_ACK, got 0x'' @ hex_of_byte mt))
     else case cbor_decode_int_map wc payload of None \<Rightarrow> (out, Inl ''RELAY_ACK decode failed'') | Some body \<Rightarrow>
     if worker_cbor_text (wk_lossy w) (hget body 1) \<noteq> ''ok'' then (out, Inl (''RELAY_ACK not ok: '' @ wk_show w (hget body 1)))
     else (out, Inr (http_port_of (hget body 4), bs))))"

definition worker_answer :: "wire_codec \<Rightarrow> worker_client \<Rightarrow> string \<Rightarrow> string" where
  "worker_answer wc w payload =
    (let body = cbor_decode_int_map wc payload;
         call_id = (case body of Some b \<Rightarrow> worker_cbor_text (wk_lossy w) (hget b 15) | None \<Rightarrow> []);
         raw = (case body of Some b \<Rightarrow> unwrap_or (cbor_bytes (hget b 5)) [] | None \<Rightarrow> []);
         task = unwrap_or (if wc_utf8 wc raw then wc_parse_json wc raw else None) JNull
     in relay_make_frame (CHR 0x06) (cbor_encode_int_map wc
          [(15, CText call_id), (5, CBytes (printed_task wc (wk_handler w task)))]))"

lemma worker_read_frame_less: "worker_read_frame bs = Some (f, bs') \<Longrightarrow> length bs' < length bs"
  by (auto simp: worker_read_frame_def dest: relay_read_frame_less split: sum.splits)

text \<open>The session loop: the answers it writes until the stream ends or the relay closes.\<close>

function worker_loop :: "wire_codec \<Rightarrow> worker_client \<Rightarrow> string \<Rightarrow> string list" where
  "worker_loop wc w bs =
    (case worker_read_frame bs of
       None \<Rightarrow> []
     | Some ((mt, payload), bs') \<Rightarrow>
         if mt = CHR 0x05 then worker_answer wc w payload # worker_loop wc w bs'
         else if mt = CHR 0x07 then [] else worker_loop wc w bs')"
  by pat_completeness auto

termination
  by (relation "measure (\<lambda>(_, _, bs). length bs)") (auto dest!: worker_read_frame_less)

declare worker_loop.simps [simp del]

definition worker_session :: "wire_codec \<Rightarrow> worker_client \<Rightarrow> string \<Rightarrow> string list \<times> (string + unit)" where
  "worker_session wc w bs =
    (case worker_handshake wc w bs of
       (out, Inl e) \<Rightarrow> (out, Inl e)
     | (out, Inr (_, bs)) \<Rightarrow> (out @ worker_loop wc w bs, Inr ()))"

text \<open>\<^verbatim>\<open>run\<close>: the seconds it sleeps after each of a sequence of sessions, from the delay it has.\<close>

primrec reconnect_delays :: "nat \<Rightarrow> (string + unit) list \<Rightarrow> nat list" where
  "reconnect_delays delay [] = []"
| "reconnect_delays delay (outcome # rest) =
    (let delay = (case outcome of Inr _ \<Rightarrow> 2 | Inl _ \<Rightarrow> delay) in delay # reconnect_delays (min (delay * 2) 60) rest)"

subsection \<open>Both ends agree\<close>

lemma decode_encoded_map:
  assumes "carries wc (CMap (map (\<lambda>(k, v). (CInt k, v)) es))" and "list_all (\<lambda>(k, _). - (2 ^ 63) \<le> k \<and> k < 2 ^ 63) es"
  shows "cbor_decode_int_map wc (cbor_encode_int_map wc es) = Some (fold (\<lambda>(k, v) out. hput k v out) es [])"
proof -
  have "fold (\<lambda>(k, v) out. case k of CInt n \<Rightarrow> if - (2 ^ 63) \<le> n \<and> n < 2 ^ 63 then hput n v out else out | _ \<Rightarrow> out)
      (map (\<lambda>(k, v). (CInt k, v)) es) acc = fold (\<lambda>(k, v) out. hput k v out) es acc" for acc :: "(int, cbor) hmap"
    using assms(2) by (induction es arbitrary: acc) auto
  then show ?thesis using assms(1) by (simp add: cbor_decode_int_map_def cbor_encode_int_map_def carries_def)
qed

text \<open>The maps the two ends exchange survive the codec.\<close>

definition map_carried :: "wire_codec \<Rightarrow> (int \<times> cbor) list \<Rightarrow> bool" where
  "map_carried wc es \<longleftrightarrow> carries wc (CMap (map (\<lambda>(k, v). (CInt k, v)) es))"

lemma map_carried_length: "map_carried wc es \<Longrightarrow> length (cbor_encode_int_map wc es) \<le> 16 * 1024 * 1024"
  by (simp add: map_carried_def carries_def cbor_encode_int_map_def MAX_FRAME_PAYLOAD_def)

lemma relay_reads_carried:
  "map_carried wc es \<Longrightarrow> relay_read_frame (relay_make_frame t (cbor_encode_int_map wc es) @ rest) =
     Inr ((t, cbor_encode_int_map wc es), rest)"
  by (rule relay_read_make) (rule map_carried_length)

lemma worker_reads_carried:
  "map_carried wc es \<Longrightarrow> worker_read_frame (relay_make_frame t (cbor_encode_int_map wc es) @ rest) =
     Some ((t, cbor_encode_int_map wc es), rest)"
  by (simp add: worker_read_frame_def relay_reads_carried)

lemma read_bind_worker:
  assumes "map_carried wc [(1, CInt 1)]" and "map_carried wc (bind_fields w)" and "wk_worker_id w \<noteq> []"
  shows "read_bind wc (worker_init wc @ worker_bind wc w @ rest) =
    ([relay_make_frame (CHR 0x02) (cbor_encode_int_map wc [(1, CInt 1)])],
     Inr ((wk_worker_id w, wk_intent w, unwrap_or (worker_ticket w) []), rest))"
proof -
  have d: "cbor_decode_int_map wc (cbor_encode_int_map wc (bind_fields w)) = Some (fold (\<lambda>(k, v) out. hput k v out) (bind_fields w) [])"
    using assms(2) unfolding map_carried_def by (rule decode_encoded_map) (simp add: bind_fields_def split: option.split)
  show ?thesis
    unfolding read_bind_def worker_init_def worker_bind_def relay_reads_carried [OF assms(1)] sum.case prod.case Let_def
      relay_reads_carried [OF assms(2)] d
    using assms(3) by (simp add: bind_fields_def split: option.split)
qed
definition bind_reasons :: "string list" where
  "bind_reasons = [''relay bind ticket invalid'', ''relay bind ticket required'', ''worker_id already bound to an alive session'',
     ''relay_bind_rate_limited'', ''relay at session capacity'', ''relay bind ticket replayed'']"

lemma bind_checks_reason:
  assumes "bind_checks (tcp_ticket cfg q) q r = (r', Inl reason)"
  shows "reason \<in> set bind_reasons"
proof -
  obtain r1 ok where a: "allow_bind (br_source q) (relay_get (br_worker_id q) r \<noteq> None) (br_rated_at q) r = (r1, ok)" by fastforce
  have t: "tcp_ticket cfg q = Refused e \<Longrightarrow> e \<in> set bind_reasons" for e
    by (auto simp: tcp_ticket_def bind_reasons_def split: if_splits option.splits)
  show ?thesis using assms t unfolding bind_checks_def a
    by (cases "tcp_ticket cfg q"; cases ok) (auto simp: bind_reasons_def split: if_splits prod.splits bool.splits)
qed

definition ok_fields :: "string \<Rightarrow> nat \<Rightarrow> (int \<times> cbor) list" where
  "ok_fields worker_id port = [(1, CText ''ok''), (2, CText worker_id), (4, CInt (int port))]"

definition error_fields :: "string \<Rightarrow> string \<Rightarrow> (int \<times> cbor) list" where
  "error_fields worker_id reason = [(1, CText ''error''), (2, CText worker_id), (3, CText reason)]"

lemma worker_handshake_reply:
  assumes "map_carried wc [(1, CInt 1)]" and "map_carried wc es" and "list_all (\<lambda>(k, _). - (2 ^ 63) \<le> k \<and> k < 2 ^ 63) es"
  shows "snd (worker_handshake wc w (relay_make_frame (CHR 0x02) (cbor_encode_int_map wc [(1, CInt 1)]) @
      relay_make_frame (CHR 0x0C) (cbor_encode_int_map wc es) @ rest)) =
    (let body = fold (\<lambda>(k, v) out. hput k v out) es [] in
     if worker_cbor_text (wk_lossy w) (hget body 1) \<noteq> ''ok'' then Inl (''RELAY_ACK not ok: '' @ wk_show w (hget body 1))
     else Inr (http_port_of (hget body 4), rest))"
proof -
  have d: "cbor_decode_int_map wc (cbor_encode_int_map wc es) = Some (fold (\<lambda>(k, v) out. hput k v out) es [])"
    using assms(2,3) unfolding map_carried_def by (rule decode_encoded_map)
  show ?thesis
    unfolding worker_handshake_def worker_reads_carried [OF assms(1)] option.case prod.case Let_def worker_reads_carried [OF assms(2)] d
    by simp
qed

text \<open>The two ends of a native relay session agree on the outcome of the handshake.  When a worker's bytes reach the relay and
  the relay's bytes the worker, either the relay has bound a session for exactly that worker, in force, and the worker goes on
  to its loop with the relay's HTTP port; or the relay refused, has bound nothing, and the worker fails with the refusal.\<close>

theorem handshake_agrees:
  assumes "list_all (map_carried wc) ([(1, CInt 1)] # bind_fields w # ok_fields (wk_worker_id w) (rc_http_port cfg) #
      map (error_fields (wk_worker_id w)) bind_reasons)"
    and "wk_worker_id w \<noteq> []" and "rc_http_port cfg < 2 ^ 16"
    and "accept_worker wc cfg q (worker_init wc @ worker_bind wc w @ rest) r = (r', out, x)"
  shows "(\<exists>a. x = Inr (Some (a, rest)) \<and> in_force (wk_worker_id w) a r' \<and>
      snd (worker_handshake wc w (concat out)) = Inr (rc_http_port cfg, [])) \<or>
    (x = Inr None \<and> same_sessions r r' \<and>
      snd (worker_handshake wc w (concat out)) = Inl (''RELAY_ACK not ok: '' @ wk_show w (Some (CText ''error''))))"
proof -
  let ?q = "q\<lparr>br_worker_id := wk_worker_id w, br_intent := wk_intent w, br_ticket := unwrap_or (worker_ticket w) []\<rparr>"
  let ?ack = "relay_make_frame (CHR 0x02) (cbor_encode_int_map wc [(1, CInt 1)])"
  have c: "map_carried wc [(1, CInt 1)]" "map_carried wc (bind_fields w)"
    "map_carried wc (ok_fields (wk_worker_id w) (rc_http_port cfg))" using assms(1) by simp_all
  have rb: "read_bind wc (worker_init wc @ worker_bind wc w @ rest) =
      ([?ack], Inr ((wk_worker_id w, wk_intent w, unwrap_or (worker_ticket w) []), rest))"
    by (rule read_bind_worker [OF c(1,2) assms(2)])
  obtain r1 y where ch: "bind_checks (tcp_ticket cfg ?q) ?q r = (r1, y)" by fastforce
  note acc = assms(4) [unfolded accept_worker_def rb prod.case sum.case Let_def]
  show ?thesis
  proof (cases y)
    case (Inl reason)
    have e: "map_carried wc (error_fields (wk_worker_id w) reason)"
      using bind_checks_reason [of cfg ?q r r1 reason] ch Inl assms(1) by (auto simp: list_all_iff)
    have "relay_bind (tcp_ticket cfg ?q) (tcp_session ?q) ?q r = (r1, Inl reason)" using ch Inl by (simp add: relay_bind_def)
    then have x: "r' = r1" "out = [?ack, nack wc (wk_worker_id w) reason]" "x = Inr None" using acc by auto
    have "same_sessions r r1" using bind_checks_same [of r "tcp_ticket cfg ?q" ?q] ch by simp
    moreover have "snd (worker_handshake wc w (concat out)) = Inl (''RELAY_ACK not ok: '' @ wk_show w (Some (CText ''error'')))"
      using worker_handshake_reply [OF c(1) e, of w "[]"] x(2)
      by (simp add: error_fields_def nack_def Let_def)
    ultimately show ?thesis using x by blast
  next
    case (Inr u)
    have "relay_bind (tcp_ticket cfg ?q) (tcp_session ?q) ?q r = (bind_session (wk_worker_id w) (tcp_session ?q) r1, Inr (rl_next r1))"
      using ch Inr by (simp add: relay_bind_def)
    then have x: "r' = bind_session (wk_worker_id w) (tcp_session ?q) r1" "x = Inr (Some (rl_next r1, rest))"
      "out = [?ack, relay_make_frame (CHR 0x0C) (cbor_encode_int_map wc (ok_fields (wk_worker_id w) (rc_http_port cfg)))]"
      using acc by (auto simp: ok_fields_def)
    have "in_force (wk_worker_id w) (rl_next r1) r'" by (simp add: x(1) in_force_def bind_session_def tcp_session_def)
    moreover have "snd (worker_handshake wc w (concat out)) = Inr (rc_http_port cfg, [])"
      using worker_handshake_reply [OF c(1,3), of w "[]"] x(3) assms(3) by (simp add: ok_fields_def Let_def)
    ultimately show ?thesis using x(2) by blast
  qed
qed

text \<open>C37.  A task forwarded to a native worker comes back answered: the frame the relay writes makes the worker run its handler on
  that task, and the frame the worker writes makes the relay hand the handler's result to that call, once, and to no other,
  when task and result survive the codecs.\<close>

theorem relayed_call_answered:
  assumes "tw_open t" and "forward_task wc call_id task (Tcp t) = (Tcp t', Inr ())" and "call_id \<noteq> []"
    and "list_all (map_carried wc) [[(15, CText call_id), (5, CBytes (printed_task wc task))],
      [(15, CText call_id), (5, CBytes (printed_task wc (wk_handler w task)))]]"
    and "list_all (\<lambda>j. wc_utf8 wc (printed_task wc j) \<and> wc_parse_json wc (printed_task wc j) = Some j) [task, wk_handler w task]"
  shows "relay_worker_loop wc (concat (worker_loop wc w (last (tw_written t')))) t' =
    (t'\<lparr>tw_desk := (tw_desk t')\<lparr>dk_pending := removeAll call_id (dk_pending (tw_desk t')),
        dk_answers := dk_answers (tw_desk t') @ [(call_id, wk_handler w task)]\<rparr>\<rparr>, Inr ())"
proof -
  let ?call = "[(15, CText call_id), (5, CBytes (printed_task wc task))] :: (int \<times> cbor) list"
  let ?res = "[(15, CText call_id), (5, CBytes (printed_task wc (wk_handler w task)))] :: (int \<times> cbor) list"
  have c: "map_carried wc ?call" "map_carried wc ?res" using assms(4) by simp_all
  have t': "last (tw_written t') = relay_make_frame (CHR 0x05) (cbor_encode_int_map wc ?call)" "call_id \<in> set (dk_pending (tw_desk t'))"
    using assms(1,2) by (auto simp: await_call_def)
  have d: "cbor_decode_int_map wc (cbor_encode_int_map wc ?call) = Some (fold (\<lambda>(k, v) out. hput k v out) ?call [])"
    "cbor_decode_int_map wc (cbor_encode_int_map wc ?res) = Some (fold (\<lambda>(k, v) out. hput k v out) ?res [])"
    by (rule decode_encoded_map; use c in \<open>simp add: map_carried_def\<close>)+
  have eof: "worker_read_frame [] = None" "relay_read_frame [] = Inl ''early eof''"
    by (simp_all add: worker_read_frame_def relay_read_frame_def)
  have answer: "worker_answer wc w (cbor_encode_int_map wc ?call) = relay_make_frame (CHR 0x06) (cbor_encode_int_map wc ?res)"
    unfolding worker_answer_def d(1) Let_def option.case using assms(5) by simp
  have loop: "worker_loop wc w (last (tw_written t')) = [relay_make_frame (CHR 0x06) (cbor_encode_int_map wc ?res)]"
    unfolding t'(1) using worker_reads_carried [OF c(1), of "CHR 0x05" "[]"] answer eof
    by (simp add: worker_loop.simps [of wc w "relay_make_frame (CHR 0x05) (cbor_encode_int_map wc ?call)"] worker_loop.simps [of wc w "[]"])
  have dec: "wc_decode wc (cbor_encode_int_map wc ?res) = Inr (CMap (map (\<lambda>(k, v). (CInt k, v)) ?res))"
    using c(2) by (simp add: map_carried_def carries_def cbor_encode_int_map_def)
  have act: "worker_frame wc (CHR 0x06) (cbor_encode_int_map wc ?res) = CallResponse call_id (wk_handler w task)"
    unfolding worker_frame_def dec d(2) using assms(3,5) by (simp add: decode_lifecycle_response_def)
  show ?thesis
    unfolding loop using relay_reads_carried [OF c(2), of "CHR 0x06" "[]"] act t'(2) eof
    by (simp add: relay_worker_loop.simps [of wc "relay_make_frame (CHR 0x06) (cbor_encode_int_map wc ?res)"]
        relay_worker_loop.simps [of wc "[]"] worker_acts_def on_response_def forget_call_def)
qed

text \<open>A streaming call is not: the worker answers it as it answers every call, with a buffered response, which the relay looks for
  among the waiting calls and drops; the stream gets nothing and runs into its timeout.\<close>

lemma relayed_stream_unanswered:
  assumes "forward_stream wc call_id task (Tcp t) = Tcp t'" and "tw_open t" and "call_id \<noteq> []" and "call_id \<notin> set (dk_pending (tw_desk t))"
    and "es = [(2, CText (task_member task ''session_id'' call_id)), (15, CText call_id),
      (24, CText (task_member task ''task_id'' call_id)), (5, CBytes (printed_task wc task))]"
    and "list_all (map_carried wc) [es, [(15, CText call_id), (5, CBytes (printed_task wc (wk_handler w task)))]]"
    and "list_all (\<lambda>j. wc_utf8 wc (printed_task wc j) \<and> wc_parse_json wc (printed_task wc j) = Some j) [task, wk_handler w task]"
  shows "last (tw_written t') = relay_make_frame (CHR 0x05) (cbor_encode_int_map wc es) \<and>
    relay_worker_loop wc (worker_answer wc w (cbor_encode_int_map wc es)) t' = (t', Inr ())"
proof -
  let ?res = "[(15, CText call_id), (5, CBytes (printed_task wc (wk_handler w task)))] :: (int \<times> cbor) list"
  have c: "map_carried wc es" "map_carried wc ?res" using assms(6) by simp_all
  have d: "cbor_decode_int_map wc (cbor_encode_int_map wc es) = Some (fold (\<lambda>(k, v) out. hput k v out) es [])"
    "cbor_decode_int_map wc (cbor_encode_int_map wc ?res) = Some (fold (\<lambda>(k, v) out. hput k v out) ?res [])"
    by (rule decode_encoded_map; use c in \<open>simp add: map_carried_def assms(5)\<close>)+
  have answer: "worker_answer wc w (cbor_encode_int_map wc es) = relay_make_frame (CHR 0x06) (cbor_encode_int_map wc ?res)"
    unfolding worker_answer_def d(1) Let_def option.case using assms(7) by (simp add: assms(5))
  have dec: "wc_decode wc (cbor_encode_int_map wc ?res) = Inr (CMap (map (\<lambda>(k, v). (CInt k, v)) ?res))"
    using c(2) by (simp add: map_carried_def carries_def cbor_encode_int_map_def)
  have act: "worker_frame wc (CHR 0x06) (cbor_encode_int_map wc ?res) = CallResponse call_id (wk_handler w task)"
    unfolding worker_frame_def dec d(2) using assms(3,7) by (simp add: decode_lifecycle_response_def)
  have t': "call_id \<notin> set (dk_pending (tw_desk t'))" "last (tw_written t') = relay_make_frame (CHR 0x05) (cbor_encode_int_map wc es)"
    using assms(1,2,4,5) by (auto simp: Let_def register_stream_def)
  then show ?thesis
    unfolding answer using relay_reads_carried [OF c(2), of "CHR 0x06" "[]"] act
    by (simp add: relay_worker_loop.simps [of wc "relay_make_frame (CHR 0x06) (cbor_encode_int_map wc ?res)"]
        relay_worker_loop.simps [of wc "[]"] worker_acts_def on_response_def relay_read_frame_def [of "[]"])
qed

text \<open>The delays start at two seconds, at most double from one failure to the next, and stay between two seconds and a minute.\<close>

lemma reconnect_delays_bounded:
  "2 \<le> delay \<Longrightarrow> delay \<le> 60 \<Longrightarrow> list_all (\<lambda>d. 2 \<le> d \<and> d \<le> 60) (reconnect_delays delay outcomes)"
  by (induction outcomes arbitrary: delay) (auto simp: Let_def split: sum.split)

subsection \<open>Instances\<close>

definition sample_worker :: worker_client where
  "sample_worker = \<lparr>wk_worker_id = ''w'', wk_intent = ''i'', wk_models = [], wk_bind_ticket = None, wk_directory = None,
     wk_fetch_ticket = (\<lambda>_ _. None), wk_handler = (\<lambda>_. JObj []), wk_lossy = id, wk_show = (\<lambda>_. [])\<rparr>"

definition int_map :: "(int \<times> cbor) list \<Rightarrow> cbor" where
  "int_map es = CMap (map (\<lambda>(k, v). (CInt k, v)) es)"

definition sample_maps :: "(int \<times> cbor) list list" where
  "sample_maps = [(1, CInt 1)] # bind_fields sample_worker # ok_fields ''w'' 9484 # map (error_fields ''w'') bind_reasons"

lemma sample_maps_carried: "list_all (map_carried (table_codec (map int_map sample_maps))) sample_maps"
proof -
  have "length (map int_map sample_maps) \<le> 256" by (simp add: sample_maps_def bind_reasons_def)
  then show ?thesis unfolding list_all_iff map_carried_def
    by (auto intro!: table_codec_carries simp: int_map_def)
qed

theorem handshake_agrees_witness:
  "\<exists>r' out x. accept_worker (table_codec (map int_map sample_maps)) sample_relay_config (sample_bind_request [] 0)
     (worker_init (table_codec (map int_map sample_maps)) @ worker_bind (table_codec (map int_map sample_maps)) sample_worker @ [])
     (new_relay 30) = (r', out, x) \<and>
   ((\<exists>a. x = Inr (Some (a, [])) \<and> in_force ''w'' a r') \<or> (x = Inr None \<and> same_sessions (new_relay 30) r'))"
proof -
  let ?wc = "table_codec (map int_map sample_maps)"
  obtain r' out x where a: "accept_worker ?wc sample_relay_config (sample_bind_request [] 0)
     (worker_init ?wc @ worker_bind ?wc sample_worker @ []) (new_relay 30) = (r', out, x)" by (metis prod_cases3)
  have "list_all (map_carried ?wc) ([(1, CInt 1)] # bind_fields sample_worker # ok_fields (wk_worker_id sample_worker)
      (rc_http_port sample_relay_config) # map (error_fields (wk_worker_id sample_worker)) bind_reasons)"
    using sample_maps_carried unfolding sample_maps_def by (simp add: sample_worker_def sample_relay_config_def)
  from handshake_agrees [OF this _ _ a] show ?thesis using a
    by (auto simp: sample_worker_def sample_relay_config_def)
qed

definition sample_tcp :: tcp_worker where
  "sample_tcp = \<lparr>tw_worker_id = ''w'', tw_open = True, tw_written = [], tw_desk = new_desk\<rparr>"

definition sample_call_map :: "(int \<times> cbor) list" where
  "sample_call_map = [(15, CText ''c''), (5, CBytes ''{}'')]"

theorem relayed_call_answered_witness:
  "\<exists>t'. forward_task (table_codec [int_map sample_call_map]) ''c'' (JObj []) (Tcp sample_tcp) = (Tcp t', Inr ()) \<and>
     dk_answers (tw_desk (fst (relay_worker_loop (table_codec [int_map sample_call_map])
       (concat (worker_loop (table_codec [int_map sample_call_map]) sample_worker (last (tw_written t')))) t'))) = [(''c'', JObj [])]"
proof -
  let ?wc = "table_codec [int_map sample_call_map]"
  obtain t' where f: "forward_task ?wc ''c'' (JObj []) (Tcp sample_tcp) = (Tcp t', Inr ())" by (simp add: sample_tcp_def)
  have "map_carried ?wc sample_call_map" unfolding map_carried_def by (rule table_codec_carries) (simp_all add: int_map_def)
  then have c: "list_all (map_carried ?wc) [[(15, CText ''c''), (5, CBytes (printed_task ?wc (JObj [])))],
      [(15, CText ''c''), (5, CBytes (printed_task ?wc (wk_handler sample_worker (JObj []))))]]"
    by (simp add: sample_call_map_def printed_task_def)
  have "relay_worker_loop ?wc (concat (worker_loop ?wc sample_worker (last (tw_written t')))) t' =
    (t'\<lparr>tw_desk := (tw_desk t')\<lparr>dk_pending := removeAll ''c'' (dk_pending (tw_desk t')),
        dk_answers := dk_answers (tw_desk t') @ [(''c'', wk_handler sample_worker (JObj []))]\<rparr>\<rparr>, Inr ())"
    by (rule relayed_call_answered [OF _ f _ c]) (simp_all add: sample_tcp_def sample_worker_def)
  moreover have "dk_answers (tw_desk t') = []" using f by (auto simp: sample_tcp_def await_call_def new_desk_def)
  ultimately show ?thesis using f by (simp add: sample_worker_def)
qed

end
