(* ===== verification/Health.thy ===== *)
theory Health
  imports Json Text
begin

text \<open>
  What a provider knows of its own condition: \<^verbatim>\<open>src/runtime_health.rs\<close> (progress and readiness), \<^verbatim>\<open>src/backend_stability.rs\<close> with
  the drain guard of \<^verbatim>\<open>src/node.rs\<close> (whether the backend can take work), \<^verbatim>\<open>src/recovery.rs\<close> with the recovery check of the heartbeat
  loop in \<^verbatim>\<open>src/node.rs\<close> (whether to register again or to restart).  Times of the monotonic clock are in nanoseconds, wall-clock
  times in seconds.  Counters that count events of a process are unbounded here.
\<close>

subsection \<open>Runtime health\<close>

datatype node_lifecycle = Starting | Running | Stopping

datatype liveness = LiveStarting | Live | NotLive | Indeterminate

datatype readiness = Ready | Degraded | NotReady

datatype subsystem = SubHealthy | SubDegraded | SubRecovering | SubUnavailable | SubNotApplicable | SubUnknown

datatype reason_code =
    RStarting | RStopping | RuntimeProgressStale | SupervisorProgressStale | ProviderUnavailable | NoCapacity
  | RoutingUnavailable | TunnelRecovering | DirectoryUnavailable | DnsUnavailable | InternetUnavailable | StateUnknown

record classification_input =
  ci_lifecycle :: node_lifecycle
  ci_runtime_age_ms :: nat
  ci_runtime_stale_after_ms :: nat
  ci_supervisor_required :: bool
  ci_supervisor_age_ms :: nat
  ci_supervisor_stale_after_ms :: nat
  ci_provider :: subsystem
  ci_capacity_available :: bool
  ci_routing :: subsystem
  ci_directory :: subsystem
  ci_dns :: subsystem
  ci_internet :: subsystem
  ci_tunnel :: subsystem

definition when_reason :: "bool \<Rightarrow> reason_code \<Rightarrow> reason_code list" where
  "when_reason b r = (if b then [r] else [])"

definition classify_input :: "classification_input \<Rightarrow> liveness \<times> readiness \<times> reason_code list" where
  "classify_input i =
    (if ci_lifecycle i = Starting then (LiveStarting, NotReady, [RStarting])
     else if ci_runtime_age_ms i > ci_runtime_stale_after_ms i then (NotLive, NotReady, [RuntimeProgressStale])
     else if ci_supervisor_required i \<and> ci_supervisor_age_ms i > ci_supervisor_stale_after_ms i
     then (NotLive, NotReady, [SupervisorProgressStale])
     else if ci_lifecycle i = Stopping then (Live, NotReady, [RStopping])
     else let reasons =
            when_reason (ci_provider i = SubUnavailable) ProviderUnavailable @
            when_reason (\<not> ci_capacity_available i) NoCapacity @
            when_reason (ci_routing i = SubUnavailable) RoutingUnavailable @
            when_reason (ci_tunnel i = SubRecovering) TunnelRecovering @
            when_reason (ci_directory i = SubUnavailable) DirectoryUnavailable @
            when_reason (ci_dns i = SubUnavailable) DnsUnavailable @
            when_reason (ci_internet i = SubUnavailable) InternetUnavailable;
          not_ready = list_ex (\<lambda>r. r \<in> set [ProviderUnavailable, NoCapacity, RoutingUnavailable]) reasons
       in (Live, if not_ready then NotReady else if reasons = [] then Ready else Degraded, reasons))"

record health =
  hl_lifecycle :: node_lifecycle
  hl_runtime_sequence :: nat
  hl_supervisor_sequence :: nat
  hl_last_runtime :: nat
  hl_last_supervisor :: nat
  hl_supervisor_required :: bool
  hl_capacity_available :: bool
  hl_subsystems :: "(string, subsystem) hmap"
  hl_external :: "(string, subsystem) hmap"
  hl_snapshot_sequence :: nat

definition new_health :: "bool \<Rightarrow> nat \<Rightarrow> health" where
  "new_health required now =
     \<lparr>hl_lifecycle = Starting, hl_runtime_sequence = 0, hl_supervisor_sequence = 0, hl_last_runtime = now, hl_last_supervisor = now,
      hl_supervisor_required = required, hl_capacity_available = False,
      hl_subsystems = [(''provider'', SubUnknown), (''routing'', SubUnknown), (''tunnel'', SubUnknown)],
      hl_external = [(''directory'', SubUnknown), (''dns'', SubUnknown), (''internet'', SubUnknown)], hl_snapshot_sequence = 0\<rparr>"

datatype health_op =
    MarkRunning | MarkStopping | AdvanceRuntime nat | AdvanceSupervisor nat | SetSupervisorRequired bool
  | SetSubsystem string subsystem | SetExternal string subsystem

fun health_step :: "health_op \<Rightarrow> health \<Rightarrow> health" where
  "health_step MarkRunning s = s\<lparr>hl_lifecycle := Running, hl_capacity_available := True,
     hl_subsystems := hput ''routing'' SubHealthy (hput ''provider'' SubHealthy (hl_subsystems s))\<rparr>"
| "health_step MarkStopping s = s\<lparr>hl_lifecycle := Stopping\<rparr>"
| "health_step (AdvanceRuntime now) s = s\<lparr>hl_runtime_sequence := hl_runtime_sequence s + 1, hl_last_runtime := now\<rparr>"
| "health_step (AdvanceSupervisor now) s = s\<lparr>hl_supervisor_sequence := hl_supervisor_sequence s + 1, hl_last_supervisor := now\<rparr>"
| "health_step (SetSupervisorRequired b) s = s\<lparr>hl_supervisor_required := b\<rparr>"
| "health_step (SetSubsystem name v) s = s\<lparr>hl_subsystems := hput name v (hl_subsystems s)\<rparr>"
| "health_step (SetExternal name v) s = s\<lparr>hl_external := hput name v (hl_external s)\<rparr>"

definition RUNTIME_STALE_AFTER :: nat where
  "RUNTIME_STALE_AFTER = 30 * 10 ^ 9"

definition SUPERVISOR_STALE_AFTER :: nat where
  "SUPERVISOR_STALE_AFTER = 120 * 10 ^ 9"

definition to_ms :: "nat \<Rightarrow> nat" where
  "to_ms d = min (d div 10 ^ 6) (2 ^ 64 - 1)"

definition subsystem_of :: "(string, subsystem) hmap \<Rightarrow> string \<Rightarrow> subsystem" where
  "subsystem_of m name = unwrap_or (hget m name) SubUnknown"

text \<open>A snapshot; its schema version, process epoch, process id and timestamp are left out.\<close>

record progress_snapshot =
  ps_sequence :: nat
  ps_age_ms :: nat
  ps_stale_after_ms :: nat
  ps_required :: bool

record health_snapshot =
  hs_sequence :: nat
  hs_lifecycle :: node_lifecycle
  hs_liveness :: liveness
  hs_readiness :: readiness
  hs_runtime :: progress_snapshot
  hs_supervisor :: progress_snapshot
  hs_subsystems :: "(string, subsystem) hmap"
  hs_external_connectivity :: "(string, subsystem) hmap"
  hs_reason_codes :: "reason_code list"

definition snapshot_input :: "nat \<Rightarrow> health \<Rightarrow> classification_input" where
  "snapshot_input now s =
     \<lparr>ci_lifecycle = hl_lifecycle s, ci_runtime_age_ms = to_ms (now - hl_last_runtime s), ci_runtime_stale_after_ms = to_ms RUNTIME_STALE_AFTER,
      ci_supervisor_required = hl_supervisor_required s, ci_supervisor_age_ms = to_ms (now - hl_last_supervisor s),
      ci_supervisor_stale_after_ms = to_ms SUPERVISOR_STALE_AFTER, ci_provider = subsystem_of (hl_subsystems s) ''provider'',
      ci_capacity_available = hl_capacity_available s, ci_routing = subsystem_of (hl_subsystems s) ''routing'',
      ci_directory = subsystem_of (hl_external s) ''directory'', ci_dns = subsystem_of (hl_external s) ''dns'',
      ci_internet = subsystem_of (hl_external s) ''internet'', ci_tunnel = subsystem_of (hl_subsystems s) ''tunnel''\<rparr>"

definition snapshot :: "nat \<Rightarrow> health \<Rightarrow> health \<times> health_snapshot" where
  "snapshot now s =
    (let s = s\<lparr>hl_snapshot_sequence := hl_snapshot_sequence s + 1\<rparr>;
         (live, ready, reasons) = classify_input (snapshot_input now s)
     in (s, \<lparr>hs_sequence = hl_snapshot_sequence s, hs_lifecycle = hl_lifecycle s, hs_liveness = live, hs_readiness = ready,
       hs_runtime = \<lparr>ps_sequence = hl_runtime_sequence s, ps_age_ms = to_ms (now - hl_last_runtime s),
         ps_stale_after_ms = to_ms RUNTIME_STALE_AFTER, ps_required = True\<rparr>,
       hs_supervisor = \<lparr>ps_sequence = hl_supervisor_sequence s, ps_age_ms = to_ms (now - hl_last_supervisor s),
         ps_stale_after_ms = to_ms SUPERVISOR_STALE_AFTER, ps_required = hl_supervisor_required s\<rparr>,
       hs_subsystems = hl_subsystems s, hs_external_connectivity = hl_external s, hs_reason_codes = reasons\<rparr>))"

subsection \<open>Backend stability\<close>

record observation =
  ob_backend_state :: string
  ob_reason_class :: string
  ob_drain_until_s :: "int option"
  ob_observed_at_s :: int
  ob_diagnostics :: json

definition obs_ok :: "int \<Rightarrow> observation" where
  "obs_ok seen = \<lparr>ob_backend_state = ''ok'', ob_reason_class = ''ok'', ob_drain_until_s = None, ob_observed_at_s = seen, ob_diagnostics = JObj []\<rparr>"

definition obs_degraded :: "string \<Rightarrow> int \<Rightarrow> observation" where
  "obs_degraded reason seen = \<lparr>ob_backend_state = ''degraded'', ob_reason_class = reason, ob_drain_until_s = None,
     ob_observed_at_s = seen, ob_diagnostics = JObj []\<rparr>"

definition obs_draining :: "string \<Rightarrow> int \<Rightarrow> json \<Rightarrow> int \<Rightarrow> observation" where
  "obs_draining reason drain_until diagnostics seen = \<lparr>ob_backend_state = ''draining'', ob_reason_class = reason,
     ob_drain_until_s = Some drain_until, ob_observed_at_s = seen, ob_diagnostics = diagnostics\<rparr>"

definition retry_after_s_at :: "observation \<Rightarrow> int \<Rightarrow> int option" where
  "retry_after_s_at ob now =
    (case ob_drain_until_s ob of
       None \<Rightarrow> None
     | Some u \<Rightarrow> let remaining = u - now in if remaining \<le> 0 then None else Some (max remaining 1))"

definition is_draining :: "observation \<Rightarrow> int \<Rightarrow> bool" where
  "is_draining ob now \<longleftrightarrow> ob_backend_state ob = ''draining'' \<and> retry_after_s_at ob now \<noteq> None"

definition public_json :: "observation \<Rightarrow> int \<Rightarrow> json" where
  "public_json ob now =
    (let base = [(''backend_state'', JStr (ob_backend_state ob))];
         reason = [(''reason_class'', JStr (ob_reason_class ob))]
     in case retry_after_s_at ob now of
          None \<Rightarrow> JObj (base @ reason)
        | Some retry \<Rightarrow> JObj (base @ [(''drain_until'', json_of_i64 (unwrap_or (ob_drain_until_s ob) 0))] @ reason @
            [(''retry_after_s'', json_of_i64 retry)]))"

definition base_model :: "string \<Rightarrow> string" where
  "base_model s = takeWhile (\<lambda>c. c \<noteq> CHR '':'') s"

definition model_matches :: "string \<Rightarrow> string option \<Rightarrow> bool" where
  "model_matches candidate expected_model =
    (case expected_model of None \<Rightarrow> True | Some expected \<Rightarrow> candidate = expected \<or> base_model candidate = base_model expected)"

text \<open>\<open>now\<close> is the reading of the clock for the deadline, \<open>seen\<close> that for the observation.\<close>

definition parse_meshllm_models :: "json \<Rightarrow> string option \<Rightarrow> int \<Rightarrow> int \<Rightarrow> observation" where
  "parse_meshllm_models data expected_model now seen =
    (case Option.bind (json_get data ''data'') as_array of
       None \<Rightarrow> obs_draining ''backend_loading'' (now + 30) (JObj [(''ready'', JBool False)]) seen
     | Some models \<Rightarrow>
         let present = list_ex (\<lambda>name. model_matches name expected_model) (List.map_filter (\<lambda>m. get_str m ''id'') models)
         in if expected_model \<noteq> None \<and> \<not> present
            then obs_draining ''backend_loading'' (now + 30) (JObj [(''selected_model_ready'', JBool False)]) seen
            else obs_ok seen)"

definition json_count :: "nat \<Rightarrow> json" where
  "json_count n = JPos (of_nat n)"

definition parse_ollama_ps :: "json \<Rightarrow> string option \<Rightarrow> int \<Rightarrow> observation" where
  "parse_ollama_ps data expected_model seen =
    (case Option.bind (json_get data ''models'') as_array of
       None \<Rightarrow> obs_degraded ''observer_error'' seen
     | Some models \<Rightarrow>
         let names = List.map_filter (\<lambda>m. get_str m ''name'') models;
             loaded_expected = list_ex (\<lambda>n. model_matches n expected_model) names
         in if expected_model \<noteq> None \<and> \<not> loaded_expected
            then (obs_degraded ''backend_cold'' seen)\<lparr>ob_diagnostics :=
              JObj [(''expected_model_loaded'', JBool False), (''loaded_model_count'', json_count (length names))]\<rparr>
            else (obs_ok seen)\<lparr>ob_diagnostics := JObj [(''loaded_model_count'', json_count (length names))]\<rparr>)"

definition or_else :: "'a option \<Rightarrow> 'a option \<Rightarrow> 'a option" where
  "or_else x y = (case x of None \<Rightarrow> y | Some _ \<Rightarrow> x)"

text \<open>\<open>lower\<close> is \<^verbatim>\<open>str::to_lowercase\<close>.\<close>

definition norm_state :: "(string \<Rightarrow> string) \<Rightarrow> json \<Rightarrow> string" where
  "norm_state lower v = map (\<lambda>c. if c = CHR ''-'' then CHR ''_'' else c) (lower (trim (unwrap_or (as_str v) [])))"

definition lm_model_id :: "json \<Rightarrow> string" where
  "lm_model_id item =
     unwrap_or (Option.bind (or_else (or_else (json_get item ''id'') (json_get item ''model_key'')) (json_get item ''path'')) as_str) []"

definition lm_instances :: "json \<Rightarrow> json list" where
  "lm_instances item =
     unwrap_or (Option.bind (or_else (json_get item ''loaded_instances'') (json_get item ''loadedInstances'')) as_array) []"

definition lm_state :: "(string \<Rightarrow> string) \<Rightarrow> json \<Rightarrow> string" where
  "lm_state lower inst =
     norm_state lower (unwrap_or (or_else (or_else (json_get inst ''state'') (json_get inst ''status'')) (json_get inst ''load_status'')) JNull)"

definition LOADING_STATES :: "string list" where
  "LOADING_STATES = [''loading'', ''initializing'', ''starting'', ''warming'', ''warming_up'']"

definition UNSTABLE_STATES :: "string list" where
  "UNSTABLE_STATES = [''error'', ''failed'', ''crashed'', ''unhealthy'', ''oom'', ''out_of_memory'']"

record lm_seen =
  ls_expected :: bool
  ls_loaded_expected :: bool
  ls_loading :: bool
  ls_unstable :: bool
  ls_count :: nat

definition lm_instance :: "(string \<Rightarrow> string) \<Rightarrow> bool \<Rightarrow> json \<Rightarrow> lm_seen \<Rightarrow> lm_seen" where
  "lm_instance lower expected inst s =
    s\<lparr>ls_count := ls_count s + 1, ls_loaded_expected := ls_loaded_expected s \<or> expected,
      ls_loading := ls_loading s \<or> lm_state lower inst \<in> set LOADING_STATES,
      ls_unstable := ls_unstable s \<or> lm_state lower inst \<in> set UNSTABLE_STATES\<rparr>"

definition lm_item :: "(string \<Rightarrow> string) \<Rightarrow> string option \<Rightarrow> json \<Rightarrow> lm_seen \<Rightarrow> lm_seen" where
  "lm_item lower expected_model item s =
    (let expected = model_matches (lm_model_id item) expected_model
     in fold (lm_instance lower expected) (lm_instances item) (s\<lparr>ls_expected := ls_expected s \<or> expected\<rparr>))"

definition parse_lmstudio_models ::
  "(string \<Rightarrow> string) \<Rightarrow> json \<Rightarrow> string option \<Rightarrow> int \<Rightarrow> int \<Rightarrow> int \<Rightarrow> int \<Rightarrow> observation" where
  "parse_lmstudio_models lower data expected_model now loading_retry_s unstable_retry_s seen =
    (case Option.bind (or_else (json_get data ''data'') (json_get data ''models'')) as_array of
       None \<Rightarrow> obs_degraded ''observer_error'' seen
     | Some models \<Rightarrow>
         let s = fold (lm_item lower expected_model) models
               \<lparr>ls_expected = (expected_model = None), ls_loaded_expected = False, ls_loading = False, ls_unstable = False, ls_count = 0\<rparr>;
             counted = JObj [(''loaded_instance_count'', json_count (ls_count s))]
         in if ls_unstable s then obs_draining ''backend_unstable'' (now + unstable_retry_s) counted seen
            else if ls_loading s then obs_draining ''backend_loading'' (now + loading_retry_s) counted seen
            else if expected_model \<noteq> None \<and> (\<not> ls_expected s \<or> \<not> ls_loaded_expected s)
            then (obs_degraded ''backend_cold'' seen)\<lparr>ob_diagnostics :=
              JObj [(''expected_model_loaded'', JBool False), (''loaded_instance_count'', json_count (ls_count s))]\<rparr>
            else (obs_ok seen)\<lparr>ob_diagnostics := counted\<rparr>)"

text \<open>\<^verbatim>\<open>observe_backend_stability\<close>: a probe is the outcome of a GET, nothing on an error or a status that is not a success, otherwise
  the body if it is JSON.\<close>

definition strip_v1 :: "string \<Rightarrow> string" where
  "strip_v1 s = (if drop (length s - 3) s = ''/v1'' then take (length s - 3) s else s)"

definition observe_backend_stability ::
  "(string \<Rightarrow> string) \<Rightarrow> (string \<Rightarrow> json option option) \<Rightarrow> string \<Rightarrow> string option \<Rightarrow> string option \<Rightarrow> int \<Rightarrow> int \<Rightarrow> observation" where
  "observe_backend_stability lower probe backend_url backend expected_model now seen =
    (let base = trim_end_char (CHR ''/'') backend_url in
     if base = [] then obs_degraded ''observer_error'' seen
     else let root = strip_v1 base;
              flavor = map (\<lambda>c. if c = CHR ''-'' then CHR ''_'' else c) (lower (trim (unwrap_or backend [])));
              loading = obs_draining ''backend_loading'' (now + 30) (JObj [(''ready'', JBool False)]) seen
     in if flavor = ''meshllm'' then
          (if probe (root @ ''/readyz'') = None then loading
           else case probe (root @ ''/v1/models'') of
             Some (Some value) \<Rightarrow> parse_meshllm_models value expected_model now seen
           | _ \<Rightarrow> loading)
        else let ollama = (if flavor = ''ollama'' \<or> flavor = [] then probe (root @ ''/api/ps'') else None) in
          case ollama of
            Some (Some v) \<Rightarrow> parse_ollama_ps v expected_model seen
          | Some None \<Rightarrow> obs_degraded ''observer_error'' seen
          | None \<Rightarrow>
              if flavor = ''ollama'' then obs_degraded ''observer_error'' seen
              else if flavor \<in> set [[], ''lmstudio'', ''lm_studio'', ''lm_studio_server''] then
                (case probe (root @ ''/api/v1/models'') of
                   Some (Some v) \<Rightarrow> parse_lmstudio_models lower v expected_model now 30 60 seen
                 | Some None \<Rightarrow> obs_degraded ''observer_error'' seen
                 | None \<Rightarrow> if flavor \<noteq> [] then obs_degraded ''observer_error'' seen else obs_ok seen)
              else obs_ok seen)"

text \<open>\<^verbatim>\<open>set_backend_stability\<close>, with the readings at which the guard and the new observation are judged.\<close>

definition set_backend_stability :: "observation \<Rightarrow> int \<Rightarrow> int \<Rightarrow> observation \<Rightarrow> observation" where
  "set_backend_stability ob now now' guard = (if is_draining guard now \<and> \<not> is_draining ob now' then guard else ob)"

subsection \<open>Recovery\<close>

datatype recovery_state =
    RsHealthy | LocalUnhealthy | RsBackendAttention | RouteMismatch | TunnelCoolingDown | DirectoryAbsent | LimitedReach
  | RestartRecommended | RsUnknown

datatype recovery_action =
    NoAction | Reregister | WaitCooldown | MarkUnavailable | RestartSelf | OperatorEndpointNeeded | AttendBackend

datatype presence = Present | Absent | PresenceUnknown

definition effective_public_route_available :: "bool \<Rightarrow> bool \<Rightarrow> bool \<Rightarrow> bool" where
  "effective_public_route_available runtime_available route_needs_promotion relay_bound \<longleftrightarrow>
     runtime_available \<and> (relay_bound \<or> \<not> route_needs_promotion)"

definition node_registry_prefix :: "string \<Rightarrow> string" where
  "node_registry_prefix node_id =
    (if length node_id = 36 \<and>
        list_all (\<lambda>i. if i \<in> set [8, 13, 18, 23] then node_id ! i = CHR ''-'' else is_ascii_hexdigit (node_id ! i)) [0..<36]
     then take 8 node_id else node_id)"

definition classify_recovery :: "bool \<Rightarrow> bool \<Rightarrow> presence \<Rightarrow> u32 \<Rightarrow> u32 \<Rightarrow> bool \<Rightarrow> recovery_state \<times> recovery_action" where
  "classify_recovery local_health_ok public_available directory_presence consecutive_failures grace_checks backend_attention =
    (if \<not> local_health_ok then (LocalUnhealthy, RestartSelf)
     else if backend_attention then (RsBackendAttention, AttendBackend)
     else if \<not> public_available then
       (if consecutive_failures \<ge> grace_checks then (RestartRecommended, RestartSelf) else (LimitedReach, WaitCooldown))
     else case directory_presence of
       Present \<Rightarrow> (RsHealthy, NoAction)
     | Absent \<Rightarrow> if consecutive_failures \<ge> grace_checks then (RouteMismatch, RestartSelf) else (DirectoryAbsent, Reregister)
     | PresenceUnknown \<Rightarrow> (RsUnknown, NoAction))"

definition route_needs_promotion_from_registry_json :: "json \<Rightarrow> bool" where
  "route_needs_promotion_from_registry_json data =
    (let node = unwrap_or (json_get data ''node'') data;
         summary = unwrap_or (json_get node ''status_summary'') JNull
     in if get_str summary ''state'' = Some ''direct_unverified'' then True
        else let route_evidence = or_else (get_str node ''route_evidence'') (get_str summary ''evidence_source'');
                 routing_hint = or_else (get_str node ''routing_hint'') (get_str summary ''routing_hint'');
                 browser_usable = or_else (get_bool node ''browser_usable'') (get_bool summary ''browser_usable'')
             in routing_hint = Some ''http_ipv6'' \<and> route_evidence \<noteq> Some ''directory_observed'' \<and> browser_usable \<noteq> Some True)"

text \<open>\<^verbatim>\<open>registry_route_status\<close>: \<open>get\<close> is the GET, nothing on an error, or the status and the body if it is JSON.\<close>

definition registry_url :: "string \<Rightarrow> string \<Rightarrow> string" where
  "registry_url directory_url node_id = trim_end_char (CHR ''/'') directory_url @ ''/v1/registry/nodes/'' @ node_registry_prefix node_id"

definition route_status_of :: "(nat \<times> json option) option \<Rightarrow> presence \<times> bool" where
  "route_status_of answer =
    (case answer of
       None \<Rightarrow> (PresenceUnknown, False)
     | Some (status, body) \<Rightarrow>
         if 200 \<le> status \<and> status < 300
         then (Present, case body of Some data \<Rightarrow> route_needs_promotion_from_registry_json data | None \<Rightarrow> False)
         else if status = 404 then (Absent, False) else (PresenceUnknown, False))"

definition registry_route_status :: "(string \<Rightarrow> (nat \<times> json option) option) \<Rightarrow> string \<Rightarrow> string \<Rightarrow> presence \<times> bool" where
  "registry_route_status get directory_url node_id = route_status_of (get (registry_url directory_url node_id))"

definition registry_node_presence :: "(string \<Rightarrow> (nat \<times> json option) option) \<Rightarrow> string \<Rightarrow> string \<Rightarrow> presence" where
  "registry_node_presence get directory_url node_id =
    (case get (registry_url directory_url node_id) of
       None \<Rightarrow> PresenceUnknown
     | Some (status, _) \<Rightarrow> if 200 \<le> status \<and> status < 300 then Present else if status = 404 then Absent else PresenceUnknown)"

text \<open>The settings, from the values of the environment variables; \<^verbatim>\<open>str::parse\<close> takes a sign and digits.\<close>

definition parse_unsigned :: "nat \<Rightarrow> string \<Rightarrow> nat option" where
  "parse_unsigned bound s =
    (let ds = (if s \<noteq> [] \<and> hd s = CHR ''+'' then tl s else s) in
     if ds \<noteq> [] \<and> list_all is_ascii_digit ds \<and> dec_value ds < bound then Some (dec_value ds) else None)"

definition DEFAULT_RECOVERY_GRACE_CHECKS :: u32 where
  "DEFAULT_RECOVERY_GRACE_CHECKS = 3"

definition env_grace_checks :: "string option \<Rightarrow> u32" where
  "env_grace_checks var =
    (case Option.bind var (parse_unsigned (2 ^ 32)) of
       Some v \<Rightarrow> if v > 0 then of_nat v else DEFAULT_RECOVERY_GRACE_CHECKS
     | None \<Rightarrow> DEFAULT_RECOVERY_GRACE_CHECKS)"

definition supervised_recovery_enabled :: "string option \<Rightarrow> string option \<Rightarrow> bool" where
  "supervised_recovery_enabled iicp_supervised supervised_exit =
    (let supervised = (case iicp_supervised of Some v \<Rightarrow> to_ascii_lowercase v \<in> set [''1'', ''true'', ''yes''] | None \<Rightarrow> False);
         disabled = (case supervised_exit of Some v \<Rightarrow> to_ascii_lowercase v \<in> set [''0'', ''false'', ''no'', ''off''] | None \<Rightarrow> False)
     in supervised \<and> \<not> disabled)"

text \<open>One recovery check of the heartbeat loop: what it sees, and whether a registration it tries succeeds.\<close>

record recovery_check =
  rv_answer :: "(nat \<times> json option) option"
  rv_runtime_available :: bool
  rv_relay_bound :: bool
  rv_backend_attention :: bool
  rv_reregistered :: bool

definition check_route :: "recovery_check \<Rightarrow> bool" where
  "check_route c = effective_public_route_available (rv_runtime_available c) (snd (route_status_of (rv_answer c))) (rv_relay_bound c)"

definition check_presence :: "recovery_check \<Rightarrow> presence" where
  "check_presence c = fst (route_status_of (rv_answer c))"

definition count_failure :: "recovery_check \<Rightarrow> u32 \<Rightarrow> u32" where
  "count_failure c failures =
    (if \<not> check_route c \<or> check_presence c = Absent then (if failures = - 1 then - 1 else failures + 1)
     else if check_presence c = Present then 0 else failures)"

text \<open>The check: the new count of failures, the action, and whether the process exits.\<close>

definition recovery_check_step :: "u32 \<Rightarrow> bool \<Rightarrow> recovery_check \<Rightarrow> u32 \<Rightarrow> u32 \<times> recovery_action \<times> bool" where
  "recovery_check_step grace supervised c failures =
    (let failures = count_failure c failures;
         action = snd (classify_recovery True (check_route c) (check_presence c) failures grace (rv_backend_attention c))
     in (if action = Reregister \<and> rv_reregistered c then 0 else failures, action, action = RestartSelf \<and> supervised))"

text \<open>A run of checks, up to the one that exits.\<close>

primrec recovery_run :: "u32 \<Rightarrow> bool \<Rightarrow> recovery_check list \<Rightarrow> u32 \<Rightarrow> bool" where
  "recovery_run grace supervised [] failures = False"
| "recovery_run grace supervised (c # cs) failures =
    (case recovery_check_step grace supervised c failures of (failures', _, exits) \<Rightarrow>
       exits \<or> recovery_run grace supervised cs failures')"

subsection \<open>What health says\<close>

text \<open>The last time something of interest happened in a run, from the time it began.\<close>

definition last_runtime_of :: "nat \<Rightarrow> health_op list \<Rightarrow> nat" where
  "last_runtime_of start ops = fold (\<lambda>op t. case op of AdvanceRuntime now \<Rightarrow> now | _ \<Rightarrow> t) ops start"

definition last_supervisor_of :: "nat \<Rightarrow> health_op list \<Rightarrow> nat" where
  "last_supervisor_of start ops = fold (\<lambda>op t. case op of AdvanceSupervisor now \<Rightarrow> now | _ \<Rightarrow> t) ops start"

definition lifecycle_of :: "health_op list \<Rightarrow> node_lifecycle" where
  "lifecycle_of ops = fold (\<lambda>op l. case op of MarkRunning \<Rightarrow> Running | MarkStopping \<Rightarrow> Stopping | _ \<Rightarrow> l) ops Starting"

definition required_of :: "bool \<Rightarrow> health_op list \<Rightarrow> bool" where
  "required_of b ops = fold (\<lambda>op b. case op of SetSupervisorRequired b' \<Rightarrow> b' | _ \<Rightarrow> b) ops b"

lemma health_run:
  "hl_last_runtime (fold health_step ops s) = last_runtime_of (hl_last_runtime s) ops \<and>
   hl_last_supervisor (fold health_step ops s) = last_supervisor_of (hl_last_supervisor s) ops \<and>
   hl_supervisor_required (fold health_step ops s) = required_of (hl_supervisor_required s) ops \<and>
   hl_lifecycle (fold health_step ops s) =
     fold (\<lambda>op l. case op of MarkRunning \<Rightarrow> Running | MarkStopping \<Rightarrow> Stopping | _ \<Rightarrow> l) ops (hl_lifecycle s)"
proof (induction ops arbitrary: s)
  case (Cons op ops)
  show ?case using Cons.IH [of "health_step op s"]
    by (cases op) (simp_all add: last_runtime_of_def last_supervisor_of_def required_of_def)
qed (simp add: last_runtime_of_def last_supervisor_of_def required_of_def)

lemma stale_ms:
  "to_ms d > to_ms RUNTIME_STALE_AFTER \<longleftrightarrow> d \<ge> RUNTIME_STALE_AFTER + 10 ^ 6"
  "to_ms d > to_ms SUPERVISOR_STALE_AFTER \<longleftrightarrow> d \<ge> SUPERVISOR_STALE_AFTER + 10 ^ 6"
  by (auto simp: to_ms_def RUNTIME_STALE_AFTER_def SUPERVISOR_STALE_AFTER_def min_def)

lemma classify_liveness:
  "fst (classify_input i) = NotLive \<longleftrightarrow> ci_lifecycle i \<noteq> Starting \<and>
     (ci_runtime_age_ms i > ci_runtime_stale_after_ms i \<or>
      (ci_supervisor_required i \<and> ci_supervisor_age_ms i > ci_supervisor_stale_after_ms i))"
  by (simp add: classify_input_def Let_def)

lemma classify_ready:
  "fst (snd (classify_input i)) = Ready \<longleftrightarrow> ci_lifecycle i = Running \<and> fst (classify_input i) = Live \<and>
     ci_capacity_available i \<and> ci_tunnel i \<noteq> SubRecovering \<and>
     SubUnavailable \<notin> {ci_provider i, ci_routing i, ci_directory i, ci_dns i, ci_internet i}"
  by (cases "ci_lifecycle i") (auto simp: classify_input_def Let_def when_reason_def)

text \<open>A snapshot reports a node dead exactly when its history says so: it has left its start, and either the runtime made no
  progress for 30 seconds and a whole millisecond more, or the supervisor is required and made none for 120 seconds and
  a millisecond, counted from the last progress of each in the run, or from the start where there was none.  Whatever subsystems are set to has no
  influence on this.\<close>

theorem snapshot_liveness:
  "hs_liveness (snd (snapshot now (fold health_step ops (new_health required start)))) = NotLive \<longleftrightarrow>
     lifecycle_of ops \<noteq> Starting \<and>
     (now - last_runtime_of start ops \<ge> RUNTIME_STALE_AFTER + 10 ^ 6 \<or>
      (required_of required ops \<and> now - last_supervisor_of start ops \<ge> SUPERVISOR_STALE_AFTER + 10 ^ 6))"
  using health_run [of ops "new_health required start"]
  by (simp add: snapshot_def Let_def split_beta classify_liveness snapshot_input_def stale_ms lifecycle_of_def) (simp add: new_health_def)

subsection \<open>When a node restarts\<close>

definition check_healthy :: "recovery_check \<Rightarrow> bool" where
  "check_healthy c \<longleftrightarrow> check_route c \<and> check_presence c = Present"

definition check_bad :: "recovery_check \<Rightarrow> bool" where
  "check_bad c \<longleftrightarrow> \<not> check_route c \<or> check_presence c = Absent"

lemma count_failure_le: "unat (count_failure c f) \<le> (if check_healthy c then 0 else unat f + (if check_bad c then 1 else 0))"
proof -
  have "unat (f + 1) \<le> unat f + 1" using unat_word_ariths(1) [of f 1] by (simp add: mod_less_eq_dividend)
  moreover have "unat (- 1 :: u32) \<le> unat f + 1" if "f = - 1" using that by simp
  ultimately show ?thesis by (auto simp: count_failure_def check_healthy_def check_bad_def)
qed

lemma check_exit:
  assumes "recovery_check_step grace supervised c f = (f', action, True)"
  shows "supervised \<and> check_bad c \<and> \<not> rv_backend_attention c \<and> grace \<le> count_failure c f"
  using assms by (auto simp: recovery_check_step_def classify_recovery_def check_bad_def Let_def split: if_splits presence.splits)

lemma check_next:
  assumes "recovery_check_step grace supervised c f = (f', action, b)"
  shows "unat f' \<le> unat (count_failure c f)"
  using assms by (cases "action = Reregister \<and> rv_reregistered c") (auto simp: recovery_check_step_def Let_def)

text \<open>A stretch of checks none of which was healthy, ending with a bad one that has the backend in order.\<close>

definition unhealthy_stretch :: "recovery_check list \<Rightarrow> bool" where
  "unhealthy_stretch cs \<longleftrightarrow> cs \<noteq> [] \<and> list_all (\<lambda>c. \<not> check_healthy c) cs \<and> check_bad (last cs) \<and> \<not> rv_backend_attention (last cs)"

lemma recovery_run_stretch:
  "recovery_run grace supervised cs f \<Longrightarrow> supervised \<and>
     ((\<exists>seg post. cs = seg @ post \<and> unhealthy_stretch seg \<and> unat grace \<le> unat f + length (filter check_bad seg)) \<or>
      (\<exists>pre seg post. cs = pre @ seg @ post \<and> unhealthy_stretch seg \<and> unat grace \<le> length (filter check_bad seg)))"
proof (induction cs arbitrary: f)
  case (Cons c cs)
  obtain f' action b where s: "recovery_check_step grace supervised c f = (f', action, b)" by (metis prod_cases3)
  note le = count_failure_le [of c f] and nxt = check_next [OF s]
  show ?case
  proof (cases b)
    case True
    have e: "supervised \<and> check_bad c \<and> \<not> rv_backend_attention c \<and> grace \<le> count_failure c f"
      using check_exit [of grace supervised c f f' action] s True by simp
    have "\<not> check_healthy c" using e by (auto simp: check_healthy_def check_bad_def)
    then have "unhealthy_stretch [c] \<and> unat grace \<le> unat f + length (filter check_bad [c])"
      using e le by (auto simp: unhealthy_stretch_def word_le_nat_alt)
    then show ?thesis using e by (metis append_Cons append_Nil)
  next
    case False
    with Cons.prems s have "recovery_run grace supervised cs f'" by simp
    from Cons.IH [OF this] have sup: supervised and
      or: "(\<exists>seg post. cs = seg @ post \<and> unhealthy_stretch seg \<and> unat grace \<le> unat f' + length (filter check_bad seg)) \<or>
        (\<exists>pre seg post. cs = pre @ seg @ post \<and> unhealthy_stretch seg \<and> unat grace \<le> length (filter check_bad seg))" by auto
    from or show ?thesis
    proof (elim disjE exE conjE)
      fix seg post assume c: "cs = seg @ post" "unhealthy_stretch seg" "unat grace \<le> unat f' + length (filter check_bad seg)"
      show ?thesis
      proof (cases "check_healthy c")
        case True
        with le nxt c(3) have "unat grace \<le> length (filter check_bad seg)" by simp
        then show ?thesis using sup c by (metis append_Cons append_Nil)
      next
        case False
        have "unhealthy_stretch (c # seg)" using c(2) False by (auto simp: unhealthy_stretch_def)
        moreover have "unat grace \<le> unat f + length (filter check_bad (c # seg))" using c(3) le nxt False by (simp split: if_splits)
        ultimately show ?thesis using sup c(1) by (metis append_Cons)
      qed
    next
      fix pre seg post assume "cs = pre @ seg @ post" "unhealthy_stretch seg" "unat grace \<le> length (filter check_bad seg)"
      then show ?thesis using sup by (metis append_Cons)
    qed
  qed
qed simp

text \<open>C38.  A node restarts itself for recovery only after its grace: when a run of recovery checks makes the process exit, it is
  supervised, and there was a stretch of checks without a single healthy one, with at least as many bad ones as the grace
  allows, that ended with a bad check while the backend needed no attention.  A check that cannot tell neither counts nor
  resets.\<close>

theorem restart_needs_grace:
  assumes "recovery_run grace supervised cs 0"
  shows "supervised \<and> (\<exists>pre seg post. cs = pre @ seg @ post \<and> unhealthy_stretch seg \<and> unat grace \<le> length (filter check_bad seg))"
proof -
  have "supervised" using recovery_run_stretch [OF assms] by blast
  moreover have "\<exists>pre seg post. cs = pre @ seg @ post \<and> unhealthy_stretch seg \<and> unat grace \<le> length (filter check_bad seg)"
    using recovery_run_stretch [OF assms] by (metis append_Nil add_0 unat_0)
  ultimately show ?thesis by blast
qed

definition sample_check :: "(nat \<times> json option) option \<Rightarrow> recovery_check" where
  "sample_check a = \<lparr>rv_answer = a, rv_runtime_available = True, rv_relay_bound = False, rv_backend_attention = False, rv_reregistered = False\<rparr>"

theorem restart_needs_grace_witness:
  "let cs = [sample_check (Some (404, None)), sample_check None, sample_check (Some (404, None))] in
   recovery_run 2 True cs 0 \<and>
   (\<exists>pre seg post. cs = pre @ seg @ post \<and> unhealthy_stretch seg \<and> unat (2 :: u32) \<le> length (filter check_bad seg))"
proof -
  let ?cs = "[sample_check (Some (404, None)), sample_check None, sample_check (Some (404, None))]"
  have "recovery_run 2 True ?cs 0"
    by (simp add: recovery_check_step_def classify_recovery_def count_failure_def check_route_def check_presence_def sample_check_def
        route_status_of_def effective_public_route_available_def Let_def word_le_nat_alt)
  from restart_needs_grace [OF this] this show ?thesis by (simp add: Let_def)
qed

text \<open>The drain guard: an observation that calls for draining stands until its deadline, whatever healthy observations follow.\<close>

lemma drain_held:
  assumes "is_draining guard now" and "list_all (\<lambda>(ob, t, t'). t \<le> now \<and> \<not> is_draining ob t') obs"
  shows "fold (\<lambda>(ob, t, t') g. set_backend_stability ob t t' g) obs guard = guard"
proof -
  have early: "is_draining guard t" if "t \<le> now" for t
    using assms(1) that by (auto simp: is_draining_def retry_after_s_at_def Let_def split: option.splits if_splits)
  show ?thesis using assms(2) by (induction obs) (auto simp: set_backend_stability_def early)
qed

text \<open>A snapshot says ready only of a running, live node with capacity and nothing unavailable.\<close>

lemma snapshot_ready:
  "hs_readiness (snd (snapshot now s)) = Ready \<Longrightarrow>
     hl_lifecycle s = Running \<and> hl_capacity_available s \<and> subsystem_of (hl_subsystems s) ''provider'' \<noteq> SubUnavailable \<and>
     subsystem_of (hl_subsystems s) ''routing'' \<noteq> SubUnavailable \<and> subsystem_of (hl_external s) ''directory'' \<noteq> SubUnavailable"
  by (auto simp: snapshot_def Let_def split_beta classify_ready snapshot_input_def)

text \<open>The two readers of the registry agree on presence, and the grace is never zero, so that a restart takes at least one
  bad check.\<close>

lemma registry_readers_agree: "registry_node_presence get d n = fst (registry_route_status get d n)"
  by (auto simp: registry_node_presence_def registry_route_status_def route_status_of_def split: option.split prod.split)

lemma env_grace_positive: "env_grace_checks var > 0"
  by (auto simp: env_grace_checks_def DEFAULT_RECOVERY_GRACE_CHECKS_def parse_unsigned_def Let_def word_less_nat_alt unat_of_nat
      split: option.split bind_splits if_splits)

end
