(* ===== verification/Capability.thy ===== *)
theory Capability
  imports Json Text "HOL-Library.Sublist" "HOL-Library.Char_ord" "HOL-Library.List_Lexorder"
begin

text \<open>
  What a provider offers and what it lets a caller run: \<^verbatim>\<open>src/effective_capability.rs\<close> (advertisements of complete service variants,
  the check of an advertisement, and the matcher of a request against it), \<^verbatim>\<open>src/mcp_policy.rs\<close> (the risk class of a tool and
  the controls a dangerous one needs) and \<^verbatim>\<open>src/cip_policy.rs\<close> (the roles and the slots of cooperative inference).  Limit values are finite, as they are in JSON, so they are \<^typ>\<open>rat\<close> here; the reading of
  RFC 3339 timestamps is the parameter \<open>rfc3339\<close>, \<^verbatim>\<open>str::to_lowercase\<close> the parameter \<open>lower\<close>.
\<close>

subsection \<open>Advertisements and requests\<close>

record capability_limit =
  cl_value :: rat
  cl_unit :: string

record claim_provenance =
  cp_source :: string
  cp_observed_at :: "string option"
  cp_valid_until :: "string option"
  cp_evidence_ref :: "string option"

record effective_capability =
  ec_intent :: string
  ec_version :: "string option"
  ec_phase :: "u32 option"
  ec_variant_id :: "string option"
  ec_models :: "string list"
  ec_max_tokens :: "u32 option"
  ec_input_modalities :: "string list"
  ec_output_modalities :: "string list"
  ec_features :: "string list"
  ec_execution_capabilities :: "string list"
  ec_limits :: "(string, capability_limit) hmap"
  ec_supported_profiles :: "string list"
  ec_claim_provenance :: "claim_provenance option"
  ec_extensions :: "(string, bool \<times> json) hmap"

record capability_requirement =
  cr_class :: string
  cr_id :: string

record limit_requirement =
  lr_id :: string
  lr_operator :: string
  lr_value :: rat
  lr_unit :: string

record capability_requirements =
  cq_schema_version :: string
  cq_intent :: string
  cq_requires :: "capability_requirement list"
  cq_prefers :: "capability_requirement list"
  cq_limits :: "limit_requirement list"

record capability_match =
  em_eligible :: bool
  em_variant_ids :: "string option list"
  em_preference_unavailable :: bool
  em_refusal :: "string option"
  em_preserved_extensions :: "string list"

subsection \<open>The check of an advertisement\<close>

text \<open>The checks of one variant after that for its identity, each the first that fails.\<close>

definition check_variant :: "(string \<Rightarrow> int option) \<Rightarrow> effective_capability \<Rightarrow> string option" where
  "check_variant rfc3339 c =
    (case List.find (\<lambda>(_, l). cl_value l < 0 \<or> cl_unit l \<notin> set [''tokens'', ''items'', ''bytes'', ''milliseconds'', ''dimensions'']) (ec_limits c) of
       Some (_, l) \<Rightarrow> Some (if cl_value l < 0 then ''limit value must be a non-negative finite number'' else ''limit unit is unsupported'')
     | None \<Rightarrow>
         case ec_claim_provenance c of
           None \<Rightarrow> None
         | Some p \<Rightarrow>
             if cp_source p \<notin> set [''heuristic_fallback'', ''operator_assertion'', ''provider_metadata'', ''runtime_introspection'', ''conformance_probe'']
             then Some ''claim provenance source is unsupported''
             else if list_ex (\<lambda>t. case t of Some s \<Rightarrow> rfc3339 s = None | None \<Rightarrow> False) [cp_observed_at p, cp_valid_until p]
             then Some ''claim provenance timestamp must be RFC 3339''
             else None)"

fun validate_variants :: "(string \<Rightarrow> int option) \<Rightarrow> (string \<times> string option) list \<Rightarrow> effective_capability list \<Rightarrow> string option" where
  "validate_variants rfc3339 seen [] = None"
| "validate_variants rfc3339 seen (c # cs) =
    (if ec_intent c = [] then Some ''intent is required''
     else if (ec_intent c, ec_variant_id c) \<in> set seen then Some ''effective capability variants must be unique''
     else case check_variant rfc3339 c of
       Some e \<Rightarrow> Some e
     | None \<Rightarrow> validate_variants rfc3339 ((ec_intent c, ec_variant_id c) # seen) cs)"

definition validate_advertisement :: "(string \<Rightarrow> int option) \<Rightarrow> string \<Rightarrow> effective_capability list \<Rightarrow> string + unit" where
  "validate_advertisement rfc3339 schema_version capabilities =
    (if schema_version \<noteq> ''1.0.0'' then Inl ''unsupported effective capability schema_version''
     else if capabilities = [] then Inl ''capabilities must be non-empty''
     else case validate_variants rfc3339 [] capabilities of Some e \<Rightarrow> Inl e | None \<Rightarrow> Inr ())"

definition resolve_effective_capabilities ::
  "effective_capability list \<Rightarrow> effective_capability list \<Rightarrow> effective_capability list \<Rightarrow> string + effective_capability list" where
  "resolve_effective_capabilities explicit introspected heuristic =
    (if explicit \<noteq> [] then Inr explicit
     else if introspected \<noteq> [] then Inr introspected
     else if list_ex (\<lambda>c. map_option cp_source (ec_claim_provenance c) \<noteq> Some ''heuristic_fallback'') heuristic
     then Inl ''heuristic capability evidence must be labelled heuristic_fallback''
     else Inr heuristic)"

subsection \<open>The matcher\<close>

definition known_requirement :: "(string, string list) hmap \<Rightarrow> capability_requirement \<Rightarrow> bool" where
  "known_requirement vocabulary r = (case hget vocabulary (cr_class r) of Some vs \<Rightarrow> cr_id r \<in> set vs | None \<Rightarrow> False)"

definition cap_values :: "effective_capability \<Rightarrow> string \<Rightarrow> string list option" where
  "cap_values c k =
    (if k = ''input_modality'' then Some (ec_input_modalities c)
     else if k = ''output_modality'' then Some (ec_output_modalities c)
     else if k = ''feature'' then Some (ec_features c)
     else if k = ''execution_capability'' then Some (ec_execution_capabilities c)
     else if k = ''profile'' then Some (ec_supported_profiles c)
     else None)"

definition supports :: "effective_capability \<Rightarrow> capability_requirement list \<Rightarrow> bool" where
  "supports c rs = list_all (\<lambda>r. case cap_values c (cr_class r) of Some vs \<Rightarrow> cr_id r \<in> set vs | None \<Rightarrow> False) rs"

definition fresh_claim :: "(string \<Rightarrow> int option) \<Rightarrow> effective_capability \<Rightarrow> int \<Rightarrow> bool" where
  "fresh_claim rfc3339 c evaluated_at =
    (case Option.bind (Option.bind (ec_claim_provenance c) cp_valid_until) rfc3339 of Some until \<Rightarrow> until \<ge> evaluated_at | None \<Rightarrow> True)"

definition limits_match :: "effective_capability \<Rightarrow> limit_requirement list \<Rightarrow> bool" where
  "limits_match c rs =
    list_all (\<lambda>r. case hget (ec_limits c) (lr_id r) of
        None \<Rightarrow> False
      | Some a \<Rightarrow> cl_unit a = lr_unit r \<and>
          (if lr_operator r = ''gte'' then cl_value a \<ge> lr_value r
           else if lr_operator r = ''lte'' then cl_value a \<le> lr_value r
           else lr_operator r = ''eq'' \<and> cl_value a = lr_value r)) rs"

definition cap_refusal :: "string \<Rightarrow> capability_match" where
  "cap_refusal code = \<lparr>em_eligible = False, em_variant_ids = [], em_preference_unavailable = False, em_refusal = Some code, em_preserved_extensions = []\<rparr>"

text \<open>The loop over the requirements: the refusal of the first that is unknown or denied.\<close>

fun refused_requirement :: "(string, string list) hmap \<Rightarrow> capability_requirement list \<Rightarrow> capability_requirement list \<Rightarrow> string option" where
  "refused_requirement vocabulary denials [] = None"
| "refused_requirement vocabulary denials (r # rs) =
    (if \<not> known_requirement vocabulary r then Some ''required_capability_unknown''
     else if r \<in> set denials then Some ''capability_policy_denied''
     else refused_requirement vocabulary denials rs)"

definition match_effective_capabilities ::
  "(string \<Rightarrow> int option) \<Rightarrow> effective_capability list \<Rightarrow> capability_requirements \<Rightarrow> (string, string list) hmap \<Rightarrow> int \<Rightarrow>
   capability_requirement list \<Rightarrow> capability_match" where
  "match_effective_capabilities rfc3339 capabilities request vocabulary evaluated_at denials =
    (case refused_requirement vocabulary denials (cq_requires request) of
       Some code \<Rightarrow> cap_refusal code
     | None \<Rightarrow>
    (let supporting = filter (\<lambda>c. ec_intent c = cq_intent request \<and> supports c (cq_requires request)) capabilities in
     if supporting = [] then cap_refusal ''required_capability_unsupported''
     else let current = filter (\<lambda>c. fresh_claim rfc3339 c evaluated_at) supporting in
     if current = [] then cap_refusal ''required_capability_stale''
     else let candidates = filter (\<lambda>c. limits_match c (cq_limits request)) current in
     if candidates = [] then cap_refusal ''capability_limit_unsatisfied''
     else \<lparr>em_eligible = True, em_variant_ids = map ec_variant_id candidates,
       em_preference_unavailable = list_ex (\<lambda>p. \<not> known_requirement vocabulary p \<or>
         \<not> list_ex (\<lambda>c. case cap_values c (cr_class p) of Some vs \<Rightarrow> cr_id p \<in> set vs | None \<Rightarrow> False) candidates) (cq_prefers request),
       em_refusal = None,
       em_preserved_extensions = sort (remdups (concat (map (\<lambda>c. map fst (ec_extensions c)) candidates)))\<rparr>))"

subsection \<open>Tool risk\<close>

text \<open>The characters of a UTF-8 string: a byte and the continuation bytes that follow it.\<close>

definition utf8_continuation :: "char \<Rightarrow> bool" where
  "utf8_continuation c \<longleftrightarrow> (128 :: nat) \<le> of_char c \<and> of_char c < (192 :: nat)"

lemma dropWhile_shorter [termination_simp]: "length (dropWhile P xs) < Suc (length xs)"
  by (simp add: length_dropWhile_le less_Suc_eq_le)

fun utf8_chars :: "string \<Rightarrow> string list" where
  "utf8_chars [] = []"
| "utf8_chars (c # cs) = (c # takeWhile utf8_continuation cs) # utf8_chars (dropWhile utf8_continuation cs)"

definition safe_char :: "string \<Rightarrow> char" where
  "safe_char ch = (case ch of [c] \<Rightarrow> if is_ascii_alphanumeric c \<or> c \<in> set ''_:-'' then c else CHR ''_'' | _ \<Rightarrow> CHR ''_'')"

definition RISK_KEYWORDS :: "(string \<times> string list) list" where
  "RISK_KEYWORDS =
    [(''shell_exec'', [''bash'', ''shell'', ''exec'', ''run_command'', ''command'', ''eval'', ''python_exec'']),
     (''data_read'', [''read_document'', ''query_database'', ''list_resource'', ''dataset_read'', ''record_lookup'']),
     (''file_read'', [''read_file'', ''list_dir'', ''cat'', ''open_file'', ''file_read'', ''list_files'']),
     (''file_write'', [''write_file'', ''delete_file'', ''remove_file'', ''edit_file'', ''save_file'', ''mkdir'', ''rmdir'']),
     (''network_fetch'', [''fetch'', ''crawl'', ''http'', ''web_request'', ''search_web'', ''url'']),
     (''browser_control'', [''browser'', ''computer_use'', ''click'', ''type'', ''screenshot'', ''navigate'']),
     (''credential_access'', [''secret'', ''credential'', ''token'', ''ssh_key'', ''wallet'', ''password'']),
     (''system_control'', [''systemctl'', ''launchctl'', ''service_restart'', ''install_package'', ''firewall'', ''reboot'', ''shutdown'']),
     (''physical_world'', [''robot'', ''drone'', ''actuator'', ''iot_control'', ''medical_device'', ''industrial_control'']),
     (''regulated_decision'', [''credit_score'', ''hire'', ''employment'', ''benefit_eligibility'', ''diagnose'', ''triage_patient''])]"

definition tool_risk_label :: "(string \<Rightarrow> string) \<Rightarrow> string \<Rightarrow> string" where
  "tool_risk_label lower tool_name =
    (let safe = map safe_char (utf8_chars (lower tool_name)) in
     case List.find (\<lambda>(_, needles). list_ex (\<lambda>n. safe = n \<or> sublist n safe) needles) RISK_KEYWORDS of
       Some (label, _) \<Rightarrow> label
     | None \<Rightarrow> ''benign_read'')"

record mcp_tool_policy =
  mt_allow_dangerous_tools :: bool
  mt_authz_policy :: string
  mt_sandbox_profile :: string
  mt_audit_redaction :: bool

definition dangerous_ready :: "(string \<Rightarrow> string) \<Rightarrow> mcp_tool_policy \<Rightarrow> bool" where
  "dangerous_ready lower p \<longleftrightarrow>
     mt_allow_dangerous_tools p \<and> trim (mt_authz_policy p) \<noteq> [] \<and>
     lower (trim (mt_sandbox_profile p)) \<in> set [''1'', ''true'', ''strict'', ''container'', ''sandbox''] \<and> mt_audit_redaction p"

definition tool_allowed :: "(string \<Rightarrow> string) \<Rightarrow> mcp_tool_policy \<Rightarrow> string \<Rightarrow> bool" where
  "tool_allowed lower p tool_name \<longleftrightarrow> tool_risk_label lower tool_name = ''benign_read'' \<or> dangerous_ready lower p"

definition tool_receipt :: "(string \<Rightarrow> string) \<Rightarrow> mcp_tool_policy \<Rightarrow> string \<Rightarrow> string \<Rightarrow> nat \<Rightarrow> json" where
  "tool_receipt lower p tool_name decision argument_count =
     JObj [(''argument_content'', JStr ''excluded''),
       (''argument_count'', JPos (of_nat argument_count)),
       (''audit_redacted'', JBool (mt_audit_redaction p)),
       (''authz_policy'', if mt_authz_policy p = [] then JNull else JStr (concat (take 96 (utf8_chars (mt_authz_policy p))))),
       (''decision'', JStr decision),
       (''sandbox_profile'', if mt_sandbox_profile p = [] then JNull else JStr (concat (take 32 (utf8_chars (mt_sandbox_profile p))))),
       (''tool_name'', JStr (take 96 (map safe_char (utf8_chars tool_name)))),
       (''tool_risk'', JStr (tool_risk_label lower tool_name))]"

subsection \<open>Cooperative inference policy\<close>

text \<open>The policy of \<^verbatim>\<open>src/cip_policy.rs\<close>.  \<^verbatim>\<open>usize\<close> is 64 bits wide; the compare-and-swap loop of \<^verbatim>\<open>try_acquire_cip_slot\<close> takes effect at the
  exchange that succeeds, or at the load that finds the gate full, and is one step here.\<close>

record cip_policy =
  ci_enabled :: bool
  ci_allow_coordinator :: bool
  ci_allow_worker :: bool
  ci_max_replicas :: u64
  ci_max_worker_timeout_ms :: u32
  ci_max_concurrent_remote :: u64
  ci_allow_tool_execution :: bool
  ci_in_flight :: u64

definition new_cip_policy :: "bool \<Rightarrow> bool \<Rightarrow> bool \<Rightarrow> u64 \<Rightarrow> u32 \<Rightarrow> u64 \<Rightarrow> bool \<Rightarrow> cip_policy" where
  "new_cip_policy enabled coordinator worker replicas timeout_ms concurrent tools =
     \<lparr>ci_enabled = enabled, ci_allow_coordinator = coordinator, ci_allow_worker = worker, ci_max_replicas = max replicas 1,
      ci_max_worker_timeout_ms = min (max timeout_ms 1) 60000, ci_max_concurrent_remote = max concurrent 1,
      ci_allow_tool_execution = tools, ci_in_flight = 0\<rparr>"

definition default_cip_policy :: cip_policy where
  "default_cip_policy = new_cip_policy False False False 3 30000 2 False"

definition permits_intent :: "cip_policy \<Rightarrow> string \<Rightarrow> bool" where
  "permits_intent p intent =
    (let segments = split_on (CHR '':'') intent; domain = (if 3 < length segments then segments ! 3 else [])
     in ci_allow_tool_execution p \<or> domain \<noteq> ''tool'')"

definition check_coordinator :: "cip_policy \<Rightarrow> bool" where
  "check_coordinator p \<longleftrightarrow> ci_enabled p \<and> ci_allow_coordinator p"

definition check_worker :: "cip_policy \<Rightarrow> bool" where
  "check_worker p \<longleftrightarrow> ci_enabled p \<and> ci_allow_worker p"

definition try_acquire_cip_slot :: "cip_policy \<Rightarrow> cip_policy \<times> bool" where
  "try_acquire_cip_slot p =
    (if ci_in_flight p \<ge> ci_max_concurrent_remote p then (p, False) else (p\<lparr>ci_in_flight := ci_in_flight p + 1\<rparr>, True))"

definition release_cip_slot :: "cip_policy \<Rightarrow> cip_policy" where
  "release_cip_slot p = p\<lparr>ci_in_flight := ci_in_flight p - 1\<rparr>"

definition as_register_policy_block :: "cip_policy \<Rightarrow> json option" where
  "as_register_policy_block p =
    (if \<not> ci_enabled p then None
     else Some (JObj [(''allow_remote_inference'', JBool (ci_allow_worker p)), (''allow_tool_execution'', JBool (ci_allow_tool_execution p))]))"

subsection \<open>What the matcher promises\<close>

text \<open>A variant that meets a request on its own.\<close>

definition satisfies :: "(string \<Rightarrow> int option) \<Rightarrow> capability_requirements \<Rightarrow> int \<Rightarrow> effective_capability \<Rightarrow> bool" where
  "satisfies rfc3339 request evaluated_at c \<longleftrightarrow>
     ec_intent c = cq_intent request \<and> supports c (cq_requires request) \<and> fresh_claim rfc3339 c evaluated_at \<and> limits_match c (cq_limits request)"

lemma refused_requirement_None:
  "refused_requirement vocabulary denials rs = None \<longleftrightarrow> (\<forall>r \<in> set rs. known_requirement vocabulary r \<and> r \<notin> set denials)"
  by (induction rs) auto

lemma match_exact:
  "em_variant_ids (match_effective_capabilities rfc3339 caps request vocabulary t denials) =
     (if \<forall>r \<in> set (cq_requires request). known_requirement vocabulary r \<and> r \<notin> set denials
      then map ec_variant_id (filter (satisfies rfc3339 request t) caps) else [])"
proof -
  have f: "filter (\<lambda>c. limits_match c (cq_limits request)) (filter (\<lambda>c. fresh_claim rfc3339 c t)
      (filter (\<lambda>c. ec_intent c = cq_intent request \<and> supports c (cq_requires request)) caps)) = filter (satisfies rfc3339 request t) caps"
    unfolding filter_filter by (rule filter_cong) (auto simp: satisfies_def)
  show ?thesis
  proof (cases "refused_requirement vocabulary denials (cq_requires request)")
    case None
    then show ?thesis
      unfolding refused_requirement_None f [symmetric]
      using None by (simp add: match_effective_capabilities_def cap_refusal_def Let_def del: filter_filter)
  next
    case (Some e)
    have no: "\<not> (\<forall>r \<in> set (cq_requires request). known_requirement vocabulary r \<and> r \<notin> set denials)"
      using Some refused_requirement_None [of vocabulary denials "cq_requires request"] by (simp del: not_None_eq)
    show ?thesis unfolding if_not_P [OF no] using Some by (simp add: match_effective_capabilities_def cap_refusal_def)
  qed
qed

lemma match_eligible:
  "em_eligible (match_effective_capabilities rfc3339 caps request vocabulary t denials) \<longleftrightarrow>
   em_variant_ids (match_effective_capabilities rfc3339 caps request vocabulary t denials) \<noteq> []"
  "em_refusal (match_effective_capabilities rfc3339 caps request vocabulary t denials) = None \<longleftrightarrow>
   em_variant_ids (match_effective_capabilities rfc3339 caps request vocabulary t denials) \<noteq> []"
  by (simp_all add: match_effective_capabilities_def cap_refusal_def Let_def split: option.split del: filter_filter)

lemma validate_variants_distinct:
  "validate_variants rfc3339 seen cs = None \<Longrightarrow>
     distinct (map (\<lambda>c. (ec_intent c, ec_variant_id c)) cs) \<and> set seen \<inter> (\<lambda>c. (ec_intent c, ec_variant_id c)) ` set cs = {}"
proof (induction cs arbitrary: seen)
  case (Cons c cs)
  then have "(ec_intent c, ec_variant_id c) \<notin> set seen" "validate_variants rfc3339 ((ec_intent c, ec_variant_id c) # seen) cs = None"
    by (auto split: if_splits option.splits)
  with Cons.IH [OF this(2)] show ?case by auto
qed simp

lemma advertisement_distinct:
  "validate_advertisement rfc3339 v caps = Inr () \<Longrightarrow> distinct (map (\<lambda>c. (ec_intent c, ec_variant_id c)) caps)"
  using validate_variants_distinct [of rfc3339 "[]" caps] by (auto simp: validate_advertisement_def split: if_splits option.splits)


text \<open>Two variants of one intent: the first has the feature, the second the tokens; a request for both is met by neither.\<close>

definition sample_variant :: "string \<Rightarrow> string list \<Rightarrow> rat \<Rightarrow> effective_capability" where
  "sample_variant i features tokens =
     \<lparr>ec_intent = ''chat'', ec_version = None, ec_phase = None, ec_variant_id = Some i, ec_models = [], ec_max_tokens = None,
      ec_input_modalities = [], ec_output_modalities = [], ec_features = features, ec_execution_capabilities = [],
      ec_limits = [(''context'', \<lparr>cl_value = tokens, cl_unit = ''tokens''\<rparr>)], ec_supported_profiles = [],
      ec_claim_provenance = None, ec_extensions = []\<rparr>"

definition sample_request :: "rat \<Rightarrow> capability_requirements" where
  "sample_request n =
     \<lparr>cq_schema_version = ''1.0.0'', cq_intent = ''chat'', cq_requires = [\<lparr>cr_class = ''feature'', cr_id = ''json''\<rparr>], cq_prefers = [],
      cq_limits = [\<lparr>lr_id = ''context'', lr_operator = ''gte'', lr_value = n, lr_unit = ''tokens''\<rparr>]\<rparr>"

abbreviation sample_variants :: "effective_capability list" where
  "sample_variants \<equiv> [sample_variant ''a'' [''json''] 4, sample_variant ''b'' [] 8]"


subsection \<open>What the tool policy promises\<close>

lemma utf8_chars_ascii: "list_all (\<lambda>c. of_char c < (128 :: nat)) s \<Longrightarrow> utf8_chars s = map (\<lambda>c. [c]) s"
proof (induction s)
  case (Cons c s)
  then have "takeWhile utf8_continuation s = [] \<and> dropWhile utf8_continuation s = s"
    by (cases s) (auto simp: utf8_continuation_def)
  with Cons show ?case by simp
qed simp

lemma benign_iff:
  "tool_risk_label lower name = ''benign_read'' \<longleftrightarrow>
     (\<forall>(label, needles) \<in> set RISK_KEYWORDS. \<forall>n \<in> set needles. \<not> sublist n (map safe_char (utf8_chars (lower name))))"
proof -
  let ?safe = "map safe_char (utf8_chars (lower name))"
  let ?P = "\<lambda>(_ :: string, needles). list_ex (\<lambda>n. ?safe = n \<or> sublist n ?safe) needles"
  have hit: "?P k \<longleftrightarrow> (\<exists>n \<in> set (snd k). sublist n ?safe)" for k by (auto simp: list_ex_iff split_beta)
  have l: "fst k \<noteq> ''benign_read''" if "k \<in> set RISK_KEYWORDS" for k using that by (auto simp: RISK_KEYWORDS_def)
  have "(case List.find ?P RISK_KEYWORDS of Some (label, _) \<Rightarrow> label | None \<Rightarrow> ''benign_read'') = ''benign_read'' \<longleftrightarrow>
    List.find ?P RISK_KEYWORDS = None"
  proof (cases "List.find ?P RISK_KEYWORDS")
    case (Some k)
    then have "k \<in> set RISK_KEYWORDS" using find_mem by fast
    then show ?thesis using l [of k] Some by (simp add: split_beta)
  qed simp
  also have "\<dots> \<longleftrightarrow> (\<forall>k \<in> set RISK_KEYWORDS. \<not> ?P k)" unfolding find_None_iff by blast
  finally show ?thesis unfolding tool_risk_label_def Let_def hit by (simp add: split_beta)
qed

text \<open>Characters put around a dangerous ASCII name do not make it benign: without the controls the longer name is refused too.\<close>

lemma decorated_tool_refused:
  assumes "\<not> tool_allowed to_ascii_lowercase p name" and "list_all (\<lambda>c. of_char c < (128 :: nat)) (to_ascii_lowercase (pre @ name @ post))"
  shows "\<not> tool_allowed to_ascii_lowercase p (pre @ name @ post)"
proof -
  have "list_all (\<lambda>c. of_char c < (128 :: nat)) (to_ascii_lowercase name)" using assms(2) by (simp add: to_ascii_lowercase_def)
  then have "sublist (map safe_char (utf8_chars (to_ascii_lowercase name))) (map safe_char (utf8_chars (to_ascii_lowercase (pre @ name @ post))))"
    using assms(2) by (simp add: utf8_chars_ascii) (simp add: to_ascii_lowercase_def)
  then have "sublist n (map safe_char (utf8_chars (to_ascii_lowercase (pre @ name @ post))))"
    if "sublist n (map safe_char (utf8_chars (to_ascii_lowercase name)))" for n
    using that sublist_order.order_trans by blast
  then show ?thesis using assms(1) unfolding tool_allowed_def benign_iff split_beta by blast
qed

subsection \<open>What the cooperative policy promises\<close>

text \<open>A run of holders: a caller takes a slot and gives it back at most once.\<close>

fun cip_run :: "bool list \<Rightarrow> nat \<Rightarrow> cip_policy \<Rightarrow> nat \<times> cip_policy" where
  "cip_run [] held p = (held, p)"
| "cip_run (True # ops) held p =
    (case try_acquire_cip_slot p of (p', b) \<Rightarrow> cip_run ops (if b then held + 1 else held) p')"
| "cip_run (False # ops) held p = (if held = 0 then cip_run ops held p else cip_run ops (held - 1) (release_cip_slot p))"

lemma cip_run_bounded:
  assumes "held = unat (ci_in_flight p)" and "ci_in_flight p \<le> ci_max_concurrent_remote p"
  shows "case cip_run ops held p of (held', p') \<Rightarrow>
     held' = unat (ci_in_flight p') \<and> ci_in_flight p' \<le> ci_max_concurrent_remote p' \<and> ci_max_concurrent_remote p' = ci_max_concurrent_remote p"
  using assms
proof (induction ops held p rule: cip_run.induct)
  case (2 ops held p)
  show ?case
  proof (cases "ci_in_flight p \<ge> ci_max_concurrent_remote p")
    case False
    then have lt: "ci_in_flight p < ci_max_concurrent_remote p" by simp
    then have "Suc (unat (ci_in_flight p)) < 2 ^ 64"
    proof -
      have "unat (ci_max_concurrent_remote p) < 2 ^ 64" using unsigned_less [of "ci_max_concurrent_remote p"] by simp
      with lt show ?thesis unfolding word_less_nat_alt by linarith
    qed
    then have "unat (ci_in_flight p + 1) = unat (ci_in_flight p) + 1" "ci_in_flight p + 1 \<le> ci_max_concurrent_remote p"
      using lt by (simp_all add: unat_Suc_nowrap word_less_nat_alt word_le_nat_alt)
    moreover have t: "try_acquire_cip_slot p = (p\<lparr>ci_in_flight := ci_in_flight p + 1\<rparr>, True)"
      using lt by (auto simp: try_acquire_cip_slot_def)
    ultimately show ?thesis using "2.IH" [of "p\<lparr>ci_in_flight := ci_in_flight p + 1\<rparr>" True] "2.prems" by simp
  qed (use "2.IH" [of p False] "2.prems" in \<open>simp add: try_acquire_cip_slot_def\<close>)
next
  case (3 ops held p)
  show ?case
  proof (cases "held = 0")
    case False
    then have "ci_in_flight p \<noteq> 0" using "3.prems"(1) by (metis unat_0)
    then have "unat (ci_in_flight p - 1) = unat (ci_in_flight p) - 1" by (simp add: unat_minus_one)
    then have "held - 1 = unat (ci_in_flight (release_cip_slot p))" "ci_in_flight (release_cip_slot p) \<le> ci_max_concurrent_remote (release_cip_slot p)"
      using "3.prems" by (auto simp: release_cip_slot_def word_le_nat_alt)
    from "3.IH"(2) [OF False this] False show ?thesis by (simp add: release_cip_slot_def)
  qed (use 3 in simp)
qed simp

text \<open>One release too many wraps the counter, and the gate is closed for good.\<close>

lemma extra_release_closes: "ci_in_flight p = 0 \<Longrightarrow> \<not> snd (try_acquire_cip_slot (release_cip_slot p))"
  by (simp add: try_acquire_cip_slot_def release_cip_slot_def)

end
