(* ===== verification/Confidentiality.thy ===== *)
theory Confidentiality
  imports Routing
begin

text \<open>
  Encryption of payloads and responses between a client and a provider: \<^verbatim>\<open>src/confidentiality.rs\<close>.  The ciphers, the key
  derivation, the base64 and JSON codecs are the members of \<open>cx_lib\<close>; what the round trip relies on is \<open>cx_lawful\<close> and
  \<open>cx_carries\<close>.  The random draws are arguments.  A byte array made from a slice of another length stops the program:
  such an operation returns an option, \<open>None\<close> where it panics.
\<close>

record cx_lib =
  cx_public :: "string \<Rightarrow> string"
  cx_dh :: "string \<Rightarrow> string \<Rightarrow> string"
  cx_hkdf :: "string \<Rightarrow> string \<Rightarrow> string \<Rightarrow> string option"
  cx_seal :: "string \<Rightarrow> string \<Rightarrow> string \<Rightarrow> string \<Rightarrow> string option"
  cx_open :: "string \<Rightarrow> string \<Rightarrow> string \<Rightarrow> string \<Rightarrow> string option"
  cx_b64 :: "string \<Rightarrow> string"
  cx_unb64 :: "string \<Rightarrow> string + string"
  cx_sha_hex :: "string \<Rightarrow> string"
  cx_utf8 :: "string \<Rightarrow> string + unit"
  cx_print :: "json \<Rightarrow> string + string"
  cx_parse :: "string \<Rightarrow> string + json"

text \<open>An error of a library call under the text of the source.\<close>

definition node_err :: "string \<Rightarrow> string + 'a \<Rightarrow> iicp_error + 'a" where
  "node_err what r = (case r of Inl e \<Rightarrow> Inl (NodeError (what @ '': '' @ e)) | Inr x \<Rightarrow> Inr x)"

lemma node_err_simps [simp]: "node_err what (Inr x) = Inr x" "node_err what (Inl e) = Inl (NodeError (what @ '': '' @ e))"
  by (simp_all add: node_err_def)

definition public_key_from_raw :: "cx_lib \<Rightarrow> string \<Rightarrow> cx_key" where
  "public_key_from_raw lib pub =
     \<lparr>cx_algorithm = ''X25519'', cx_encoding = Some ''base64url'', cx_key = cx_b64 lib pub,
      cx_key_id = ''cx-'' @ take 16 (cx_sha_hex lib pub), cx_features = [''response_encryption_v1'']\<rparr>"

subsection \<open>The key of a node\<close>

text \<open>The directory of the keys is \<open>dir\<close>, a file system is a map from paths to contents; failing reads and writes are left out.\<close>

definition cx_key_path :: "cx_lib \<Rightarrow> string \<Rightarrow> string \<Rightarrow> string \<Rightarrow> string" where
  "cx_key_path lib dir node_id endpoint =
     dir @ ''/'' @ take 24 (cx_sha_hex lib (if node_id \<noteq> [] then node_id else endpoint)) @ ''.json''"

definition cx_key_json :: "cx_key \<Rightarrow> json" where
  "cx_key_json k = JObj ([(''algorithm'', JStr (cx_algorithm k))] @
     (case cx_encoding k of Some e \<Rightarrow> [(''encoding'', JStr e)] | None \<Rightarrow> []) @
     (if cx_features k = [] then [] else [(''features'', JArr (map JStr (cx_features k)))]) @
     [(''key'', JStr (cx_key k)), (''key_id'', JStr (cx_key_id k))])"

definition key_file :: "cx_lib \<Rightarrow> string \<Rightarrow> json" where
  "key_file lib priv = JObj [(''algorithm'', JStr ''X25519''), (''private_key'', JStr (cx_b64 lib priv)),
     (''public_key'', cx_key_json (public_key_from_raw lib (cx_public lib priv))), (''version'', JPos 1)]"

definition read_key_file :: "cx_lib \<Rightarrow> string \<Rightarrow> iicp_error + cx_key \<times> string" where
  "read_key_file lib raw =
    bind_sum (node_err ''CX key JSON parse'' (cx_parse lib raw)) (\<lambda>data.
    bind_sum (ok_or (get_str data ''private_key'') (NodeError ''CX key missing private_key'')) (\<lambda>private_str.
    bind_sum (node_err ''CX private_key decode'' (cx_unb64 lib private_str)) (\<lambda>priv.
      if length priv \<noteq> 32 then Inl (NodeError ''CX private_key must be 32 bytes'')
      else Inr (public_key_from_raw lib (cx_public lib priv), priv))))"

definition load_or_create_node_cx_key ::
  "cx_lib \<Rightarrow> string \<Rightarrow> string \<Rightarrow> string \<Rightarrow> string \<Rightarrow> (string, string) hmap \<Rightarrow> (string, string) hmap \<times> (iicp_error + cx_key \<times> string)" where
  "load_or_create_node_cx_key lib dir node_id endpoint fresh files =
    (let path = cx_key_path lib dir node_id endpoint in
     case hget files path of
       Some raw \<Rightarrow> (files, read_key_file lib raw)
     | None \<Rightarrow>
         (case cx_print lib (key_file lib fresh) of
            Inl e \<Rightarrow> (files, Inl (SerdeError e))
          | Inr text \<Rightarrow> (hput path text files, Inr (public_key_from_raw lib (cx_public lib fresh), fresh))))"

subsection \<open>Requests\<close>

definition payload_info :: "string \<Rightarrow> string \<Rightarrow> string" where
  "payload_info task_id intent = ''IICP-CX-v1'' @ task_id @ intent"

text \<open>\<open>ephem\<close> and \<open>nonce\<close> are the 32 and 12 random bytes.\<close>

definition encrypt_payload_with_context ::
  "cx_lib \<Rightarrow> string \<Rightarrow> string \<Rightarrow> json \<Rightarrow> cx_key \<Rightarrow> string \<Rightarrow> string \<Rightarrow> iicp_error + (string, json) hmap \<times> string" where
  "encrypt_payload_with_context lib ephem nonce payload key task_id intent =
    (if cx_algorithm key \<noteq> ''X25519'' then Inl (NodeError (''Unsupported cx_public_key algorithm: '' @ cx_algorithm key))
     else bind_sum (node_err ''cx_public_key decode error'' (cx_unb64 lib (cx_key key))) (\<lambda>node_pub.
      if length node_pub \<noteq> 32 then Inl (NodeError ''cx_public_key must be 32 bytes'')
      else let shared = cx_dh lib ephem node_pub; aad = task_id @ ''|'' @ intent in
       bind_sum (ok_or (cx_hkdf lib nonce shared (payload_info task_id intent)) (NodeError ''HKDF expand failed'')) (\<lambda>material.
       bind_sum (node_err ''payload serialization'' (cx_print lib payload)) (\<lambda>payload_json.
       bind_sum (ok_or (cx_seal lib material nonce aad payload_json) (NodeError ''AES-GCM encrypt failed'')) (\<lambda>ciphertext.
        Inr ([(''version'', JPos 1), (''recipient_key_id'', JStr (cx_key_id key)), (''kem_ciphertext'', JStr (cx_b64 lib (cx_public lib ephem))),
              (''encrypted_body'', JStr (cx_b64 lib ciphertext)), (''nonce'', JStr (cx_b64 lib nonce)), (''aad'', JStr (cx_b64 lib aad)),
              (''plaintext_size'', JPos (of_nat (length payload_json)))], shared))))))"

definition conf_str :: "(string, json) hmap \<Rightarrow> string \<Rightarrow> iicp_error + string" where
  "conf_str conf k = ok_or (Option.bind (hget conf k) as_str) (NodeError (''missing '' @ k))"

text \<open>The steps before the cipher: the shared secret, nonce, additional data, key and ciphertext.\<close>

definition open_envelope ::
  "cx_lib \<Rightarrow> (string, json) hmap \<Rightarrow> string \<Rightarrow> iicp_error + string \<times> string \<times> string \<times> string \<times> string" where
  "open_envelope lib conf priv =
    bind_sum (conf_str conf ''kem_ciphertext'') (\<lambda>kem_ct.
    bind_sum (node_err ''kem_ciphertext decode'' (cx_unb64 lib kem_ct)) (\<lambda>ephem_pub.
      if length ephem_pub \<noteq> 32 then Inl (NodeError ''kem_ciphertext must be 32 bytes'')
      else let shared = cx_dh lib priv ephem_pub in
    bind_sum (conf_str conf ''nonce'') (\<lambda>nonce_str.
    bind_sum (node_err ''nonce decode'' (cx_unb64 lib nonce_str)) (\<lambda>nonce.
    bind_sum (conf_str conf ''aad'') (\<lambda>aad_str.
    bind_sum (node_err ''aad decode'' (cx_unb64 lib aad_str)) (\<lambda>aad.
    bind_sum (node_err ''aad utf8'' (cx_utf8 lib aad)) (\<lambda>_.
      if CHR ''|'' \<notin> set aad then Inl (NodeError ''aad missing task_id|intent separator'')
      else let task_id = takeWhile (\<lambda>c. c \<noteq> CHR ''|'') aad; intent = tl (dropWhile (\<lambda>c. c \<noteq> CHR ''|'') aad) in
    bind_sum (ok_or (cx_hkdf lib nonce shared (payload_info task_id intent)) (NodeError ''HKDF expand failed'')) (\<lambda>material.
    bind_sum (conf_str conf ''encrypted_body'') (\<lambda>enc_body_str.
    bind_sum (node_err ''encrypted_body decode'' (cx_unb64 lib enc_body_str)) (\<lambda>enc_body.
      Inr (shared, nonce, aad, material, enc_body)))))))))))"

definition decrypt_payload_with_context :: "cx_lib \<Rightarrow> (string, json) hmap \<Rightarrow> string \<Rightarrow> (iicp_error + json \<times> string) option" where
  "decrypt_payload_with_context lib conf priv =
    (case open_envelope lib conf priv of
       Inl e \<Rightarrow> Some (Inl e)
     | Inr (shared, nonce, aad, material, enc_body) \<Rightarrow>
         if length nonce \<noteq> 12 then None
         else Some (bind_sum (ok_or (cx_open lib material nonce aad enc_body) (NodeError ''AES-GCM decrypt failed (wrong key or tampered)'')) (\<lambda>plaintext.
           bind_sum (node_err ''plaintext JSON parse'' (cx_parse lib plaintext)) (\<lambda>payload. Inr (payload, shared)))))"

subsection \<open>Responses\<close>

definition response_info :: "string \<Rightarrow> string" where
  "response_info task_id = ''IICP-CX-RESP-v1'' @ task_id"

definition encrypt_response :: "cx_lib \<Rightarrow> string \<Rightarrow> json \<Rightarrow> string \<Rightarrow> string \<Rightarrow> iicp_error + (string, json) hmap" where
  "encrypt_response lib nonce response shared task_id =
    bind_sum (ok_or (cx_hkdf lib nonce shared (response_info task_id)) (NodeError ''HKDF expand failed'')) (\<lambda>material.
    bind_sum (node_err ''response serialization'' (cx_print lib response)) (\<lambda>body.
    bind_sum (ok_or (cx_seal lib material nonce (task_id @ ''|resp'') body) (NodeError ''AES-GCM encrypt failed'')) (\<lambda>ciphertext.
      Inr [(''version'', JPos 1), (''nonce'', JStr (cx_b64 lib nonce)), (''encrypted_body'', JStr (cx_b64 lib ciphertext))])))"

definition decrypt_response :: "cx_lib \<Rightarrow> (string, json) hmap \<Rightarrow> string \<Rightarrow> string \<Rightarrow> (iicp_error + json) option" where
  "decrypt_response lib env shared task_id =
    (case bind_sum (conf_str env ''nonce'') (\<lambda>nonce_b64.
          bind_sum (conf_str env ''encrypted_body'') (\<lambda>body_b64.
          bind_sum (node_err ''nonce decode'' (cx_unb64 lib nonce_b64)) (\<lambda>nonce.
          bind_sum (ok_or (cx_hkdf lib nonce shared (response_info task_id)) (NodeError ''HKDF expand failed'')) (\<lambda>material.
          bind_sum (node_err ''body decode'' (cx_unb64 lib body_b64)) (\<lambda>ct. Inr (nonce, material, ct)))))) of
       Inl e \<Rightarrow> Some (Inl e)
     | Inr (nonce, material, ct) \<Rightarrow>
         if length nonce \<noteq> 12 then None
         else Some (bind_sum (ok_or (cx_open lib material nonce (task_id @ ''|resp'') ct) (NodeError ''AES-GCM decrypt failed (wrong key or tampered)''))
           (\<lambda>plaintext. node_err ''response JSON parse'' (cx_parse lib plaintext))))"

subsection \<open>What a sealed exchange gives\<close>

text \<open>What the code relies on: base64 decodes what it encoded, both sides of a key agreement compute the same secret, public keys
  have 32 bytes, key derivation succeeds and the cipher opens what it sealed under the same key, nonce and additional data.\<close>

definition cx_lawful :: "cx_lib \<Rightarrow> bool" where
  "cx_lawful lib \<longleftrightarrow>
     (\<forall>x. cx_unb64 lib (cx_b64 lib x) = Inr x) \<and>
     (\<forall>a b. length a = 32 \<and> length b = 32 \<longrightarrow> cx_dh lib a (cx_public lib b) = cx_dh lib b (cx_public lib a) \<and> length (cx_public lib a) = 32) \<and>
     (\<forall>salt secret info. \<exists>k. cx_hkdf lib salt secret info = Some k) \<and>
     (\<forall>k n aad m. length n = 12 \<longrightarrow> (\<exists>c. cx_seal lib k n aad m = Some c \<and> cx_open lib k n aad c = Some m))"

text \<open>A value survives printing and parsing.\<close>

definition cx_carries :: "cx_lib \<Rightarrow> json \<Rightarrow> bool" where
  "cx_carries lib v \<longleftrightarrow> (\<exists>s. cx_print lib v = Inr s \<and> cx_parse lib s = Inr v)"

lemma split_aad:
  assumes "CHR ''|'' \<notin> set task_id"
  shows "takeWhile (\<lambda>c. c \<noteq> CHR ''|'') (task_id @ ''|'' @ intent) = task_id \<and>
    tl (dropWhile (\<lambda>c. c \<noteq> CHR ''|'') (task_id @ ''|'' @ intent)) = intent"
  using assms by (induction task_id) auto

lemma lawful_seal: "cx_lawful lib \<Longrightarrow> length n = 12 \<Longrightarrow> \<exists>c. cx_seal lib k n aad m = Some c \<and> cx_open lib k n aad c = Some m"
  and lawful_hkdf: "cx_lawful lib \<Longrightarrow> \<exists>k. cx_hkdf lib salt secret info = Some k"
  and lawful_b64: "cx_lawful lib \<Longrightarrow> cx_unb64 lib (cx_b64 lib x) = Inr x"
  and lawful_dh: "cx_lawful lib \<Longrightarrow> length a = 32 \<Longrightarrow> length b = 32 \<Longrightarrow> cx_dh lib a (cx_public lib b) = cx_dh lib b (cx_public lib a)"
  and lawful_public: "cx_lawful lib \<Longrightarrow> length a = 32 \<Longrightarrow> length (cx_public lib a) = 32"
  by (auto simp: cx_lawful_def)

lemma payload_round_trip:
  assumes l: "cx_lawful lib" and p: "cx_carries lib payload" and len: "length priv = 32" "length ephem = 32" "length nonce = 12"
    and sep: "CHR ''|'' \<notin> set task_id" and utf8: "cx_utf8 lib (task_id @ ''|'' @ intent) = Inr ()"
  shows "\<exists>env. encrypt_payload_with_context lib ephem nonce payload (public_key_from_raw lib (cx_public lib priv)) task_id intent =
      Inr (env, cx_dh lib priv (cx_public lib ephem)) \<and>
    decrypt_payload_with_context lib env priv = Some (Inr (payload, cx_dh lib priv (cx_public lib ephem)))"
proof -
  obtain s where s: "cx_print lib payload = Inr s" "cx_parse lib s = Inr payload" using p by (auto simp: cx_carries_def)
  let ?shared = "cx_dh lib priv (cx_public lib ephem)"
  obtain k where k: "cx_hkdf lib nonce ?shared (payload_info task_id intent) = Some k" using lawful_hkdf [OF l] by blast
  obtain c where c: "cx_seal lib k nonce (task_id @ ''|'' @ intent) s = Some c" "cx_open lib k nonce (task_id @ ''|'' @ intent) c = Some s"
    using lawful_seal [OF l len(3)] by blast
  note aad = split_aad [OF sep, of intent]
  have dh: "cx_dh lib ephem (cx_public lib priv) = ?shared" using lawful_dh [OF l len(2) len(1)] .
  show ?thesis
    using s k c dh utf8 aad len lawful_public [OF l] lawful_b64 [OF l]
    by (simp add: encrypt_payload_with_context_def public_key_from_raw_def Let_def decrypt_payload_with_context_def open_envelope_def conf_str_def)
qed

lemma response_round_trip:
  assumes l: "cx_lawful lib" and p: "cx_carries lib response" and len: "length nonce = 12"
  shows "\<exists>env. encrypt_response lib nonce response shared task_id = Inr env \<and> decrypt_response lib env shared task_id = Some (Inr response)"
proof -
  obtain s where s: "cx_print lib response = Inr s" "cx_parse lib s = Inr response" using p by (auto simp: cx_carries_def)
  obtain k where k: "cx_hkdf lib nonce shared (response_info task_id) = Some k" using lawful_hkdf [OF l] by blast
  obtain c where c: "cx_seal lib k nonce (task_id @ ''|resp'') s = Some c" "cx_open lib k nonce (task_id @ ''|resp'') c = Some s"
    using lawful_seal [OF l len] by blast
  show ?thesis using s k c len lawful_b64 [OF l]
    by (simp add: encrypt_response_def decrypt_response_def conf_str_def)
qed

text \<open>C23.  A sealed exchange is read by both sides: what a client seals with the key a node advertises, that node opens to the
  same payload and the same secret, and what the node seals under that secret for the task, the client opens to the same
  response, whatever the random draws were, when the two values survive the JSON codec and the task identifier has no bar
  in it.\<close>

theorem sealed_exchange:
  assumes "cx_lawful lib" and "cx_carries lib payload" and "cx_carries lib response"
    and "length priv = 32" and "length ephem = 32" and "length nonce = 12" and "length nonce' = 12"
    and "CHR ''|'' \<notin> set task_id" and "cx_utf8 lib (task_id @ ''|'' @ intent) = Inr ()"
  shows "\<exists>env secret renv.
    encrypt_payload_with_context lib ephem nonce payload (public_key_from_raw lib (cx_public lib priv)) task_id intent = Inr (env, secret) \<and>
    decrypt_payload_with_context lib env priv = Some (Inr (payload, secret)) \<and>
    encrypt_response lib nonce' response secret task_id = Inr renv \<and>
    decrypt_response lib renv secret task_id = Some (Inr response)"
  using payload_round_trip [OF assms(1,2,4,5,6,8,9)] response_round_trip [OF assms(1,3,7)] by blast

text \<open>A library in which keys are added byte by byte, a sealed text carries its key, nonce and additional data in front, and the
  one value that is printed is the empty object.\<close>

definition sample_lib :: cx_lib where
  "sample_lib =
     \<lparr>cx_public = (\<lambda>a. a), cx_dh = (\<lambda>a b. map (\<lambda>(x, y). char_of ((of_char x + of_char y :: nat) mod 256)) (zip a b)),
      cx_hkdf = (\<lambda>salt secret info. Some (salt @ secret @ info)),
      cx_seal = (\<lambda>k n aad m. Some (k @ n @ aad @ m)), cx_open = (\<lambda>k n aad c. strip_prefix (k @ n @ aad) c),
      cx_b64 = (\<lambda>x. x), cx_unb64 = Inr, cx_sha_hex = (\<lambda>x. x), cx_utf8 = (\<lambda>_. Inr ()),
      cx_print = (\<lambda>v. if v = JObj [] then Inr ''{}'' else Inl ''other''), cx_parse = (\<lambda>s. if s = ''{}'' then Inr (JObj []) else Inl ''other'')\<rparr>"

lemma sample_lib_lawful: "cx_lawful sample_lib"
proof -
  have "map (\<lambda>(x, y). char_of ((of_char x + of_char y :: nat) mod 256)) (zip a b) =
      map (\<lambda>(x, y). char_of ((of_char x + of_char y :: nat) mod 256)) (zip b a)" for a b :: string
    by (rule nth_equalityI) (simp_all add: add.commute)
  moreover have "strip_prefix (k @ n @ aad) (k @ n @ aad @ m) = Some m" for k n aad m :: string
    using strip_prefix_append [of "k @ n @ aad" m] by simp
  ultimately show ?thesis by (simp add: cx_lawful_def sample_lib_def)
qed

lemma sample_lib_carries: "cx_carries sample_lib (JObj [])"
  by (simp add: cx_carries_def sample_lib_def)

theorem sealed_exchange_witness:
  "\<exists>env secret renv.
    encrypt_payload_with_context sample_lib (replicate 32 CHR ''e'') (replicate 12 CHR ''n'') (JObj [])
      (public_key_from_raw sample_lib (cx_public sample_lib (replicate 32 CHR ''p''))) ''t'' ''i'' = Inr (env, secret) \<and>
    decrypt_payload_with_context sample_lib env (replicate 32 CHR ''p'') = Some (Inr (JObj [], secret)) \<and>
    encrypt_response sample_lib (replicate 12 CHR ''m'') (JObj []) secret ''t'' = Inr renv \<and>
    decrypt_response sample_lib renv secret ''t'' = Some (Inr (JObj []))"
  by (rule sealed_exchange [OF sample_lib_lawful sample_lib_carries sample_lib_carries]) (simp_all add: sample_lib_def)

text \<open>A node keeps its key: the key a first start creates is the key every later start loads.\<close>

lemma key_survives_restart:
  assumes "cx_lawful lib" and "cx_carries lib (key_file lib fresh)" and "length fresh = 32"
    and "load_or_create_node_cx_key lib dir node_id endpoint fresh files = (files', r)" and "hget files (cx_key_path lib dir node_id endpoint) = None"
  shows "r = Inr (public_key_from_raw lib (cx_public lib fresh), fresh) \<and>
    load_or_create_node_cx_key lib dir node_id endpoint fresh' files' = (files', r)"
  using assms lawful_b64 [OF assms(1)]
  by (auto simp: load_or_create_node_cx_key_def cx_carries_def read_key_file_def key_file_def get_str_def Let_def)

text \<open>The length of the nonce in an envelope is not checked before it becomes an array of 12 bytes: an envelope with a shorter one stops
  the handler, on the node as well as on the client.\<close>

lemma short_nonce_panics:
  assumes "cx_lawful lib" and "cx_utf8 lib ''|'' = Inr ()" and "length pub = 32"
  shows "decrypt_payload_with_context lib
      [(''kem_ciphertext'', JStr (cx_b64 lib pub)), (''nonce'', JStr (cx_b64 lib [])), (''aad'', JStr (cx_b64 lib ''|'')),
       (''encrypted_body'', JStr (cx_b64 lib []))] priv = None"
    and "decrypt_response lib [(''nonce'', JStr (cx_b64 lib [])), (''encrypted_body'', JStr (cx_b64 lib []))] secret task_id = None"
  using assms(2,3) lawful_b64 [OF assms(1)] lawful_hkdf [OF assms(1)]
  by (auto simp: decrypt_payload_with_context_def decrypt_response_def open_envelope_def conf_str_def payload_info_def Let_def ok_or_def split: option.split)

end
