(* ===== verification/Provider.thy ===== *)
theory Provider
  imports Http_Task Gates Capability Confidentiality Health
begin

text \<open>
  The provider's \<^verbatim>\<open>POST /v1/task\<close>: \<^verbatim>\<open>task_endpoint\<close> of \<^verbatim>\<open>src/node.rs\<close> with \<^verbatim>\<open>admit\<close>, the per-origin rate limit, the nonce cache, the
  sealed requests and responses, the task counters and the receipt it posts.  Requests are served concurrently, so a request
  is a program point (\<open>task_point\<close>) that moves by one access to the shared state at a time, and a run is any interleaving
  of the steps of any number of requests; a request may also be dropped where its future waits, as a server does when the
  connection closes, or stopped by a panic.  Times of the monotonic clock are integers in nanoseconds, \<open>moment\<close> is what
  one step reads from its surroundings, \<open>provider_lib\<close> the code that is not part of the repository.
\<close>

subsection \<open>Requests and shared state\<close>

record provider_task =
  pt_task_id :: string
  pt_intent :: string
  pt_payload :: json
  pt_iicp_conf :: "(string, json) hmap option"
  pt_cx_response_encryption :: "string option"
  pt_constraints :: "json option"
  pt_auth :: "json option"
  pt_nonce :: "string option"
  pt_source_node_id :: "string option"
  pt_trace :: "json option"

record provider_lib =
  pl_to_bytes :: "nat \<Rightarrow> string \<Rightarrow> string option"
  pl_decode :: "string \<Rightarrow> provider_task option"
  pl_print :: "json \<Rightarrow> string option"
  pl_fl :: "rat \<Rightarrow> rat"
  pl_cx :: cx_lib
  pl_hmac :: "string \<Rightarrow> string \<Rightarrow> string option"

record moment =
  mo_now :: int
  mo_inserted :: int
  mo_wall :: int
  mo_wall_retry :: int
  mo_clock :: string
  mo_outcome :: "iicp_error + json"
  mo_finished :: int
  mo_cx_nonce :: string
  mo_receipt_nonce :: string
  mo_expires_at :: string

record provider =
  pv_node_id :: string
  pv_max_concurrent :: nat
  pv_windows :: "window list"
  pv_cip_policy :: cip_policy
  pv_idempotency :: idempotency_guard
  pv_enable_idempotency :: bool
  pv_task_rate_limit :: u32
  pv_task_rate_buckets :: "(string, int \<times> u32) hmap"
  pv_nonce_cache :: "(string, int) hmap"
  pv_cx_private_key :: "string option"
  pv_backend_stability :: observation
  pv_active_jobs :: nat
  pv_tasks_success :: nat
  pv_tasks_failed :: nat
  pv_tasks_latency_total_ms :: nat
  pv_node_token :: string
  pv_node_hmac_key :: string

subsection \<open>Limits in front of the handler\<close>

definition TASK_RATE_WINDOW :: int where
  "TASK_RATE_WINDOW = 60 * 10 ^ 9"

definition task_rate_step :: "u32 \<Rightarrow> string \<Rightarrow> int \<Rightarrow> (string, int \<times> u32) hmap \<Rightarrow> (string, int \<times> u32) hmap \<times> bool" where
  "task_rate_step limit origin now buckets =
    (let entry = unwrap_or (hget buckets origin) (now, 0);
         entry = (if now - fst entry \<ge> TASK_RATE_WINDOW then (now, 0) else entry);
         entry = (fst entry, snd entry + 1);
         buckets = hput origin entry buckets;
         buckets = (if length buckets > 4096 then hretain (\<lambda>_ (start, _). now - start < TASK_RATE_WINDOW) buckets else buckets)
     in (buckets, snd entry \<le> limit))"

definition NONCE_TTL_SECS :: int where
  "NONCE_TTL_SECS = 300"

text \<open>The nonce cache under its lock: what has expired is dropped; \<open>inserted\<close> is the reading at the insertion.\<close>

definition check_nonce :: "string \<Rightarrow> int \<Rightarrow> int \<Rightarrow> (string, int) hmap \<Rightarrow> (string, int) hmap \<times> bool" where
  "check_nonce nonce now inserted cache =
    (let kept = hretain (\<lambda>_ inserted_at. max 0 (now - inserted_at) div 10 ^ 9 < NONCE_TTL_SECS) cache
     in if hget kept nonce \<noteq> None then (kept, False) else (hput nonce inserted kept, True))"

definition QUEUE_WAIT :: int where
  "QUEUE_WAIT = 2 * 10 ^ 9"

definition effective_max_concurrent :: "provider_lib \<Rightarrow> moment \<Rightarrow> provider \<Rightarrow> nat" where
  "effective_max_concurrent lib m p = effective_at (pl_fl lib) (pv_windows p) (pv_max_concurrent p) (mo_clock m)"

definition qos_of :: "provider_task \<Rightarrow> string" where
  "qos_of req = unwrap_or (Option.bind (Option.bind (pt_constraints req) (\<lambda>c. json_get c ''qos_class'')) as_str) ''best_effort''"

subsection \<open>Responses\<close>

type_synonym response = "nat \<times> json"

definition error_json :: "string \<Rightarrow> string \<Rightarrow> json" where
  "error_json code message = JObj [(''error'', JObj [(''code'', JStr code), (''message'', JStr message)])]"

definition task_json_response :: "provider_lib \<Rightarrow> nat \<Rightarrow> json \<Rightarrow> response" where
  "task_json_response lib status body =
    (case pl_print lib body of
       None \<Rightarrow> (status, error_json ''backend_error'' ''task response serialization failed'')
     | Some text \<Rightarrow>
         if length text > MAX_HTTP_TASK_BODY_BYTES
         then (500, error_json ''response_too_large'' (''encoded task response exceeds '' @ show_nat MAX_HTTP_TASK_BODY_BYTES @ '' bytes''))
         else (status, body))"

definition task_resource_error_response :: "provider_lib \<Rightarrow> resource_error \<Rightarrow> response" where
  "task_resource_error_response lib e =
     task_json_response lib (if 100 \<le> he_status e \<and> he_status e < 1000 then he_status e else 400) (error_json (he_code e) (he_message e))"

definition draining_response :: "observation \<Rightarrow> int \<Rightarrow> response" where
  "draining_response ob retry = (503, JObj [(''error'', JObj [(''code'', JStr ''IICP-E024''), (''message'', JStr ''backend temporarily draining''),
     (''reason'', JStr (ob_reason_class ob)), (''retry_after_ms'', json_of_i64 (retry * 1000))])])"

definition capacity_response :: "provider_task \<Rightarrow> response" where
  "capacity_response req = (429, JObj [(''error'', JObj [(''code'', JStr ''IICP-E021''), (''message'', JStr ''capacity_exceeded''),
     (''qos_class'', JStr (qos_of req)), (''retry_after_ms'', JPos 2000)])])"

text \<open>\<^verbatim>\<open>TaskResponse\<close>, without the members that are none.\<close>

definition task_response_json :: "string \<Rightarrow> string \<Rightarrow> json option \<Rightarrow> (string, json) hmap option \<Rightarrow> json option \<Rightarrow> bool \<Rightarrow> json" where
  "task_response_json task_id status result conf err ai =
     JObj ([(''task_id'', JStr task_id), (''status'', JStr status)] @
       (case result of Some v \<Rightarrow> [(''result'', v)] | None \<Rightarrow> []) @
       (case conf of Some env \<Rightarrow> [(''iicp_conf_resp'', JObj env)] | None \<Rightarrow> []) @
       (case err of Some e \<Rightarrow> [(''error'', e)] | None \<Rightarrow> []) @
       [(''generated_by_ai'', JBool ai)])"

definition failed_response :: "provider_lib \<Rightarrow> string \<Rightarrow> string \<Rightarrow> response" where
  "failed_response lib task_id message =
     task_json_response lib 500 (task_response_json task_id ''error'' None None
       (Some (JObj [(''code'', JStr ''backend_error''), (''message'', JStr message)])) False)"

subsection \<open>Receipts\<close>

fun canonical_json_node :: "(json \<Rightarrow> string) \<Rightarrow> json \<Rightarrow> string" where
  "canonical_json_node prnt (JObj ms) =
     ''{'' @ join_with '','' (map snd (sort_key fst (map (\<lambda>(k, v). (k, prnt (JStr k) @ '':'' @ canonical_json_node prnt v)) ms))) @ ''}''"
| "canonical_json_node prnt (JArr vs) = ''['' @ join_with '','' (map (canonical_json_node prnt) vs) @ '']''"
| "canonical_json_node prnt v = prnt v"

definition receipt_canonical :: "string \<Rightarrow> u64 \<Rightarrow> string \<Rightarrow> string \<Rightarrow> string option \<Rightarrow> string" where
  "receipt_canonical task_id tokens_used nonce response_hash qid =
     task_id @ '':'' @ show_nat (unat tokens_used) @ '':::'' @ nonce @ '':'' @ response_hash @
     (case qid of Some q \<Rightarrow> '':'' @ q | None \<Rightarrow> [])"

text \<open>\<^verbatim>\<open>post_cip_receipt\<close>: the body it posts to \<^verbatim>\<open>/v1/credits/award\<close>, with the random nonce in hexadecimal.\<close>

definition post_cip_receipt :: "provider_lib \<Rightarrow> moment \<Rightarrow> string \<Rightarrow> string \<Rightarrow> string \<Rightarrow> string \<Rightarrow> u64 \<Rightarrow> json \<Rightarrow> string option \<Rightarrow> json option" where
  "post_cip_receipt lib m token hmac_key node_id task_id tokens_used result querying =
    (if token = [] \<or> hmac_key = [] then None
     else let response_hash = cx_sha_hex (pl_cx lib) (canonical_json_node (\<lambda>v. unwrap_or (pl_print lib v) []) result);
              nonce = mo_receipt_nonce m;
              qid = (case querying of Some q \<Rightarrow> if q = [] then None else Some q | None \<Rightarrow> None);
              amount = pl_fl lib (pl_fl lib (of_nat (unat (max tokens_used 1))) / 1000)
     in case pl_hmac lib hmac_key (receipt_canonical task_id tokens_used nonce response_hash qid) of
          None \<Rightarrow> None
        | Some signature \<Rightarrow> Some (JObj ([(''amount'', JFloat amount), (''expires_at'', JStr (mo_expires_at m)), (''node_id'', JStr node_id),
            (''nonce'', JStr nonce)] @ (case qid of Some q \<Rightarrow> [(''querying_node_id'', JStr q)] | None \<Rightarrow> []) @
            [(''reason'', JStr ''task_completion''), (''response_hash'', JStr response_hash), (''signature'', JStr signature),
             (''task_id'', JStr task_id), (''tokens_used'', JPos tokens_used)])))"

definition tokens_used_of :: "json \<Rightarrow> u64" where
  "tokens_used_of v = unwrap_or (Option.bind (Option.bind (json_get v ''usage'') (\<lambda>u. json_get u ''total_tokens'')) as_u64) 0"

subsection \<open>One request\<close>

datatype task_point =
    Arrived headers string
  | Checked headers provider_task
  | Overshot headers provider_task "int option"
  | Looping headers provider_task int
  | Retrying headers provider_task int int
  | Admitted headers provider_task
  | Screened headers provider_task
  | Executing provider_task "string option" int
  | Finished provider_task "string option" "iicp_error + json" nat
  | Leaving provider_task response
  | Answered response
  | Gone bool

text \<open>What a step leaves on record: a nonce that passed with the time of its insertion, a call of the handler, an answer to a request, a
  receipt posted for a task.\<close>

datatype record_entry =
    Passed string int
  | Started provider_task
  | Answer provider_task response
  | Receipt provider_task json

definition on_arrived :: "provider_lib \<Rightarrow> moment \<Rightarrow> headers \<Rightarrow> string \<Rightarrow> provider \<Rightarrow> provider \<times> task_point" where
  "on_arrived lib m hs body p =
    (case read_request_body (pl_to_bytes lib) hs body of
       Inl e \<Rightarrow> (p, Answered (task_resource_error_response lib e))
     | Inr encoded \<Rightarrow>
    (case pl_decode lib encoded of
       None \<Rightarrow> (p, Answered (task_json_response lib 400 (error_json ''invalid_http_body'' ''invalid JSON body'')))
     | Some req \<Rightarrow>
    (let (p, allowed) =
           (if pv_task_rate_limit p > 0
            then (case Option.bind (hget hs ''origin'') (\<lambda>v. v) of
                    Some origin \<Rightarrow>
                      (case task_rate_step (pv_task_rate_limit p) origin (mo_now m) (pv_task_rate_buckets p) of
                         (buckets, b) \<Rightarrow> (p\<lparr>pv_task_rate_buckets := buckets\<rparr>, b))
                  | None \<Rightarrow> (p, True))
            else (p, True));
         stability = pv_backend_stability p
     in if \<not> allowed then (p, Answered (429, error_json ''IICP-E023'' ''per-origin task rate limit exceeded''))
        else if \<not> permits_intent (pv_cip_policy p) (pt_intent req)
        then (p, Answered (403, error_json ''tool_execution_denied'' ''Tool-execution intents are not permitted by this node's CIP policy''))
        else case (if is_draining stability (mo_wall m) then retry_after_s_at stability (mo_wall_retry m) else None) of
          Some retry \<Rightarrow> (p, Answered (draining_response stability retry))
        | None \<Rightarrow> (p, Checked hs req))))"

text \<open>One attempt of \<^verbatim>\<open>admit\<close>: the counter goes up first, and the request has its slot if it was below the limit.\<close>

definition try_admit :: "provider_lib \<Rightarrow> moment \<Rightarrow> headers \<Rightarrow> provider_task \<Rightarrow> int option \<Rightarrow> provider \<Rightarrow> provider \<times> task_point" where
  "try_admit lib m hs req deadline p =
    (let p' = p\<lparr>pv_active_jobs := pv_active_jobs p + 1\<rparr>
     in if pv_active_jobs p < effective_max_concurrent lib m p then (p', Admitted hs req) else (p', Overshot hs req deadline))"

definition conf_of :: "provider_task \<Rightarrow> (string, json) hmap option" where
  "conf_of req = (if pt_payload req = JNull then pt_iicp_conf req else None)"

text \<open>The part between the duplicate check and the handler; the decryption fails with \<^const>\<open>NodeError\<close> only, and a panic
  of it is a request that is gone with its slot.\<close>

definition prepare :: "provider_lib \<Rightarrow> moment \<Rightarrow> headers \<Rightarrow> provider_task \<Rightarrow> provider \<Rightarrow> task_point \<times> record_entry list" where
  "prepare lib m hs req p =
    (let ready = (\<lambda>req secret.
           let req = (case Option.bind (hget hs ''traceparent'') (\<lambda>v. v) of
                        Some tp \<Rightarrow> req\<lparr>pt_trace := Some (JObj [(''traceparent'', JStr tp)])\<rparr> | None \<Rightarrow> req)
           in if pt_cx_response_encryption req = Some ''required'' \<and> secret = None
              then (Leaving req (400, error_json ''IICP-CX-03'' ''encrypted response requested without an encrypted request''), [])
              else (Executing req secret (mo_now m), [Started req]))
     in case conf_of req of
          None \<Rightarrow> ready req None
        | Some conf \<Rightarrow>
            (case (case pv_cx_private_key p of
                     None \<Rightarrow> Some (Inl (NodeError ''node has no CX private key''))
                   | Some private_key \<Rightarrow> decrypt_payload_with_context (pl_cx lib) conf private_key) of
               None \<Rightarrow> (Gone True, [])
             | Some (Inr (payload, secret)) \<Rightarrow> ready (req\<lparr>pt_payload := payload\<rparr>) (Some secret)
             | Some (Inl err) \<Rightarrow>
                 (Leaving req (400, error_json ''IICP-CX-02'' (''iicp_conf decrypt failed: '' @
                   (case err of NodeError e \<Rightarrow> ''node error: '' @ e | _ \<Rightarrow> []))), [])))"

definition on_screened :: "provider_lib \<Rightarrow> moment \<Rightarrow> headers \<Rightarrow> provider_task \<Rightarrow> provider \<Rightarrow> provider \<times> task_point \<times> record_entry list" where
  "on_screened lib m hs req p =
    (let (p, fresh) = (if pv_enable_idempotency p
                       then (case check_and_register (pt_task_id req) (nat (mo_now m)) (pv_idempotency p) of
                               (g, b) \<Rightarrow> (p\<lparr>pv_idempotency := g\<rparr>, b))
                       else (p, True))
     in if \<not> fresh then (p, Leaving req (409, error_json ''IICP-E010'' ''duplicate_task''), [])
        else (p, prepare lib m hs req p))"

definition count_task :: "bool \<Rightarrow> nat \<Rightarrow> provider \<Rightarrow> provider" where
  "count_task ok latency_ms p =
    (let p = (if ok then p\<lparr>pv_tasks_success := pv_tasks_success p + 1\<rparr> else p\<lparr>pv_tasks_failed := pv_tasks_failed p + 1\<rparr>)
     in if latency_ms > 0 then p\<lparr>pv_tasks_latency_total_ms := pv_tasks_latency_total_ms p + latency_ms\<rparr> else p)"

text \<open>After the handler: the response, sealed if that was asked for, the counters and the receipt.\<close>

definition on_finished ::
  "provider_lib \<Rightarrow> moment \<Rightarrow> provider_task \<Rightarrow> string option \<Rightarrow> iicp_error + json \<Rightarrow> nat \<Rightarrow> provider \<Rightarrow> provider \<times> task_point \<times> record_entry list" where
  "on_finished lib m req secret outcome latency_ms p =
    (let task_id = pt_task_id req; answer = (\<lambda>p r receipts. (p, Answered r, Answer req r # receipts)) in
     case outcome of
       Inl e \<Rightarrow> answer (count_task False latency_ms p) (failed_response lib task_id ''task execution failed'') []
     | Inr value \<Rightarrow>
         let plain = JObj [(''generated_by_ai'', JBool True), (''result'', value), (''status'', JStr ''success''), (''task_id'', JStr task_id)];
             sealed = (if pt_cx_response_encryption req = Some ''required''
                       then (case secret of
                               None \<Rightarrow> Inr None
                             | Some k \<Rightarrow> (case encrypt_response (pl_cx lib) (mo_cx_nonce m) plain k task_id of
                                           Inl e \<Rightarrow> Inl e | Inr env \<Rightarrow> Inr (Some env)))
                       else Inr None)
         in (case sealed of
               Inl _ \<Rightarrow> answer (count_task False latency_ms p) (failed_response lib task_id ''task response encryption failed'') []
             | Inr env \<Rightarrow>
                 let resp = task_json_response lib 200 (task_response_json task_id (if env \<noteq> None then ''encrypted'' else ''success'')
                              (if env \<noteq> None then None else Some value) env None True)
                 in if fst resp \<noteq> 200 then answer (count_task False latency_ms p) resp []
                    else answer (count_task True latency_ms p) resp
                      (if pv_node_hmac_key p = [] then []
                       else case post_cip_receipt lib m (pv_node_token p) (pv_node_hmac_key p) (pv_node_id p) task_id (tokens_used_of value) value
                                   (pt_source_node_id req) of
                              Some body \<Rightarrow> [Receipt req body] | None \<Rightarrow> [])))"

fun task_step :: "provider_lib \<Rightarrow> moment \<Rightarrow> task_point \<Rightarrow> provider \<Rightarrow> provider \<times> task_point \<times> record_entry list" where
  "task_step lib m (Arrived hs body) p = (case on_arrived lib m hs body p of (p', pt) \<Rightarrow> (p', pt, []))"
| "task_step lib m (Checked hs req) p = (case try_admit lib m hs req None p of (p', pt) \<Rightarrow> (p', pt, []))"
| "task_step lib m (Overshot hs req deadline) p =
    (let p' = p\<lparr>pv_active_jobs := pv_active_jobs p - 1\<rparr> in
     case deadline of
       Some d \<Rightarrow> (p', Looping hs req d, [])
     | None \<Rightarrow> if \<not> is_queue_eligible (qos_of req) then (p', Answered (capacity_response req), [])
               else (p', Looping hs req (mo_now m + QUEUE_WAIT), []))"
| "task_step lib m (Looping hs req d) p =
    (if mo_now m < d then (p, Retrying hs req d (mo_now m + 50 * 10 ^ 6), []) else (p, Answered (capacity_response req), []))"
| "task_step lib m (Retrying hs req d wake) p =
    (if mo_now m < wake then (p, Retrying hs req d wake, [])
     else case try_admit lib m hs req (Some d) p of (p', pt) \<Rightarrow> (p', pt, []))"
| "task_step lib m (Admitted hs req) p =
    (case pt_nonce req of
       None \<Rightarrow> (p, Screened hs req, [])
     | Some n \<Rightarrow>
         (case check_nonce n (mo_now m) (mo_inserted m) (pv_nonce_cache p) of
            (cache, True) \<Rightarrow> (p\<lparr>pv_nonce_cache := cache\<rparr>, Screened hs req, [Passed n (mo_inserted m)])
          | (cache, False) \<Rightarrow> (p\<lparr>pv_nonce_cache := cache\<rparr>, Leaving req (409, error_json ''IICP-E011'' ''replay_detected''), [])))"
| "task_step lib m (Screened hs req) p = on_screened lib m hs req p"
| "task_step lib m (Executing req secret started) p =
    (p\<lparr>pv_active_jobs := pv_active_jobs p - 1\<rparr>, Finished req secret (mo_outcome m) (nat ((mo_finished m - started) div 10 ^ 6)), [])"
| "task_step lib m (Finished req secret outcome latency_ms) p = on_finished lib m req secret outcome latency_ms p"
| "task_step lib m (Leaving req r) p = (p\<lparr>pv_active_jobs := pv_active_jobs p - 1\<rparr>, Answered r, [Answer req r])"
| "task_step lib m (Answered r) p = (p, Answered r, [])"
| "task_step lib m (Gone held) p = (p, Gone held, [])"

subsection \<open>Runs of the service\<close>

record service =
  sp_provider :: provider
  sp_tasks :: "task_point list"
  sp_log :: "record_entry list"

datatype service_event = Arrive headers string | Act nat moment | Dropped nat | Observe observation | Credentials string string

fun holds_slot :: "task_point \<Rightarrow> bool" where
  "holds_slot (Admitted hs req) = True"
| "holds_slot (Screened hs req) = True"
| "holds_slot (Executing req secret started) = True"
| "holds_slot (Leaving req r) = True"
| "holds_slot (Gone held) = held"
| "holds_slot _ = False"

fun counted :: "task_point \<Rightarrow> bool" where
  "counted (Overshot hs req deadline) = True"
| "counted pt = holds_slot pt"

text \<open>Where the future of a request waits: for the body, in the queue, for the lock of the nonce cache, for the handler.\<close>

fun droppable :: "task_point \<Rightarrow> bool" where
  "droppable (Arrived hs body) = True"
| "droppable (Retrying hs req d wake) = True"
| "droppable (Admitted hs req) \<longleftrightarrow> pt_nonce req \<noteq> None"
| "droppable (Executing req secret started) = True"
| "droppable _ = False"

fun service_step :: "provider_lib \<Rightarrow> service_event \<Rightarrow> service \<Rightarrow> service" where
  "service_step lib (Arrive hs body) s = s\<lparr>sp_tasks := sp_tasks s @ [Arrived hs body]\<rparr>"
| "service_step lib (Act i m) s =
    (if i < length (sp_tasks s)
     then (case task_step lib m (sp_tasks s ! i) (sp_provider s) of
             (p, pt, entries) \<Rightarrow> s\<lparr>sp_provider := p, sp_tasks := (sp_tasks s)[i := pt], sp_log := sp_log s @ entries\<rparr>)
     else s)"
| "service_step lib (Dropped i) s =
    (if i < length (sp_tasks s) \<and> droppable (sp_tasks s ! i)
     then s\<lparr>sp_tasks := (sp_tasks s)[i := Gone (holds_slot (sp_tasks s ! i))]\<rparr> else s)"
| "service_step lib (Observe ob) s = s\<lparr>sp_provider := (sp_provider s)\<lparr>pv_backend_stability := ob\<rparr>\<rparr>"
| "service_step lib (Credentials token key) s = s\<lparr>sp_provider := (sp_provider s)\<lparr>pv_node_token := token, pv_node_hmac_key := key\<rparr>\<rparr>"

text \<open>A service that has just started: no requests, nothing counted, no nonces seen.\<close>

definition started_service :: "service \<Rightarrow> bool" where
  "started_service s \<longleftrightarrow> sp_tasks s = [] \<and> sp_log s = [] \<and> pv_active_jobs (sp_provider s) = 0 \<and> pv_nonce_cache (sp_provider s) = []"

subsection \<open>Slots\<close>

definition counts :: "(task_point \<Rightarrow> bool) \<Rightarrow> task_point list \<Rightarrow> nat" where
  "counts P pts = length (filter P pts)"

lemma count_middle:
  "length (filter P (xs @ y # zs)) + of_bool (P x) = length (filter P (xs @ x # zs)) + (of_bool (P y) :: nat)"
  by simp

lemma counts_update:
  assumes "i < length pts"
  shows "counts P (pts[i := pt]) + of_bool (P (pts ! i)) = counts P pts + of_bool (P pt)"
proof -
  have "pts = take i pts @ pts ! i # drop (Suc i) pts" using assms by (rule id_take_nth_drop)
  moreover have "pts[i := pt] = take i pts @ pt # drop (Suc i) pts" using assms by (rule upd_conv_take_nth_drop)
  ultimately show ?thesis unfolding counts_def by (metis (no_types, lifting) count_middle)
qed

lemma on_arrived_point:
  assumes "on_arrived lib m hs body p = (p', pt)"
  shows "((\<exists>r. pt = Answered r) \<or> (\<exists>req. pt = Checked hs req)) \<and> pv_active_jobs p' = pv_active_jobs p \<and>
    pv_windows p' = pv_windows p \<and> pv_max_concurrent p' = pv_max_concurrent p \<and> pv_nonce_cache p' = pv_nonce_cache p"
  using assms by (auto simp: on_arrived_def Let_def split: sum.splits option.splits if_splits prod.splits)

lemma prepare_point:
  "(\<exists>req r. fst (prepare lib m hs req0 p) = Leaving req r \<and> snd (prepare lib m hs req0 p) = []) \<or>
   (\<exists>req secret t. fst (prepare lib m hs req0 p) = Executing req secret t \<and> snd (prepare lib m hs req0 p) = [Started req] \<and>
      pt_nonce req = pt_nonce req0 \<and> (pt_cx_response_encryption req = Some ''required'' \<longrightarrow> secret \<noteq> None)) \<or>
   prepare lib m hs req0 p = (Gone True, [])"
  by (auto simp: prepare_def Let_def split: sum.splits option.splits)

lemma prepare_holds: "prepare lib m hs req p = (pt, entries) \<Longrightarrow> holds_slot pt"
  using prepare_point [of lib m hs req p] by auto

lemma on_screened_point:
  assumes "on_screened lib m hs req p = (p', pt, entries)"
  shows "(\<exists>p''. prepare lib m hs req p'' = (pt, entries)) \<or> (\<exists>r. pt = Leaving req r \<and> entries = [])"
    and "pv_active_jobs p' = pv_active_jobs p \<and> pv_windows p' = pv_windows p \<and> pv_max_concurrent p' = pv_max_concurrent p \<and>
      pv_nonce_cache p' = pv_nonce_cache p"
  using assms by (auto simp: on_screened_def Let_def split: if_splits prod.splits)

lemma count_task_keeps:
  "pv_active_jobs (count_task b n p) = pv_active_jobs p \<and> pv_windows (count_task b n p) = pv_windows p \<and>
   pv_max_concurrent (count_task b n p) = pv_max_concurrent p \<and> pv_nonce_cache (count_task b n p) = pv_nonce_cache p"
  by (simp add: count_task_def Let_def)

lemma on_finished_point:
  assumes "on_finished lib m req secret outcome l p = (p', pt, entries)"
  shows "\<exists>r rest. pt = Answered r \<and> entries = Answer req r # rest \<and> (\<forall>e \<in> set rest. \<exists>body. e = Receipt req body)"
    and "pv_active_jobs p' = pv_active_jobs p \<and> pv_windows p' = pv_windows p \<and> pv_max_concurrent p' = pv_max_concurrent p \<and>
      pv_nonce_cache p' = pv_nonce_cache p"
  using assms by (auto simp: on_finished_def Let_def count_task_keeps split: sum.splits option.splits if_splits)

text \<open>A step of one request: what it counts up or down is what it comes to hold or gives up, and it gets a slot only below the limit.\<close>

lemma task_step_slots:
  assumes "task_step lib m pt p = (p', pt', entries)" and "of_bool (counted pt) \<le> pv_active_jobs p"
  shows "pv_active_jobs p' + of_bool (counted pt) = pv_active_jobs p + of_bool (counted pt') \<and>
    (holds_slot pt' \<and> \<not> holds_slot pt \<longrightarrow> pv_active_jobs p < effective_max_concurrent lib m p) \<and>
    pv_windows p' = pv_windows p \<and> pv_max_concurrent p' = pv_max_concurrent p"
proof (cases pt)
  case (Arrived hs body)
  obtain p1 pt1 where a: "on_arrived lib m hs body p = (p1, pt1)" by fastforce
  with assms Arrived on_arrived_point [OF a] show ?thesis by auto
next
  case (Screened hs req)
  with assms(1) have s: "on_screened lib m hs req p = (p', pt', entries)" by simp
  have h: "holds_slot pt'" using on_screened_point(1) [OF s] prepare_holds by auto
  then have "counted pt'" by (cases pt') simp_all
  then show ?thesis using on_screened_point(2) [OF s] Screened h by simp
next
  case (Finished req secret outcome l)
  with assms(1) have f: "on_finished lib m req secret outcome l p = (p', pt', entries)" by simp
  from on_finished_point [OF f] Finished show ?thesis by auto
next
  case (Admitted hs req)
  with assms show ?thesis by (auto split: option.splits prod.splits bool.splits)
next
  case (Overshot hs req d)
  with assms show ?thesis by (auto simp: Let_def split: option.splits if_splits)
next
  case (Checked hs req)
  with assms show ?thesis by (auto simp: try_admit_def Let_def split: if_splits)
next
  case (Retrying hs req d wake)
  with assms show ?thesis by (auto simp: try_admit_def Let_def split: if_splits)
qed (use assms in \<open>auto split: if_splits\<close>)

definition slots_inv :: "provider_lib \<Rightarrow> nat \<Rightarrow> service \<Rightarrow> bool" where
  "slots_inv lib K s \<longleftrightarrow>
     pv_active_jobs (sp_provider s) = counts counted (sp_tasks s) \<and> counts holds_slot (sp_tasks s) \<le> K \<and>
     (\<forall>c. effective_at (pl_fl lib) (pv_windows (sp_provider s)) (pv_max_concurrent (sp_provider s)) c \<le> K)"

lemma counts_mono: "(\<And>x. P x \<Longrightarrow> Q x) \<Longrightarrow> counts P xs \<le> counts Q xs"
  unfolding counts_def by (induction xs) auto

lemma holds_counted: "holds_slot pt \<Longrightarrow> counted pt"
  by (cases pt) simp_all

lemma counts_nth: "i < length pts \<Longrightarrow> of_bool (P (pts ! i)) \<le> counts P pts"
  by (auto simp: counts_def intro!: Suc_leI) (metis filter_empty_conv nth_mem)

lemma slots_step: "slots_inv lib K s \<Longrightarrow> slots_inv lib K (service_step lib e s)"
proof (cases e)
  case (Act i m)
  assume inv: "slots_inv lib K s"
  show ?thesis
  proof (cases "i < length (sp_tasks s)")
    case True
    obtain p pt entries where t: "task_step lib m (sp_tasks s ! i) (sp_provider s) = (p, pt, entries)" by (metis prod_cases3)
    have le: "of_bool (counted (sp_tasks s ! i)) \<le> pv_active_jobs (sp_provider s)"
      using counts_nth [OF True, of counted] inv by (simp add: slots_inv_def)
    note st = task_step_slots [OF t le] and c = counts_update [OF True, of counted pt] and h = counts_update [OF True, of holds_slot pt]
    have "counts holds_slot ((sp_tasks s)[i := pt]) \<le> K"
    proof (cases "holds_slot pt \<and> \<not> holds_slot (sp_tasks s ! i)")
      case True
      then have "pv_active_jobs (sp_provider s) < K" using st inv by (auto simp: slots_inv_def effective_max_concurrent_def intro: less_le_trans)
      moreover have "counts holds_slot (sp_tasks s) \<le> counts counted (sp_tasks s)" by (rule counts_mono) (rule holds_counted)
      ultimately show ?thesis using h True inv by (simp add: slots_inv_def)
    next
      case False
      then show ?thesis using h inv by (cases "holds_slot pt") (simp_all add: slots_inv_def of_bool_def split: if_splits)
    qed
    then show ?thesis using st c inv t True Act by (auto simp: slots_inv_def)
  qed (use inv Act in simp)
next
  case (Dropped i)
  assume inv: "slots_inv lib K s"
  show ?thesis
  proof (cases "i < length (sp_tasks s) \<and> droppable (sp_tasks s ! i)")
    case True
    then have l: "i < length (sp_tasks s)" by blast
    have "counted (sp_tasks s ! i) = holds_slot (sp_tasks s ! i)" using True by (cases "sp_tasks s ! i") simp_all
    then show ?thesis using inv Dropped True counts_update [OF l, of counted "Gone (holds_slot (sp_tasks s ! i))"]
        counts_update [OF l, of holds_slot "Gone (holds_slot (sp_tasks s ! i))"]
      by (auto simp: slots_inv_def)
  qed (use inv Dropped in auto)
qed (auto simp: slots_inv_def counts_def)

interpretation pv: step_system "service_step lib" "slots_inv lib K" for lib K
  by unfold_locales (rule slots_step)

fun executing :: "task_point \<Rightarrow> bool" where
  "executing (Executing req secret started) = True"
| "executing _ = False"

text \<open>The slots of requests that ended without giving theirs back.\<close>

fun lost_slot :: "task_point \<Rightarrow> bool" where
  "lost_slot (Gone held) = held"
| "lost_slot _ = False"

lemma executing_or_lost: "counts executing pts + counts lost_slot pts \<le> counts holds_slot pts"
proof (induction pts)
  case (Cons pt pts)
  then show ?case by (cases pt) (simp_all add: counts_def)
qed (simp add: counts_def)

text \<open>C8.  However requests interleave, are dropped or stopped, the handlers in execution and the slots lost so far are together never more than
  the largest limit the availability windows give, and the counter is the number of requests that count.\<close>

theorem handlers_bounded:
  assumes "started_service s" and "\<forall>c. effective_at (pl_fl lib) (pv_windows (sp_provider s)) (pv_max_concurrent (sp_provider s)) c \<le> K"
  shows "let s' = fold (service_step lib) evs s in
    counts executing (sp_tasks s') + counts lost_slot (sp_tasks s') \<le> K \<and> pv_active_jobs (sp_provider s') = counts counted (sp_tasks s')"
proof -
  have "slots_inv lib K s" using assms by (simp add: slots_inv_def started_service_def counts_def)
  from pv.run_inv [OF this, of evs] show ?thesis
    using executing_or_lost [of "sp_tasks (fold (service_step lib) evs s)"] by (simp add: slots_inv_def Let_def)
qed

text \<open>Once as many slots are lost as the limit allows, no request is admitted any more.\<close>

lemma lost_slots_refuse:
  assumes "slots_inv lib K s" and "counts lost_slot (sp_tasks s) = K"
    and "task_step lib m pt (sp_provider s) = (p', pt', entries)" and "holds_slot pt'"
  shows "holds_slot pt"
proof (rule ccontr)
  assume no: "\<not> holds_slot pt"
  have k: "K \<le> pv_active_jobs (sp_provider s)"
    using assms(1,2) counts_mono [of lost_slot counted "sp_tasks s"] by (metis slots_inv_def counted.simps(12) holds_slot.simps(5) lost_slot.elims(2))
  have "effective_max_concurrent lib m (sp_provider s) \<le> K" using assms(1) by (simp add: slots_inv_def effective_max_concurrent_def)
  with k have full: "\<not> pv_active_jobs (sp_provider s) < effective_max_concurrent lib m (sp_provider s)" by simp
  show False
  proof (cases pt)
    case (Arrived hs body)
    obtain p1 pt1 where a: "on_arrived lib m hs body (sp_provider s) = (p1, pt1)" by fastforce
    with assms(3,4) Arrived on_arrived_point [OF a] show ?thesis by auto
  next
    case (Finished req secret outcome l)
    with assms(3) have f: "on_finished lib m req secret outcome l (sp_provider s) = (p', pt', entries)" by simp
    from on_finished_point(1) [OF f] assms(4) show ?thesis by auto
  qed (use assms(3,4) no full in \<open>auto simp: try_admit_def Let_def split: option.splits if_splits\<close>)
qed

subsection \<open>Nonces\<close>

fun passes :: "string \<Rightarrow> record_entry \<Rightarrow> bool" where
  "passes n (Passed k t) \<longleftrightarrow> k = n"
| "passes n _ \<longleftrightarrow> False"

fun starts :: "string \<Rightarrow> record_entry \<Rightarrow> bool" where
  "starts n (Started req) \<longleftrightarrow> pt_nonce req = Some n"
| "starts n _ \<longleftrightarrow> False"

fun past_nonce :: "string \<Rightarrow> task_point \<Rightarrow> bool" where
  "past_nonce n (Screened hs req) \<longleftrightarrow> pt_nonce req = Some n"
| "past_nonce n _ \<longleftrightarrow> False"

text \<open>An event whose readings lie within the lifetime of a nonce from \<open>t\<close> on.\<close>

fun within_ttl :: "int \<Rightarrow> service_event \<Rightarrow> bool" where
  "within_ttl t (Act i m) \<longleftrightarrow> t \<le> mo_now m \<and> mo_now m < t + NONCE_TTL_SECS * 10 ^ 9 \<and> t \<le> mo_inserted m"
| "within_ttl t _ \<longleftrightarrow> True"

text \<open>The nonce was taken since \<open>t\<close>.\<close>

definition taken_since :: "int \<Rightarrow> string \<Rightarrow> service \<Rightarrow> bool" where
  "taken_since t n s \<longleftrightarrow> (\<exists>since. hget (pv_nonce_cache (sp_provider s)) n = Some since \<and> t \<le> since)"

lemma check_nonce_keeps:
  assumes "hwf cache" and "check_nonce k now ins cache = (cache', b)" and "t \<le> ins" and "now < t + NONCE_TTL_SECS * 10 ^ 9"
    and "hget cache n = Some since" and "t \<le> since"
  shows "(\<exists>since'. hget cache' n = Some since' \<and> t \<le> since') \<and> (k = n \<longrightarrow> \<not> b)"
proof -
  have "max 0 (now - since) div 10 ^ 9 < NONCE_TTL_SECS" using assms(4,6) by (auto simp: NONCE_TTL_SECS_def max_def)
  then show ?thesis using assms(1,2,3,5,6)
    by (cases "k = n") (auto simp: check_nonce_def Let_def hget_hretain update_conv' split: if_splits)
qed

lemma task_step_other:
  assumes "task_step lib m pt p = (p', pt', entries)" and "\<And>hs req. pt = Admitted hs req \<Longrightarrow> pt_nonce req = None"
  shows "pv_nonce_cache p' = pv_nonce_cache p \<and> filter (passes n) entries = [] \<and>
    length (filter (starts n) entries) + of_bool (past_nonce n pt') \<le> (of_bool (past_nonce n pt) :: nat)"
proof (cases pt)
  case (Arrived hs body)
  obtain p1 pt1 where a: "on_arrived lib m hs body p = (p1, pt1)" by fastforce
  with assms Arrived on_arrived_point [OF a] show ?thesis by auto
next
  case (Screened hs req)
  with assms(1) have s: "on_screened lib m hs req p = (p', pt', entries)" by simp
  have "length (filter (starts n) entries) + of_bool (past_nonce n pt') \<le> (of_bool (pt_nonce req = Some n) :: nat) \<and> filter (passes n) entries = []"
    using on_screened_point(1) [OF s]
  proof (elim disjE exE)
    fix p'' assume "prepare lib m hs req p'' = (pt', entries)"
    then show ?thesis using prepare_point [of lib m hs req p''] by auto
  qed simp
  then show ?thesis using on_screened_point(2) [OF s] Screened by simp
next
  case (Finished req secret outcome l)
  with assms(1) have f: "on_finished lib m req secret outcome l p = (p', pt', entries)" by simp
  have "filter (starts n) entries = [] \<and> filter (passes n) entries = [] \<and> \<not> past_nonce n pt'"
    using on_finished_point(1) [OF f] by (fastforce simp: filter_empty_conv)
  then show ?thesis using on_finished_point(2) [OF f] Finished by simp
next
  case (Admitted hs req)
  with assms(1) assms(2) [OF Admitted] show ?thesis by auto
qed (use assms(1) in \<open>auto simp: try_admit_def Let_def split: option.splits if_splits\<close>)

lemma task_step_admitted:
  assumes "task_step lib m (Admitted hs req) p = (p', pt', entries)" and "pt_nonce req = Some k"
  shows "\<exists>b. check_nonce k (mo_now m) (mo_inserted m) (pv_nonce_cache p) = (pv_nonce_cache p', b) \<and>
    entries = (if b then [Passed k (mo_inserted m)] else []) \<and> past_nonce n pt' = (b \<and> k = n) \<and>
    (b \<longrightarrow> hget (pv_nonce_cache p') k = Some (mo_inserted m))"
proof -
  obtain cache b where c: "check_nonce k (mo_now m) (mo_inserted m) (pv_nonce_cache p) = (cache, b)" by fastforce
  then have h: "b \<longrightarrow> hget cache k = Some (mo_inserted m)" by (auto simp: check_nonce_def Let_def split: if_splits)
  have "p' = p\<lparr>pv_nonce_cache := cache\<rparr> \<and> entries = (if b then [Passed k (mo_inserted m)] else []) \<and> past_nonce n pt' = (b \<and> k = n)"
    using assms c by (cases b) auto
  with c h show ?thesis by (intro exI [of _ b]) simp
qed

lemma task_step_nonce:
  assumes "task_step lib m pt p = (p', pt', entries)"
  shows "length (filter (starts n) entries) + of_bool (past_nonce n pt') \<le> of_bool (past_nonce n pt) + length (filter (passes n) entries) \<and>
    (pv_nonce_cache p' = pv_nonce_cache p \<and> filter (passes n) entries = [] \<or>
     (\<exists>k b. check_nonce k (mo_now m) (mo_inserted m) (pv_nonce_cache p) = (pv_nonce_cache p', b) \<and>
        length (filter (passes n) entries) = of_bool (k = n \<and> b) \<and> (b \<longrightarrow> hget (pv_nonce_cache p') k = Some (mo_inserted m))))"
proof (cases "\<exists>hs req k. pt = Admitted hs req \<and> pt_nonce req = Some k")
  case True
  then obtain hs req k where pt: "pt = Admitted hs req" "pt_nonce req = Some k" by blast
  obtain b where b: "check_nonce k (mo_now m) (mo_inserted m) (pv_nonce_cache p) = (pv_nonce_cache p', b)"
    "entries = (if b then [Passed k (mo_inserted m)] else [])" "past_nonce n pt' = (b \<and> k = n)"
    "b \<longrightarrow> hget (pv_nonce_cache p') k = Some (mo_inserted m)"
    using task_step_admitted [OF assms [unfolded pt(1)] pt(2), of n] by blast
  have "length (filter (passes n) entries) = of_bool (k = n \<and> b)" "filter (starts n) entries = []" unfolding b(2) by auto
  then show ?thesis using b(1,3,4) by (intro conjI disjI2 exI [of _ k] exI [of _ b]) simp_all
next
  case False
  then have o: "\<And>hs req. pt = Admitted hs req \<Longrightarrow> pt_nonce req = None" by (metis option.exhaust)
  from task_step_other [where n = n, OF assms o] show ?thesis by (intro conjI disjI1) simp_all
qed

lemma check_nonce_wf: "hwf cache \<Longrightarrow> check_nonce k now ins cache = (cache', b) \<Longrightarrow> hwf cache'"
  by (auto simp: check_nonce_def Let_def split: if_splits)

lemma service_nonce_wf: "hwf (pv_nonce_cache (sp_provider s)) \<Longrightarrow> hwf (pv_nonce_cache (sp_provider (service_step lib e s)))"
proof (cases e)
  case (Act i m)
  assume wf: "hwf (pv_nonce_cache (sp_provider s))"
  obtain p pt entries where st: "task_step lib m (sp_tasks s ! i) (sp_provider s) = (p, pt, entries)" by (metis prod_cases3)
  have "hwf (pv_nonce_cache p)" using task_step_nonce [OF st, of "[]"] check_nonce_wf [OF wf] wf by metis
  then show ?thesis using Act st wf by simp
qed simp_all

text \<open>From one state to a later one: the handler started for no more requests than were past the check or passed it, and the nonce passed at
  most once since \<open>t\<close>.\<close>

definition nonce_bounded :: "int \<Rightarrow> string \<Rightarrow> service \<Rightarrow> service \<Rightarrow> bool" where
  "nonce_bounded t n s s' \<longleftrightarrow> (\<exists>new. sp_log s' = sp_log s @ new \<and>
     length (filter (starts n) new) + counts (past_nonce n) (sp_tasks s') \<le> counts (past_nonce n) (sp_tasks s) + length (filter (passes n) new) \<and>
     length (filter (passes n) new) + of_bool (taken_since t n s) \<le> of_bool (taken_since t n s'))"

lemma nonce_bounded_trans: "nonce_bounded t n s s1 \<Longrightarrow> nonce_bounded t n s1 s2 \<Longrightarrow> nonce_bounded t n s s2"
proof -
  assume "nonce_bounded t n s s1" "nonce_bounded t n s1 s2"
  then obtain new more where l: "sp_log s1 = sp_log s @ new" "sp_log s2 = sp_log s1 @ more"
    and c: "length (filter (starts n) new) + counts (past_nonce n) (sp_tasks s1) \<le> counts (past_nonce n) (sp_tasks s) + length (filter (passes n) new)"
      "length (filter (starts n) more) + counts (past_nonce n) (sp_tasks s2) \<le> counts (past_nonce n) (sp_tasks s1) + length (filter (passes n) more)"
    and p: "length (filter (passes n) new) + of_bool (taken_since t n s) \<le> (of_bool (taken_since t n s1) :: nat)"
      "length (filter (passes n) more) + of_bool (taken_since t n s1) \<le> (of_bool (taken_since t n s2) :: nat)"
    unfolding nonce_bounded_def by (elim exE conjE) (rule that; assumption)
  have "length (filter (starts n) (new @ more)) + counts (past_nonce n) (sp_tasks s2) \<le> counts (past_nonce n) (sp_tasks s) + length (filter (passes n) (new @ more))"
    using c by simp
  moreover have "length (filter (passes n) (new @ more)) + of_bool (taken_since t n s) \<le> (of_bool (taken_since t n s2) :: nat)"
    unfolding filter_append length_append using p by linarith
  ultimately show ?thesis using l unfolding nonce_bounded_def by (intro exI [of _ "new @ more"] conjI) simp_all
qed

lemma nonce_bounded_same:
  assumes "sp_log s' = sp_log s" and "counts (past_nonce n) (sp_tasks s') \<le> counts (past_nonce n) (sp_tasks s)"
    and "pv_nonce_cache (sp_provider s') = pv_nonce_cache (sp_provider s)"
  shows "nonce_bounded t n s s'"
  using assms unfolding nonce_bounded_def by (intro exI [of _ "[]"]) (simp add: taken_since_def)

lemma task_step_taken:
  assumes "task_step lib m pt (sp_provider s) = (p, pt', entries)" and "within_ttl t (Act i m)" and "hwf (pv_nonce_cache (sp_provider s))"
  shows "length (filter (passes n) entries) + of_bool (taken_since t n s) \<le> (of_bool (\<exists>since. hget (pv_nonce_cache p) n = Some since \<and> t \<le> since) :: nat)"
  using conjunct2 [OF task_step_nonce [OF assms(1), of n]]
proof (elim disjE conjE exE)
  fix k b assume k: "check_nonce k (mo_now m) (mo_inserted m) (pv_nonce_cache (sp_provider s)) = (pv_nonce_cache p, b)"
    "length (filter (passes n) entries) = of_bool (k = n \<and> b)" "b \<longrightarrow> hget (pv_nonce_cache p) k = Some (mo_inserted m)"
  have w: "t \<le> mo_inserted m" "mo_now m < t + NONCE_TTL_SECS * 10 ^ 9" using assms(2) by simp_all
  show ?thesis
  proof (cases "taken_since t n s")
    case True
    then obtain since where since: "hget (pv_nonce_cache (sp_provider s)) n = Some since" "t \<le> since" by (auto simp: taken_since_def)
    from check_nonce_keeps [OF assms(3) k(1) w since] k(2) show ?thesis by auto
  next
    case False
    then show ?thesis using k w by (cases "k = n \<and> b") auto
  qed
qed (simp add: taken_since_def)

lemma act_nonce_bounded:
  assumes "within_ttl t (Act i m)" and "hwf (pv_nonce_cache (sp_provider s))" and i: "i < length (sp_tasks s)"
  shows "nonce_bounded t n s (service_step lib (Act i m) s)"
proof -
  obtain p pt entries where st: "task_step lib m (sp_tasks s ! i) (sp_provider s) = (p, pt, entries)" by (metis prod_cases3)
  have eq: "service_step lib (Act i m) s = s\<lparr>sp_provider := p, sp_tasks := (sp_tasks s)[i := pt], sp_log := sp_log s @ entries\<rparr>"
    using i st by simp
  have c: "length (filter (starts n) entries) + counts (past_nonce n) ((sp_tasks s)[i := pt]) \<le>
      counts (past_nonce n) (sp_tasks s) + length (filter (passes n) entries)"
    using conjunct1 [OF task_step_nonce [OF st, of n]] counts_update [OF i, of "past_nonce n" pt] by linarith
  note p = task_step_taken [OF st assms(1,2), of n]
  show ?thesis unfolding nonce_bounded_def eq
    by (rule exI [of _ entries]) (use c p in \<open>simp add: taken_since_def\<close>)
qed

lemma drop_nonce_bounded: "nonce_bounded t n s (service_step lib (Dropped i) s)"
proof (cases "i < length (sp_tasks s)")
  case True
  from counts_update [OF this, of "past_nonce n" "Gone (holds_slot (sp_tasks s ! i))"]
  have "counts (past_nonce n) ((sp_tasks s)[i := Gone (holds_slot (sp_tasks s ! i))]) \<le> counts (past_nonce n) (sp_tasks s)" by simp
  then show ?thesis by (intro nonce_bounded_same) simp_all
qed (simp add: nonce_bounded_same)

lemma service_nonce_step:
  assumes "within_ttl t e" and "hwf (pv_nonce_cache (sp_provider s))"
  shows "nonce_bounded t n s (service_step lib e s)"
proof (cases e)
  case (Act i m)
  then show ?thesis
    using act_nonce_bounded [of t i m s n lib] assms by (cases "i < length (sp_tasks s)") (simp_all add: nonce_bounded_same del: within_ttl.simps)
next
  case (Dropped i)
  then show ?thesis using drop_nonce_bounded by simp
qed (auto intro!: nonce_bounded_same simp: counts_def)

lemma service_nonce_run:
  assumes "list_all (within_ttl t) evs" and "hwf (pv_nonce_cache (sp_provider s))"
  shows "nonce_bounded t n s (fold (service_step lib) evs s)"
  using assms
proof (induction evs arbitrary: s)
  case (Cons e evs)
  then have w: "within_ttl t e" "list_all (within_ttl t) evs" "hwf (pv_nonce_cache (sp_provider s))" by simp_all
  from nonce_bounded_trans [OF service_nonce_step [OF w(1,3)] Cons.IH [OF w(2) service_nonce_wf [OF w(3)]]] show ?case by simp
qed (simp add: nonce_bounded_same)

text \<open>C7.  Within the lifetime of a nonce, 300 seconds, the handler runs at most once for requests that carry it, whatever the interleaving of
  the requests and whatever state the service is in: only requests that had passed the check before add to that.\<close>

theorem nonce_runs_once:
  assumes "list_all (within_ttl t) evs" and "hwf (pv_nonce_cache (sp_provider s))"
  shows "\<exists>new. sp_log (fold (service_step lib) evs s) = sp_log s @ new \<and>
    length (filter (starts n) new) \<le> 1 + counts (past_nonce n) (sp_tasks s)"
proof -
  obtain new where new: "sp_log (fold (service_step lib) evs s) = sp_log s @ new"
    and c: "length (filter (starts n) new) + counts (past_nonce n) (sp_tasks (fold (service_step lib) evs s)) \<le>
      counts (past_nonce n) (sp_tasks s) + length (filter (passes n) new)"
    and p: "length (filter (passes n) new) + of_bool (taken_since t n s) \<le> (of_bool (taken_since t n (fold (service_step lib) evs s)) :: nat)"
    using service_nonce_run [OF assms, of n lib] unfolding nonce_bounded_def by (elim exE conjE) (rule that; assumption)
  have "length (filter (passes n) new) \<le> 1" using add_leD1 [OF p] by (rule order_trans) (rule of_bool_less_eq_one)
  with c have le: "length (filter (starts n) new) \<le> 1 + counts (past_nonce n) (sp_tasks s)" by linarith
  show ?thesis by (rule exI [of _ new], rule conjI [OF new le])
qed

subsection \<open>Answers and receipts\<close>

definition wants_sealed :: "provider_task \<Rightarrow> bool" where
  "wants_sealed req \<longleftrightarrow> pt_cx_response_encryption req = Some ''required''"

text \<open>A response that does not carry a result in the clear.\<close>

definition no_result :: "response \<Rightarrow> bool" where
  "no_result r \<longleftrightarrow> json_get (snd r) ''result'' = None"

fun sealed_point :: "task_point \<Rightarrow> bool" where
  "sealed_point (Executing req secret started) \<longleftrightarrow> (wants_sealed req \<longrightarrow> secret \<noteq> None)"
| "sealed_point (Finished req secret outcome l) \<longleftrightarrow> (wants_sealed req \<longrightarrow> secret \<noteq> None)"
| "sealed_point (Leaving req r) \<longleftrightarrow> no_result r"
| "sealed_point _ \<longleftrightarrow> True"

fun sealed_entry :: "record_entry \<Rightarrow> bool" where
  "sealed_entry (Answer req r) \<longleftrightarrow> (wants_sealed req \<longrightarrow> no_result r)"
| "sealed_entry _ \<longleftrightarrow> True"

lemma no_result_error [simp]: "no_result (st, error_json code message)"
  by (simp add: no_result_def error_json_def)

lemma no_result_limit: "no_result (st, body) \<Longrightarrow> no_result (task_json_response lib st' body)"
  by (simp add: task_json_response_def no_result_def error_json_def split: option.split)

lemma no_result_response [simp]: "no_result (st, task_response_json task_id status None conf err ai)"
  by (simp add: no_result_def task_response_json_def split: option.split)

lemma no_result_failed [simp]: "no_result (failed_response lib task_id message)"
  unfolding failed_response_def by (rule no_result_limit) (rule no_result_response)

lemma on_finished_sealed:
  assumes "on_finished lib m req secret outcome l p = (p', pt, entries)" and "wants_sealed req \<longrightarrow> secret \<noteq> None"
  shows "list_all sealed_entry entries"
proof (cases "wants_sealed req")
  case True
  then obtain k where "secret = Some k" "pt_cx_response_encryption req = Some ''required''" using assms(2) by (auto simp: wants_sealed_def)
  then show ?thesis using assms(1) by (auto simp: on_finished_def Let_def no_result_limit split: sum.splits if_splits option.splits)
next
  case False
  have "e \<in> set entries \<Longrightarrow> sealed_entry e" for e using on_finished_point(1) [OF assms(1)] False by (cases e) auto
  then show ?thesis by (simp add: list_all_iff)
qed

lemma prepare_sealed: "prepare lib m hs req p = (pt, entries) \<Longrightarrow> sealed_point pt \<and> list_all sealed_entry entries"
  by (auto simp: prepare_def Let_def wants_sealed_def split: option.splits sum.splits if_splits)

lemma task_step_sealed:
  assumes "task_step lib m pt p = (p', pt', entries)" and "sealed_point pt"
  shows "sealed_point pt' \<and> list_all sealed_entry entries"
proof (cases pt)
  case (Arrived hs body)
  obtain p1 pt1 where a: "on_arrived lib m hs body p = (p1, pt1)" by fastforce
  with assms Arrived on_arrived_point [OF a] show ?thesis by auto
next
  case (Screened hs req)
  with assms(1) have "on_screened lib m hs req p = (p', pt', entries)" by simp
  then show ?thesis using prepare_sealed by (auto simp: on_screened_def Let_def split: if_splits prod.splits)
next
  case (Finished req secret outcome l)
  with assms(1) have f: "on_finished lib m req secret outcome l p = (p', pt', entries)" by simp
  from on_finished_point(1) [OF f] have "sealed_point pt'" by auto
  with on_finished_sealed [OF f] assms(2) Finished show ?thesis by simp
next
  case (Admitted hs req)
  with assms show ?thesis by (auto split: option.splits prod.splits bool.splits)
qed (use assms in \<open>auto simp: try_admit_def Let_def split: option.splits if_splits\<close>)

definition sealed_inv :: "service \<Rightarrow> bool" where
  "sealed_inv s \<longleftrightarrow> list_all sealed_point (sp_tasks s) \<and> list_all sealed_entry (sp_log s)"

lemma list_all_update: "list_all P xs \<Longrightarrow> P x \<Longrightarrow> list_all P (xs[i := x])"
  by (auto simp: list_all_iff dest: set_update_subset_insert [THEN subsetD])

lemma sealed_step: "sealed_inv s \<Longrightarrow> sealed_inv (service_step lib e s)"
proof (cases e)
  case (Act i m)
  assume inv: "sealed_inv s"
  obtain p pt entries where st: "task_step lib m (sp_tasks s ! i) (sp_provider s) = (p, pt, entries)" by (metis prod_cases3)
  show ?thesis
  proof (cases "i < length (sp_tasks s)")
    case True
    then have "sealed_point (sp_tasks s ! i)" using inv by (simp add: sealed_inv_def list_all_length)
    from task_step_sealed [OF st this] show ?thesis using inv Act st True by (simp add: sealed_inv_def list_all_update)
  qed (use inv Act in simp)
qed (auto simp: sealed_inv_def list_all_update)

interpretation ps: step_system "service_step lib" sealed_inv for lib
  by unfold_locales (rule sealed_step)

text \<open>C12.  A request that requires an encrypted response never gets its result in the clear: in any run, every answer to such a request is
  an error or carries the sealed response, but no result.\<close>

theorem required_response_sealed:
  assumes "started_service s"
  shows "\<forall>req r. Answer req r \<in> set (sp_log (fold (service_step lib) evs s)) \<and> wants_sealed req \<longrightarrow> no_result r"
proof -
  have "sealed_inv s" using assms by (simp add: sealed_inv_def started_service_def)
  from ps.run_inv [OF this, of lib evs] show ?thesis by (auto simp: sealed_inv_def list_all_iff)
qed

fun receipt_for :: "string \<Rightarrow> record_entry \<Rightarrow> bool" where
  "receipt_for t (Receipt req body) \<longleftrightarrow> pt_task_id req = t"
| "receipt_for t _ \<longleftrightarrow> False"

fun delivered :: "string \<Rightarrow> record_entry \<Rightarrow> bool" where
  "delivered t (Answer req r) \<longleftrightarrow> pt_task_id req = t \<and> fst r = 200"
| "delivered t _ \<longleftrightarrow> False"

lemma on_finished_receipts:
  assumes "on_finished lib m req secret outcome l p = (p', pt, entries)"
  shows "length (filter (receipt_for t) entries) \<le> length (filter (delivered t) entries)"
  using assms by (auto simp: on_finished_def Let_def split: sum.splits if_splits option.splits)

lemma task_step_receipts:
  assumes "task_step lib m pt p = (p', pt', entries)"
  shows "length (filter (receipt_for t) entries) \<le> length (filter (delivered t) entries)"
proof (cases pt)
  case (Screened hs req)
  with assms(1) have s: "on_screened lib m hs req p = (p', pt', entries)" by simp
  have "filter (receipt_for t) entries = []"
    using on_screened_point(1) [OF s]
  proof (elim disjE exE)
    fix p'' assume "prepare lib m hs req p'' = (pt', entries)"
    then show ?thesis using prepare_point [of lib m hs req p''] by auto
  qed simp
  then show ?thesis by simp
next
  case (Finished req secret outcome l)
  with assms show ?thesis by (simp add: on_finished_receipts)
next
  case (Admitted hs req)
  with assms show ?thesis by (auto split: option.splits prod.splits bool.splits)
qed (use assms in \<open>auto simp: try_admit_def Let_def split: option.splits if_splits prod.splits\<close>)

definition receipts_inv :: "service \<Rightarrow> bool" where
  "receipts_inv s \<longleftrightarrow> (\<forall>t. length (filter (receipt_for t) (sp_log s)) \<le> length (filter (delivered t) (sp_log s)))"

lemma receipts_step: "receipts_inv s \<Longrightarrow> receipts_inv (service_step lib e s)"
proof (cases e)
  case (Act i m)
  assume inv: "receipts_inv s"
  obtain p pt entries where st: "task_step lib m (sp_tasks s ! i) (sp_provider s) = (p, pt, entries)" by (metis prod_cases3)
  have "length (filter (receipt_for t) (sp_log s)) + length (filter (receipt_for t) entries) \<le>
      length (filter (delivered t) (sp_log s)) + length (filter (delivered t) entries)" for t
    using inv task_step_receipts [OF st, of t] by (intro add_mono) (simp_all add: receipts_inv_def)
  then show ?thesis using inv Act st by (simp add: receipts_inv_def)
qed (auto simp: receipts_inv_def)

interpretation pr: step_system "service_step lib" receipts_inv for lib
  by unfold_locales (rule receipts_step)

text \<open>C24.  Only delivered work is billed: in any run, the receipts posted for a task are never more than the answers with status 200 that were given for
  it, so a task that failed, was refused, dropped, or whose response was too large is not billed.\<close>

theorem receipts_only_delivered:
  assumes "started_service s"
  shows "length (filter (receipt_for t) (sp_log (fold (service_step lib) evs s))) \<le> length (filter (delivered t) (sp_log (fold (service_step lib) evs s)))"
proof -
  have "receipts_inv s" using assms by (simp add: receipts_inv_def started_service_def)
  from pr.run_inv [OF this, of lib evs] show ?thesis by (simp add: receipts_inv_def)
qed

subsection \<open>The queue\<close>

text \<open>A request on its own, with whatever the others make of the shared state between its steps.\<close>

definition task_acts :: "provider_lib \<Rightarrow> (moment \<times> provider) list \<Rightarrow> task_point \<Rightarrow> task_point" where
  "task_acts lib mps pt = fold (\<lambda>(m, p) pt. fst (snd (task_step lib m pt p))) mps pt"

fun in_admission :: "task_point \<Rightarrow> bool" where
  "in_admission (Checked hs req) = True"
| "in_admission (Overshot hs req deadline) = True"
| "in_admission (Looping hs req d) = True"
| "in_admission (Retrying hs req d wake) = True"
| "in_admission _ = False"

text \<open>Still in admission, with a deadline before \<open>T\<close>, and how many steps past \<open>T\<close> it takes to leave.\<close>

fun due :: "int \<Rightarrow> task_point \<Rightarrow> nat option" where
  "due T (Overshot hs req (Some d)) = (if d \<le> T then Some 2 else None)"
| "due T (Looping hs req d) = (if d \<le> T then Some 1 else None)"
| "due T (Retrying hs req d wake) = (if d \<le> T \<and> wake \<le> T then Some 3 else None)"
| "due T pt = (if in_admission pt then None else Some 0)"

lemma due_zero: "due T pt = Some 0 \<longleftrightarrow> \<not> in_admission pt"
  by (cases "(T, pt)" rule: due.cases) auto

lemma due_step_late:
  assumes "due T pt = Some k" and "T \<le> mo_now m" and "\<And>hs body. pt \<noteq> Arrived hs body"
  shows "(\<exists>k'. due T (fst (snd (task_step lib m pt p))) = Some k' \<and> k' \<le> k - 1) \<and> (\<forall>hs body. fst (snd (task_step lib m pt p)) \<noteq> Arrived hs body)"
proof (cases pt)
  case (Screened hs req)
  have "holds_slot (fst (snd (on_screened lib m hs req p)))"
    using on_screened_point(1) [of lib m hs req p] prepare_holds by (metis holds_slot.simps(4) prod.collapse)
  then have "due T (fst (snd (on_screened lib m hs req p))) = Some 0 \<and> (\<forall>hs' b. fst (snd (on_screened lib m hs req p)) \<noteq> Arrived hs' b)"
    by (cases "fst (snd (on_screened lib m hs req p))") auto
  then show ?thesis using Screened by simp
next
  case (Finished req secret outcome l)
  have "\<exists>r. fst (snd (on_finished lib m req secret outcome l p)) = Answered r"
    using on_finished_point(1) [of lib m req secret outcome l p] by (metis prod.collapse)
  then show ?thesis using Finished by auto
next
  case (Admitted hs req)
  show ?thesis unfolding Admitted by (auto split: option.split prod.split bool.split)
qed (use assms in \<open>auto simp: try_admit_def Let_def split: option.splits if_splits\<close>)

lemma due_acts_late:
  assumes "due T pt = Some k" and "\<And>hs body. pt \<noteq> Arrived hs body" and "list_all (\<lambda>(m, p). T \<le> mo_now m) mps" and "k \<le> length mps"
  shows "\<not> in_admission (task_acts lib mps pt)"
  using assms
proof (induction mps arbitrary: pt k)
  case Nil
  then show ?case using due_zero [of T pt] by (simp add: task_acts_def)
next
  case (Cons mp mps)
  obtain m p where mp: "mp = (m, p)" by fastforce
  from due_step_late [OF Cons.prems(1) _ Cons.prems(2), of m lib p] Cons.prems(3) mp
  obtain k' where k': "due T (fst (snd (task_step lib m pt p))) = Some k'" "k' \<le> k - 1"
    and na: "\<And>hs body. fst (snd (task_step lib m pt p)) \<noteq> Arrived hs body" by auto
  have "\<not> in_admission (task_acts lib mps (fst (snd (task_step lib m pt p))))"
    using Cons.IH [OF k'(1) na] Cons.prems(3,4) k'(2) by simp
  then show ?case using mp by (simp add: task_acts_def)
qed

text \<open>Before \<open>t\<close> every deadline set is before \<open>t\<close> plus the wait, and every sleep ends before that.\<close>

lemma due_step_early:
  assumes "due (t + QUEUE_WAIT + 50 * 10 ^ 6) pt = Some k" and "mo_now m \<le> t" and "\<And>hs body. pt \<noteq> Arrived hs body"
  shows "\<exists>k' \<le> 3. due (t + QUEUE_WAIT + 50 * 10 ^ 6) (fst (snd (task_step lib m pt p))) = Some k' \<and>
    (\<forall>hs body. fst (snd (task_step lib m pt p)) \<noteq> Arrived hs body)"
proof (cases "in_admission pt")
  case False
  then have "due (mo_now m) pt = Some 0" using due_zero by blast
  from due_step_late [OF this order_refl assms(3), of lib p] have
    na: "\<not> in_admission (fst (snd (task_step lib m pt p)))" "\<forall>hs body. fst (snd (task_step lib m pt p)) \<noteq> Arrived hs body"
    using due_zero by auto
  then show ?thesis using due_zero by (intro exI [of _ 0]) auto
next
  case True
  then show ?thesis using assms by (cases pt) (auto simp: try_admit_def Let_def QUEUE_WAIT_def split: option.splits if_splits)
qed

lemma due_acts_early:
  assumes "due (t + QUEUE_WAIT + 50 * 10 ^ 6) pt = Some k" and "k \<le> 3" and "\<And>hs body. pt \<noteq> Arrived hs body" and "list_all (\<lambda>(m, p). mo_now m \<le> t) mps"
  shows "\<exists>k' \<le> 3. due (t + QUEUE_WAIT + 50 * 10 ^ 6) (task_acts lib mps pt) = Some k' \<and> (\<forall>hs body. task_acts lib mps pt \<noteq> Arrived hs body)"
  using assms
proof (induction mps arbitrary: pt k)
  case (Cons mp mps)
  obtain m p where mp: "mp = (m, p)" by fastforce
  from due_step_early [OF Cons.prems(1) _ Cons.prems(3), of m lib p] Cons.prems(4) mp
  obtain k' where k': "k' \<le> 3" "due (t + QUEUE_WAIT + 50 * 10 ^ 6) (fst (snd (task_step lib m pt p))) = Some k'"
    and na: "\<And>hs body. fst (snd (task_step lib m pt p)) \<noteq> Arrived hs body" by auto
  from Cons.IH [OF k'(2,1) na] Cons.prems(4) show ?case using mp by (simp add: task_acts_def)
qed (auto simp: task_acts_def)


subsection \<open>What the envelope of a sealed request leaves open\<close>

text \<open>A request with an envelope is opened with the additional data inside the envelope: under another task identifier and another intent the
  same envelope gives the handler the same payload.\<close>

lemma envelope_not_bound:
  assumes "prepare lib m hs req p = (Executing req' (Some secret) t, entries)"
  shows "\<exists>entries'. prepare lib m hs (req\<lparr>pt_task_id := other_id, pt_intent := other_intent\<rparr>) p =
    (Executing (req'\<lparr>pt_task_id := other_id, pt_intent := other_intent\<rparr>) (Some secret) t, entries')"
  using assms by (auto simp: prepare_def Let_def conf_of_def split: option.splits sum.splits if_splits)

text \<open>An envelope with a short nonce takes a slot for good.\<close>

lemma short_nonce_loses_slot:
  assumes "cx_lawful (pl_cx lib)" and "cx_utf8 (pl_cx lib) ''|'' = Inr ()" and "length pub = 32" and "pv_cx_private_key p \<noteq> None"
    and "pt_payload req = JNull"
    and "pt_iicp_conf req = Some [(''kem_ciphertext'', JStr (cx_b64 (pl_cx lib) pub)), (''nonce'', JStr (cx_b64 (pl_cx lib) [])),
      (''aad'', JStr (cx_b64 (pl_cx lib) ''|'')), (''encrypted_body'', JStr (cx_b64 (pl_cx lib) []))]"
  shows "prepare lib m hs req p = (Gone True, [])"
  using assms short_nonce_panics(1) [OF assms(1-3)] by (auto simp: prepare_def conf_of_def split: option.split)

subsection \<open>Health and addresses\<close>

text \<open>The body of \<^verbatim>\<open>GET /iicp/health\<close>; region, intent, models and the state of the pinhole are arguments.\<close>

definition health_endpoint :: "provider_lib \<Rightarrow> moment \<Rightarrow> string \<Rightarrow> string \<Rightarrow> string list \<Rightarrow> (u64 \<times> u64) option \<Rightarrow> provider \<Rightarrow> json" where
  "health_endpoint lib m region intent models pinhole p =
    (let active = pv_active_jobs p; eff_max = effective_max_concurrent lib m p in
     JObj [(''active_jobs'', json_count active), (''available'', JBool (active < eff_max)),
       (''backend_stability'', public_json (pv_backend_stability p) (mo_wall m)), (''effective_max_concurrent'', json_count eff_max),
       (''intent'', JStr intent), (''load'', JFloat (pl_fl lib (of_nat active / of_nat (max (pv_max_concurrent p) 1)))),
       (''max_concurrent'', json_count (pv_max_concurrent p)), (''model'', JStr (if models = [] then [] else hd models)),
       (''models'', JArr (map JStr models)), (''node_id'', JStr (pv_node_id p)),
       (''pinhole_state'', case pinhole of
          Some (uid, lease) \<Rightarrow> JObj [(''active'', JBool True), (''lease_seconds'', JPos lease), (''unique_id'', JPos uid)]
        | None \<Rightarrow> JObj [(''active'', JBool False)]),
       (''region'', JStr region), (''status'', JStr ''ok'')])"

text \<open>A node that reports itself available admits a request that asks at the same moment, and one that does not turns it back.\<close>

lemma health_tells_admission:
  "json_get (health_endpoint lib m region intent models pinhole p) ''available'' =
     Some (JBool (snd (try_admit lib m hs req deadline p) = Admitted hs req))"
  by (simp add: health_endpoint_def try_admit_def Let_def)

definition derive_native_endpoint :: "string \<Rightarrow> string option" where
  "derive_native_endpoint endpoint =
    (case strip_prefix ''http://'' endpoint of
       None \<Rightarrow> None
     | Some rest \<Rightarrow> let authority = hd (split_on (CHR ''/'') rest) in if authority = [] then None else Some (''iicp://'' @ authority))"

text \<open>An address with TLS is never turned into a native one.\<close>

lemma native_never_from_tls: "derive_native_endpoint (''https://'' @ rest) = None"
  by (simp add: derive_native_endpoint_def strip_prefix_def)

subsection \<open>Sample runs\<close>

definition sample_task :: provider_task where
  "sample_task = \<lparr>pt_task_id = ''t'', pt_intent = ''chat'', pt_payload = JObj [], pt_iicp_conf = None, pt_cx_response_encryption = Some ''required'',
     pt_constraints = None, pt_auth = None, pt_nonce = Some ''n'', pt_source_node_id = None, pt_trace = None\<rparr>"

definition sample_provider_lib :: provider_lib where
  "sample_provider_lib = \<lparr>pl_to_bytes = (\<lambda>limit body. if length body \<le> limit then Some body else None), pl_decode = (\<lambda>_. Some sample_task),
     pl_print = (\<lambda>_. Some ''{}''), pl_fl = (\<lambda>x. x), pl_cx = sample_lib, pl_hmac = (\<lambda>k msg. Some (k @ msg))\<rparr>"

definition sample_moment :: "int \<Rightarrow> moment" where
  "sample_moment t = \<lparr>mo_now = t, mo_inserted = t, mo_wall = 0, mo_wall_retry = 0, mo_clock = ''12:00'', mo_outcome = Inr JNull, mo_finished = t,
     mo_cx_nonce = replicate 12 CHR ''m'', mo_receipt_nonce = ''00'', mo_expires_at = ''later''\<rparr>"

definition sample_provider :: provider where
  "sample_provider = \<lparr>pv_node_id = ''p'', pv_max_concurrent = 2, pv_windows = [], pv_cip_policy = default_cip_policy, pv_idempotency = new_guard 60,
     pv_enable_idempotency = False, pv_task_rate_limit = 0, pv_task_rate_buckets = [], pv_nonce_cache = [], pv_cx_private_key = None,
     pv_backend_stability = obs_ok 0, pv_active_jobs = 0, pv_tasks_success = 0, pv_tasks_failed = 0, pv_tasks_latency_total_ms = 0,
     pv_node_token = ''tok'', pv_node_hmac_key = ''key''\<rparr>"

definition sample_service :: service where
  "sample_service = \<lparr>sp_provider = sample_provider, sp_tasks = [], sp_log = []\<rparr>"

definition sample_events :: "service_event list" where
  "sample_events = [Arrive [] ''{}'', Arrive [] ''{}''] @ map (\<lambda>i. Act 0 (sample_moment i)) [1, 2, 3, 4, 5] @ map (\<lambda>i. Act 1 (sample_moment i)) [6, 7, 8, 9]"

lemma sample_started: "started_service sample_service"
  by (simp add: started_service_def sample_service_def sample_provider_def)

theorem handlers_bounded_witness:
  "started_service sample_service \<and>
   (let s' = fold (service_step sample_provider_lib) sample_events sample_service in
    counts executing (sp_tasks s') + counts lost_slot (sp_tasks s') \<le> 2 \<and> pv_active_jobs (sp_provider s') = counts counted (sp_tasks s'))"
proof -
  have "\<forall>c. effective_at (pl_fl sample_provider_lib) (pv_windows (sp_provider sample_service)) (pv_max_concurrent (sp_provider sample_service)) c \<le> 2"
    by (simp add: sample_provider_lib_def sample_service_def sample_provider_def effective_at_def share_at_def)
  from handlers_bounded [OF sample_started this] sample_started show ?thesis by simp
qed

theorem nonce_runs_once_witness:
  "list_all (within_ttl 0) sample_events \<and>
   (\<exists>new. sp_log (fold (service_step sample_provider_lib) sample_events sample_service) = new \<and> length (filter (starts ''n'') new) \<le> 1)"
proof -
  have w: "list_all (within_ttl 0) sample_events" by (simp add: sample_events_def sample_moment_def NONCE_TTL_SECS_def)
  have "hwf (pv_nonce_cache (sp_provider sample_service))" by (simp add: sample_service_def sample_provider_def)
  from nonce_runs_once [OF w this, of sample_provider_lib "''n''"] w show ?thesis by (simp add: sample_service_def counts_def)
qed

text \<open>In this run the first request asks for a sealed response without a sealed request, and the second repeats its nonce: both are answered with
  errors.\<close>

lemmas sample_defs = sample_events_def sample_service_def sample_provider_def sample_provider_lib_def sample_moment_def sample_task_def

lemma sample_limit: "effective_at (\<lambda>x. x) [] 2 c = 2"
  by (simp add: effective_at_def share_at_def)

lemma sample_log:
  "sp_log (fold (service_step sample_provider_lib) sample_events sample_service) =
     [Passed ''n'' 3, Answer sample_task (400, error_json ''IICP-CX-03'' ''encrypted response requested without an encrypted request''),
      Answer sample_task (409, error_json ''IICP-E011'' ''replay_detected'')]"
  by (simp add: sample_defs on_arrived_def read_request_body_def validate_request_headers_def validate_identity_encoding_def content_length_def
      split_header_values_def header_values_def MAX_HTTP_TASK_BODY_BYTES_def permits_intent_def is_draining_def obs_ok_def try_admit_def
      effective_max_concurrent_def sample_limit check_nonce_def hretain_def NONCE_TTL_SECS_def on_screened_def prepare_def conf_of_def Let_def)

theorem required_response_sealed_witness:
  "started_service sample_service \<and> wants_sealed sample_task \<and>
   (\<exists>r. Answer sample_task r \<in> set (sp_log (fold (service_step sample_provider_lib) sample_events sample_service)) \<and> no_result r)"
proof -
  have w: "wants_sealed sample_task" by (simp add: wants_sealed_def sample_task_def)
  have "Answer sample_task (409, error_json ''IICP-E011'' ''replay_detected'') \<in> set (sp_log (fold (service_step sample_provider_lib) sample_events sample_service))"
    unfolding sample_log by simp
  with required_response_sealed [OF sample_started, of sample_provider_lib sample_events] w sample_started show ?thesis by blast
qed

theorem receipts_only_delivered_witness:
  "started_service sample_service \<and>
   length (filter (receipt_for ''t'') (sp_log (fold (service_step sample_provider_lib) sample_events sample_service))) \<le>
   length (filter (delivered ''t'') (sp_log (fold (service_step sample_provider_lib) sample_events sample_service)))"
  using receipts_only_delivered [OF sample_started] sample_started by blast


end
