(* ===== verification/Secrets.thy ===== *)
theory Secrets
  imports Json Text
begin

text \<open>
  Where a node keeps its secrets: \<^verbatim>\<open>src/secret_store.rs\<close> with the references of \<^verbatim>\<open>src/runtime_config.rs\<close>, and the node records and the
  atomic replacement of files of \<^verbatim>\<open>src/identity.rs\<close>, built for Linux.  A path is its list of components, a file system maps
  paths to what \<^verbatim>\<open>symlink_metadata\<close> and a read give.  A routine that replaces a file is the list of its system calls; each call can
  fail, and the process can stop after any of them, so a run is the list of the file systems it leaves behind, one per call.
  Other processes do not touch the paths of a run.  \<^verbatim>\<open>secret-tool\<close>, an application's own secret provider, the environment and the
  JSON codec of the records are the parameters in \<open>platform\<close>.
\<close>

unbundle bit_operations_syntax

subsection \<open>Files\<close>

datatype file_kind = Regular | Directory | Symlink

record file_info =
  fi_kind :: file_kind
  fi_uid :: nat
  fi_mode :: u32
  fi_data :: string

type_synonym path = "string list"

type_synonym files = "(path, file_info) hmap"

definition path_of :: "string \<Rightarrow> path" where
  "path_of s = (if starts_with s ''/'' then [''/''] else if hd (split_on (CHR ''/'') s) = ''.'' then [''.''] else []) @
     filter (\<lambda>c. c \<noteq> [] \<and> c \<noteq> ''.'') (split_on (CHR ''/'') s)"

definition path_parent :: "path \<Rightarrow> path option" where
  "path_parent p = (if p = [] \<or> p = [''/''] then None else Some (butlast p))"

definition path_file_name :: "path \<Rightarrow> string option" where
  "path_file_name p = (if p = [] \<or> last p \<in> {''/'', ''.'', ''..''} then None else Some (last p))"

text \<open>\<^verbatim>\<open>Path::join\<close> with a relative argument.\<close>

definition path_join :: "path \<Rightarrow> string \<Rightarrow> path" where
  "path_join p s = p @ filter (\<lambda>c. c \<noteq> [] \<and> c \<noteq> ''.'') (split_on (CHR ''/'') s)"

subsection \<open>References and records\<close>

datatype secret_ref =
    EnvironmentRef string
  | FileRef string
  | MacosKeychain string string
  | WindowsCredential string
  | LinuxSecretService string string
  | ExternalRef string string

fun is_valid_ref :: "secret_ref \<Rightarrow> bool" where
  "is_valid_ref (EnvironmentRef name) \<longleftrightarrow>
     trim name \<noteq> [] \<and> list_all (\<lambda>c. is_ascii_upper c \<or> is_ascii_digit c \<or> c = CHR ''_'') name"
| "is_valid_ref (FileRef path) \<longleftrightarrow> trim path \<noteq> []"
| "is_valid_ref (MacosKeychain service account) \<longleftrightarrow> trim service \<noteq> [] \<and> trim account \<noteq> []"
| "is_valid_ref (WindowsCredential target) \<longleftrightarrow> trim target \<noteq> []"
| "is_valid_ref (LinuxSecretService collection label) \<longleftrightarrow> trim collection \<noteq> [] \<and> trim label \<noteq> []"
| "is_valid_ref (ExternalRef provider reference) \<longleftrightarrow> trim provider \<noteq> [] \<and> trim reference \<noteq> []"

record node_identity =
  ni_node_id :: string
  ni_operator_id :: string
  ni_name :: string
  ni_backend_url :: string
  ni_backend_type :: string
  ni_model :: string
  ni_intent :: string
  ni_region :: string
  ni_directory_url :: string
  ni_max_concurrent :: u32
  ni_port :: u16
  ni_host :: string
  ni_public_endpoint :: string
  ni_auto_detect_nat :: bool
  ni_external_ip_probe_url :: string
  ni_supported_receipt_profiles :: "string list"
  ni_node_token :: "string option"
  ni_node_hmac_key :: "string option"
  ni_secret_refs :: "(string, secret_ref) hmap"
  ni_created_at :: string

type_synonym keyring = "(string \<times> string, string) hmap"

text \<open>What surrounds the process.  A run of \<^verbatim>\<open>secret-tool\<close> takes the keyring and, for a store, its standard input; \<open>None\<close> is a tool
  that could not be started or that failed.\<close>

record external_provider =
  xp_resolve :: "string \<Rightarrow> string \<Rightarrow> keyring \<Rightarrow> string + string"
  xp_store :: "string \<Rightarrow> string \<Rightarrow> string \<Rightarrow> keyring \<Rightarrow> keyring \<times> (string + unit)"
  xp_delete :: "string \<Rightarrow> string \<Rightarrow> keyring \<Rightarrow> keyring \<times> (string + unit)"

record platform =
  pf_euid :: nat
  pf_umask :: u32
  pf_var :: "string \<Rightarrow> string option"
  pf_tool_lookup :: "string \<Rightarrow> string \<Rightarrow> keyring \<Rightarrow> string option"
  pf_tool_store :: "string \<Rightarrow> string \<Rightarrow> string \<Rightarrow> keyring \<Rightarrow> keyring \<times> bool"
  pf_tool_clear :: "string \<Rightarrow> string \<Rightarrow> keyring \<Rightarrow> keyring \<times> bool"
  pf_print_node :: "node_identity \<Rightarrow> string option"
  pf_parse_node :: "string \<Rightarrow> node_identity option"

record vault =
  vt_files :: files
  vt_keyring :: keyring
  vt_external :: keyring

subsection \<open>System calls\<close>

datatype fs_op =
    CreateNew path u32
  | WriteAll path string
  | SyncFile path
  | Rename path path
  | SetPermissions path u32
  | SyncDirectory path
  | RemoveFile path

text \<open>A call is carried out or refused; a refused write may have written some bytes.\<close>

datatype io_outcome = Done | Refused nat

fun exec_op :: "platform \<Rightarrow> io_outcome \<Rightarrow> fs_op \<Rightarrow> files \<Rightarrow> files \<times> bool" where
  "exec_op pf Done (CreateNew p mode) fs =
    (if hget fs p = None
     then (hput p \<lparr>fi_kind = Regular, fi_uid = pf_euid pf, fi_mode = mode AND NOT (pf_umask pf), fi_data = []\<rparr> fs, True)
     else (fs, False))"
| "exec_op pf Done (WriteAll p v) fs = (case hget fs p of Some f \<Rightarrow> (hput p (f\<lparr>fi_data := v\<rparr>) fs, True) | None \<Rightarrow> (fs, True))"
| "exec_op pf (Refused n) (WriteAll p v) fs =
    (case hget fs p of Some f \<Rightarrow> (hput p (f\<lparr>fi_data := take n v\<rparr>) fs, False) | None \<Rightarrow> (fs, False))"
| "exec_op pf Done (Rename p q) fs =
    (case hget fs p of
       None \<Rightarrow> (fs, False)
     | Some f \<Rightarrow> (case hget fs q of
           Some g \<Rightarrow> if fi_kind g = Directory then (fs, False) else (hput q f (hdel p fs), True)
         | None \<Rightarrow> (hput q f (hdel p fs), True)))"
| "exec_op pf Done (SetPermissions p mode) fs =
    (case hget fs p of Some f \<Rightarrow> (hput p (f\<lparr>fi_mode := mode\<rparr>) fs, True) | None \<Rightarrow> (fs, False))"
| "exec_op pf Done (RemoveFile p) fs = (hdel p fs, hget fs p \<noteq> None)"
| "exec_op pf Done _ fs = (fs, True)"
| "exec_op pf (Refused _) _ fs = (fs, False)"

text \<open>A run of calls, each with the error it is reported as: the file systems after each call, and the first error.  Where no
  outcome is given the call is carried out.\<close>

fun run_ops :: "platform \<Rightarrow> io_outcome list \<Rightarrow> (fs_op \<times> 'e) list \<Rightarrow> files \<Rightarrow> files list \<times> ('e + unit)" where
  "run_ops pf outs [] fs = ([], Inr ())"
| "run_ops pf outs ((op, e) # ops) fs =
    (case exec_op pf (case outs of [] \<Rightarrow> Done | out # _ \<Rightarrow> out) op fs of
       (fs', False) \<Rightarrow> ([fs'], Inl e)
     | (fs', True) \<Rightarrow> (case run_ops pf (tl outs) ops fs' of (trace, r) \<Rightarrow> (fs' # trace, r)))"

definition final_files :: "files \<Rightarrow> files list \<Rightarrow> files" where
  "final_files fs trace = last (fs # trace)"

subsection \<open>Protected files\<close>

definition SECRET_UNAVAILABLE :: string where
  "SECRET_UNAVAILABLE = ''secret_reference_unavailable''"

definition SECRET_PROVIDER_UNSUPPORTED :: string where
  "SECRET_PROVIDER_UNSUPPORTED = ''secret_provider_unsupported''"

definition SECRET_FILE_UNSAFE :: string where
  "SECRET_FILE_UNSAFE = ''secret_file_unsafe''"

definition SECRET_MUTATION_UNSUPPORTED :: string where
  "SECRET_MUTATION_UNSUPPORTED = ''secret_mutation_unsupported''"

text \<open>What the calls of one operation meet: the random part of a temporary name, the outcomes, whether reads are carried out.\<close>

record io_call =
  ic_uuid :: string
  ic_outcomes :: "io_outcome list"
  ic_cleanup :: io_outcome
  ic_reads :: bool

definition owner_only :: "platform \<Rightarrow> file_info \<Rightarrow> bool" where
  "owner_only pf f \<longleftrightarrow> fi_uid f = pf_euid pf \<and> fi_mode f AND 63 = 0"

definition read_protected_file :: "platform \<Rightarrow> bool \<Rightarrow> path \<Rightarrow> files \<Rightarrow> string + string" where
  "read_protected_file pf readable p fs =
    (case hget fs p of
       None \<Rightarrow> Inl SECRET_UNAVAILABLE
     | Some f \<Rightarrow>
         if fi_kind f \<noteq> Regular then Inl SECRET_FILE_UNSAFE
         else if \<not> owner_only pf f then Inl SECRET_FILE_UNSAFE
         else if \<not> readable then Inl SECRET_UNAVAILABLE else Inr (fi_data f))"

definition temporary_path :: "path \<Rightarrow> string \<Rightarrow> string \<Rightarrow> path" where
  "temporary_path parent name uuid = parent @ [''.'' @ name @ ''.'' @ uuid @ ''.tmp'']"

definition protected_ops :: "path \<Rightarrow> path \<Rightarrow> path \<Rightarrow> string \<Rightarrow> (fs_op \<times> string) list" where
  "protected_ops parent temporary p v =
     [(CreateNew temporary 384, SECRET_FILE_UNSAFE), (WriteAll temporary v, SECRET_UNAVAILABLE), (SyncFile temporary, SECRET_UNAVAILABLE),
      (Rename temporary p, SECRET_UNAVAILABLE), (SetPermissions p 384, SECRET_FILE_UNSAFE), (SyncDirectory parent, SECRET_UNAVAILABLE)]"

definition write_protected_file :: "platform \<Rightarrow> io_call \<Rightarrow> path \<Rightarrow> string \<Rightarrow> files \<Rightarrow> files list \<times> (string + unit)" where
  "write_protected_file pf call p v fs =
    (case path_parent p of
       None \<Rightarrow> ([], Inl SECRET_FILE_UNSAFE)
     | Some parent \<Rightarrow>
         (if (case hget fs parent of
                None \<Rightarrow> True
              | Some d \<Rightarrow> fi_kind d \<noteq> Directory \<or> fi_uid d \<noteq> pf_euid pf \<or> fi_mode d AND 18 \<noteq> 0)
          then ([], Inl SECRET_FILE_UNSAFE)
          else if (case hget fs p of None \<Rightarrow> False | Some f \<Rightarrow> fi_kind f \<noteq> Regular \<or> \<not> owner_only pf f)
          then ([], Inl SECRET_FILE_UNSAFE)
          else case path_file_name p of
            None \<Rightarrow> ([], Inl SECRET_FILE_UNSAFE)
          | Some name \<Rightarrow>
              let temporary = temporary_path parent name (ic_uuid call);
                  (trace, result) = run_ops pf (ic_outcomes call) (protected_ops parent temporary p v) fs
              in (case result of
                    Inr _ \<Rightarrow> (trace, result)
                  | Inl _ \<Rightarrow> (trace @ [fst (exec_op pf (ic_cleanup call) (RemoveFile temporary) (final_files fs trace))], result))))"

definition delete_protected_file :: "platform \<Rightarrow> bool \<Rightarrow> path \<Rightarrow> files \<Rightarrow> files \<times> (string + unit)" where
  "delete_protected_file pf removable p fs =
    (case hget fs p of
       None \<Rightarrow> (fs, Inr ())
     | Some f \<Rightarrow>
         if fi_kind f \<noteq> Regular then (fs, Inl SECRET_FILE_UNSAFE)
         else if \<not> owner_only pf f then (fs, Inl SECRET_FILE_UNSAFE)
         else if removable then (hdel p fs, Inr ()) else (fs, Inl SECRET_UNAVAILABLE))"

subsection \<open>Resolving, storing and deleting a reference\<close>

text \<open>\<^verbatim>\<open>SecretValue::new\<close>\<close>

definition new_secret :: "string \<Rightarrow> string + string" where
  "new_secret v =
    (let v = (if ends_with v [CHR 0x0A] then rev (dropWhile (\<lambda>c. c = CHR 0x0D \<or> c = CHR 0x0A) (rev v)) else v)
     in if v = [] then Inl SECRET_UNAVAILABLE else Inr v)"

fun resolve_secret :: "platform \<Rightarrow> external_provider option \<Rightarrow> io_call \<Rightarrow> secret_ref \<Rightarrow> vault \<Rightarrow> string + string" where
  "resolve_secret pf ext call (EnvironmentRef name) s = bind_sum (ok_or (pf_var pf name) SECRET_UNAVAILABLE) new_secret"
| "resolve_secret pf ext call (FileRef p) s = bind_sum (read_protected_file pf (ic_reads call) (path_of p) (vt_files s)) new_secret"
| "resolve_secret pf ext call (MacosKeychain _ _) s = Inl SECRET_PROVIDER_UNSUPPORTED"
| "resolve_secret pf ext call (WindowsCredential _) s = Inl SECRET_PROVIDER_UNSUPPORTED"
| "resolve_secret pf ext call (LinuxSecretService collection label) s =
     bind_sum (ok_or (pf_tool_lookup pf collection label (vt_keyring s)) SECRET_UNAVAILABLE) new_secret"
| "resolve_secret pf ext call (ExternalRef provider reference) s =
     bind_sum (ok_or ext SECRET_PROVIDER_UNSUPPORTED) (\<lambda>x. bind_sum (xp_resolve x provider reference (vt_external s)) new_secret)"

definition with_files :: "vault \<Rightarrow> files list \<Rightarrow> vault" where
  "with_files s trace = s\<lparr>vt_files := final_files (vt_files s) trace\<rparr>"

definition store_secret ::
  "platform \<Rightarrow> external_provider option \<Rightarrow> io_call \<Rightarrow> secret_ref \<Rightarrow> string \<Rightarrow> vault \<Rightarrow> vault \<times> (string + unit)" where
  "store_secret pf ext call reference v s =
    (if v = [] then (s, Inl SECRET_UNAVAILABLE)
     else case reference of
       FileRef p \<Rightarrow> (case write_protected_file pf call (path_of p) v (vt_files s) of (trace, r) \<Rightarrow> (with_files s trace, r))
     | LinuxSecretService collection label \<Rightarrow>
         (case pf_tool_store pf collection label (v @ [CHR 0x0A]) (vt_keyring s) of
            (k, ok) \<Rightarrow> (s\<lparr>vt_keyring := k\<rparr>, if ok then Inr () else Inl SECRET_UNAVAILABLE))
     | MacosKeychain _ _ \<Rightarrow> (s, Inl SECRET_PROVIDER_UNSUPPORTED)
     | WindowsCredential _ \<Rightarrow> (s, Inl SECRET_PROVIDER_UNSUPPORTED)
     | ExternalRef provider reference \<Rightarrow>
         (case ext of
            None \<Rightarrow> (s, Inl SECRET_PROVIDER_UNSUPPORTED)
          | Some x \<Rightarrow> (case xp_store x provider reference v (vt_external s) of (k, r) \<Rightarrow> (s\<lparr>vt_external := k\<rparr>, r)))
     | EnvironmentRef _ \<Rightarrow> (s, Inl SECRET_MUTATION_UNSUPPORTED))"

definition delete_secret ::
  "platform \<Rightarrow> external_provider option \<Rightarrow> io_call \<Rightarrow> secret_ref \<Rightarrow> vault \<Rightarrow> vault \<times> (string + unit)" where
  "delete_secret pf ext call reference s =
    (case reference of
       FileRef p \<Rightarrow> (case delete_protected_file pf (ic_cleanup call = Done) (path_of p) (vt_files s) of (fs, r) \<Rightarrow> (s\<lparr>vt_files := fs\<rparr>, r))
     | LinuxSecretService collection label \<Rightarrow>
         (case pf_tool_clear pf collection label (vt_keyring s) of
            (k, ok) \<Rightarrow> (s\<lparr>vt_keyring := k\<rparr>, if ok then Inr () else Inl SECRET_UNAVAILABLE))
     | MacosKeychain _ _ \<Rightarrow> (s, Inl SECRET_PROVIDER_UNSUPPORTED)
     | WindowsCredential _ \<Rightarrow> (s, Inl SECRET_PROVIDER_UNSUPPORTED)
     | ExternalRef provider reference \<Rightarrow>
         (case ext of
            None \<Rightarrow> (s, Inl SECRET_PROVIDER_UNSUPPORTED)
          | Some x \<Rightarrow> (case xp_delete x provider reference (vt_external s) of (k, r) \<Rightarrow> (s\<lparr>vt_external := k\<rparr>, r)))
     | EnvironmentRef _ \<Rightarrow> (s, Inl SECRET_MUTATION_UNSUPPORTED))"

subsection \<open>Node records\<close>

datatype io_error = InvalidInput string | InvalidData | OsError

definition create_dir_all :: "platform \<Rightarrow> path \<Rightarrow> files \<Rightarrow> files \<times> (io_error + unit)" where
  "create_dir_all pf p fs =
    (if list_ex (\<lambda>n. case hget fs (take n p) of Some f \<Rightarrow> fi_kind f = Regular | None \<Rightarrow> False) [1..<Suc (length p)]
     then (fs, Inl OsError)
     else (fold (\<lambda>n fs. if hget fs (take n p) = None
                        then hput (take n p) \<lparr>fi_kind = Directory, fi_uid = pf_euid pf, fi_mode = 511 AND NOT (pf_umask pf), fi_data = []\<rparr> fs
                        else fs) [1..<Suc (length p)] fs, Inr ()))"

definition shellexpand_home :: "platform \<Rightarrow> string \<Rightarrow> string" where
  "shellexpand_home pf s =
    (case strip_prefix ''~'' s of
       Some rest \<Rightarrow> (case pf_var pf ''HOME'' of Some home \<Rightarrow> home @ rest | None \<Rightarrow> s)
     | None \<Rightarrow> s)"

definition config_base :: "platform \<Rightarrow> path" where
  "config_base pf =
    (case pf_var pf ''IICP_HOME'' of
       Some v \<Rightarrow> if v \<noteq> [] then path_of (shellexpand_home pf v) else path_join (path_of (unwrap_or (pf_var pf ''HOME'') ''.'')) ''.iicp''
     | None \<Rightarrow> path_join (path_of (unwrap_or (pf_var pf ''HOME'') ''.'')) ''.iicp'')"

definition config_dir :: "platform \<Rightarrow> files \<Rightarrow> files \<times> (io_error + path)" where
  "config_dir pf fs =
    (case create_dir_all pf (config_base pf) fs of
       (fs, Inl e) \<Rightarrow> (fs, Inl e)
     | (fs, Inr _) \<Rightarrow>
         (case create_dir_all pf (path_join (config_base pf) ''nodes'') fs of
            (fs, Inl e) \<Rightarrow> (fs, Inl e)
          | (fs, Inr _) \<Rightarrow> (fs, Inr (config_base pf))))"

definition validate_name :: "string \<Rightarrow> io_error + unit" where
  "validate_name name =
    (if name = [] \<or> length name > 63 then Inl (InvalidInput ''node name length must be 1..=63'')
     else if \<not> (is_ascii_lower (hd name) \<or> is_ascii_digit (hd name)) then Inl (InvalidInput ''node name must start with [a-z0-9]'')
     else if list_all (\<lambda>b. is_ascii_lower b \<or> is_ascii_digit b \<or> b = CHR ''.'' \<or> b = CHR ''_'' \<or> b = CHR ''-'') (tl name)
     then Inr ()
     else Inl (InvalidInput ''node name must match [a-z0-9][a-z0-9._-]{0,62}''))"

definition node_path :: "platform \<Rightarrow> string \<Rightarrow> files \<Rightarrow> files \<times> (io_error + path)" where
  "node_path pf name fs =
    (case validate_name name of
       Inl e \<Rightarrow> (fs, Inl e)
     | Inr _ \<Rightarrow> (case config_dir pf fs of
                    (fs, Inl e) \<Rightarrow> (fs, Inl e)
                  | (fs, Inr dir) \<Rightarrow> (fs, Inr (path_join (path_join dir ''nodes'') (name @ ''.json'')))))"

text \<open>\<^verbatim>\<open>atomic_write_owner_only\<close>: the temporary file is made with the default mode and narrowed before it is written.  It is removed
  on an error unless it has been renamed.\<close>

definition atomic_ops :: "path \<Rightarrow> path \<Rightarrow> path \<Rightarrow> string \<Rightarrow> (fs_op \<times> bool) list" where
  "atomic_ops parent temporary p v =
     [(CreateNew temporary 438, True), (SetPermissions temporary 384, True), (WriteAll temporary v, True), (SyncFile temporary, True),
      (Rename temporary p, True), (SetPermissions p 384, False), (SyncDirectory parent, False)]"

definition atomic_write_owner_only :: "platform \<Rightarrow> io_call \<Rightarrow> path \<Rightarrow> string \<Rightarrow> files \<Rightarrow> files list \<times> (io_error + unit)" where
  "atomic_write_owner_only pf call p v fs =
    (case path_parent p of
       None \<Rightarrow> ([], Inl (InvalidInput ''configuration path has no parent''))
     | Some parent \<Rightarrow>
         (case path_file_name p of
            None \<Rightarrow> ([], Inl (InvalidInput ''configuration filename is invalid''))
          | Some name \<Rightarrow>
              let temporary = temporary_path parent name (ic_uuid call);
                  (trace, result) = run_ops pf (ic_outcomes call) (atomic_ops parent temporary p v) fs
              in (case result of
                    Inr _ \<Rightarrow> (trace, Inr ())
                  | Inl armed \<Rightarrow>
                      (if armed then trace @ [fst (exec_op pf (ic_cleanup call) (RemoveFile temporary) (final_files fs trace))] else trace,
                       Inl OsError))))"

text \<open>A file that is a symbolic link is read through; only regular files are modelled there.\<close>

definition read_node :: "platform \<Rightarrow> bool \<Rightarrow> path \<Rightarrow> files \<Rightarrow> io_error + node_identity option" where
  "read_node pf readable p fs =
    (case hget fs p of
       None \<Rightarrow> Inr None
     | Some f \<Rightarrow>
         if \<not> readable \<or> fi_kind f \<noteq> Regular then Inl OsError
         else bind_sum (ok_or (pf_parse_node pf (fi_data f)) InvalidData) (\<lambda>node. Inr (Some node)))"

definition load_node :: "platform \<Rightarrow> io_call \<Rightarrow> string \<Rightarrow> files \<Rightarrow> files \<times> (io_error + node_identity option)" where
  "load_node pf call name fs =
    (case node_path pf name fs of
       (fs, Inl e) \<Rightarrow> (fs, Inl e)
     | (fs, Inr p) \<Rightarrow> (fs, read_node pf (ic_reads call) p fs))"

text \<open>\<^verbatim>\<open>save_node\<close>, with the file systems it leaves behind call by call; making the directories is one call here.\<close>

definition save_node :: "platform \<Rightarrow> io_call \<Rightarrow> node_identity \<Rightarrow> files \<Rightarrow> files list \<times> (io_error + path)" where
  "save_node pf call node fs =
    (case node_path pf (ni_name node) fs of
       (fs', Inl e) \<Rightarrow> ([fs'], Inl e)
     | (fs', Inr p) \<Rightarrow>
         (case pf_print_node pf node of
            None \<Rightarrow> ([fs'], Inl InvalidData)
          | Some text \<Rightarrow>
              (case atomic_write_owner_only pf call p (text @ [CHR 0x0A]) fs' of
                 (trace, Inl e) \<Rightarrow> (fs' # trace, Inl e)
               | (trace, Inr _) \<Rightarrow> (fs' # trace, Inr p))))"

definition generate_node ::
  "string \<Rightarrow> string \<Rightarrow> string \<Rightarrow> string \<Rightarrow> string \<Rightarrow> string \<Rightarrow> string \<Rightarrow> string \<Rightarrow> string \<Rightarrow> u16 \<Rightarrow> string \<Rightarrow> string \<Rightarrow> bool \<Rightarrow> string \<Rightarrow>
   io_error + node_identity" where
  "generate_node uuid created operator_id name backend_url model intent region directory_url port host public_endpoint auto_detect_nat
     external_ip_probe_url =
    bind_sum (validate_name name) (\<lambda>_. Inr
      \<lparr>ni_node_id = uuid, ni_operator_id = operator_id, ni_name = name, ni_backend_url = backend_url, ni_backend_type = ''openai_compat'',
       ni_model = model, ni_intent = intent, ni_region = region, ni_directory_url = directory_url, ni_max_concurrent = 4, ni_port = port,
       ni_host = host, ni_public_endpoint = public_endpoint, ni_auto_detect_nat = auto_detect_nat,
       ni_external_ip_probe_url = external_ip_probe_url, ni_supported_receipt_profiles = [], ni_node_token = None, ni_node_hmac_key = None,
       ni_secret_refs = [], ni_created_at = created\<rparr>)"

subsection \<open>Credentials of a saved node\<close>

definition set_credential :: "string \<Rightarrow> string option \<Rightarrow> node_identity \<Rightarrow> node_identity option" where
  "set_credential name x node =
    (if name = ''node_token'' then Some (node\<lparr>ni_node_token := x\<rparr>)
     else if name = ''node_hmac_key'' then Some (node\<lparr>ni_node_hmac_key := x\<rparr>) else None)"

definition persist_identity_credential ::
  "platform \<Rightarrow> io_call \<Rightarrow> string \<Rightarrow> string \<Rightarrow> node_identity \<Rightarrow> vault \<Rightarrow> vault \<times> (string + node_identity)" where
  "persist_identity_credential pf call name v identity s =
    (let put = (\<lambda>x. ok_or (set_credential name x identity) SECRET_UNAVAILABLE)
     in case hget (ni_secret_refs identity) name of
          None \<Rightarrow> (s, put (Some v))
        | Some reference \<Rightarrow>
            (case store_secret pf None call reference v s of
               (s, Inl e) \<Rightarrow> (s, Inl e)
             | (s, Inr _) \<Rightarrow>
                 (s, bind_sum (resolve_secret pf None call reference s) (\<lambda>verified.
                       if verified \<noteq> v then Inl SECRET_UNAVAILABLE else put None))))"

definition update_saved_identity_credentials ::
  "platform \<Rightarrow> io_call \<Rightarrow> io_call \<Rightarrow> node_identity \<Rightarrow> string \<Rightarrow> string option \<Rightarrow> vault \<Rightarrow> vault \<times> (string + node_identity)" where
  "update_saved_identity_credentials pf call call' identity token hmac_key s =
    (case persist_identity_credential pf call ''node_token'' token identity s of
       (s, Inl e) \<Rightarrow> (s, Inl e)
     | (s, Inr identity) \<Rightarrow>
         (case hmac_key of
            Some key \<Rightarrow> if key = [] then (s, Inr identity) else persist_identity_credential pf call' ''node_hmac_key'' key identity s
          | None \<Rightarrow> (s, Inr identity)))"

text \<open>Warnings are left out.\<close>

definition persist_saved_credentials ::
  "platform \<Rightarrow> io_call \<Rightarrow> io_call \<Rightarrow> io_call \<Rightarrow> string option \<Rightarrow> string \<Rightarrow> string option \<Rightarrow> vault \<Rightarrow> vault" where
  "persist_saved_credentials pf call call' save saved_node_name token hmac_key s =
    (case saved_node_name of
       None \<Rightarrow> s
     | Some name \<Rightarrow>
         if trim name = [] \<or> token = [] then s
         else (case load_node pf call name (vt_files s) of
                 (fs, Inr (Some identity)) \<Rightarrow>
                   (case update_saved_identity_credentials pf call call' identity token hmac_key (s\<lparr>vt_files := fs\<rparr>) of
                      (s, Inl _) \<Rightarrow> s
                    | (s, Inr identity) \<Rightarrow> with_files s (fst (save_node pf save identity (vt_files s))))
               | (fs, _) \<Rightarrow> s\<lparr>vt_files := fs\<rparr>))"

definition resolve_identity_credential ::
  "platform \<Rightarrow> io_call \<Rightarrow> node_identity \<Rightarrow> string \<Rightarrow> string option \<Rightarrow> vault \<Rightarrow> string + string option" where
  "resolve_identity_credential pf call node name legacy s =
    (case hget (ni_secret_refs node) name of
       Some reference \<Rightarrow>
         (case resolve_secret pf None call reference s of
            Inr v \<Rightarrow> Inr (Some v)
          | Inl e \<Rightarrow> Inl (''saved credential reference '' @ name @ '' unavailable: '' @ e))
     | None \<Rightarrow> Inr (case legacy of Some v \<Rightarrow> if v = [] then None else Some v | None \<Rightarrow> None))"

definition identity_has_credential :: "node_identity \<Rightarrow> string \<Rightarrow> string option \<Rightarrow> bool" where
  "identity_has_credential node name legacy \<longleftrightarrow>
     hget (ni_secret_refs node) name \<noteq> None \<or> (case legacy of Some v \<Rightarrow> v \<noteq> [] | None \<Rightarrow> False)"

subsection \<open>Moving the credentials of a saved node to references\<close>

text \<open>What the calls of a migration meet, by the name of the credential.\<close>

record migration_io =
  mg_previous :: "string \<Rightarrow> io_call"
  mg_store :: "string \<Rightarrow> io_call"
  mg_rollback :: "string \<Rightarrow> io_call"
  mg_commit :: io_call

record secret_rollback =
  sr_name :: string
  sr_reference :: secret_ref
  sr_previous :: "string option"

text \<open>One credential: the node, the vault and the list of what to roll back, with the error if there is one.\<close>

definition apply_secret_migration_entry ::
  "platform \<Rightarrow> migration_io \<Rightarrow> (string, secret_ref) hmap \<Rightarrow> string \<Rightarrow> string \<Rightarrow> node_identity \<times> vault \<times> secret_rollback list \<Rightarrow>
   (node_identity \<times> vault \<times> secret_rollback list) \<times> (string + unit)" where
  "apply_secret_migration_entry pf io refs name v st =
    (case st of (node, s, applied) \<Rightarrow>
       (case hget refs name of
          None \<Rightarrow> (st, Inl (''missing required secret_refs.'' @ name))
        | Some reference \<Rightarrow>
       (let old = resolve_secret pf None (mg_previous io name) reference s in
        if (case old of Inl e \<Rightarrow> e \<noteq> SECRET_UNAVAILABLE | Inr _ \<Rightarrow> False)
        then (st, Inl (''secret provider unavailable for '' @ name @ '': '' @ projl old))
        else
          let applied = applied @ [\<lparr>sr_name = name, sr_reference = reference, sr_previous = (case old of Inr p \<Rightarrow> Some p | Inl _ \<Rightarrow> None)\<rparr>] in
          (case store_secret pf None (mg_store io name) reference v s of
             (s, Inl _) \<Rightarrow> ((node, s, applied), Inl (''secret write failed for '' @ name))
           | (s, Inr _) \<Rightarrow>
               (if resolve_secret pf None (mg_store io name) reference s \<noteq> Inr v
                then ((node, s, applied), Inl (''secret write verification failed for '' @ name))
                else let node = node\<lparr>ni_secret_refs := hput name reference (ni_secret_refs node)\<rparr> in
                     case set_credential name None node of
                       Some node \<Rightarrow> ((node, s, applied), Inr ())
                     | None \<Rightarrow> ((node, s, applied), Inl ''unsupported saved credential class''))))))"

definition rollback_secret_writes :: "platform \<Rightarrow> migration_io \<Rightarrow> secret_rollback list \<Rightarrow> vault \<Rightarrow> vault" where
  "rollback_secret_writes pf io applied s =
     fold (\<lambda>entry s. case sr_previous entry of
             Some previous \<Rightarrow> fst (store_secret pf None (mg_rollback io (sr_name entry)) (sr_reference entry) previous s)
           | None \<Rightarrow> fst (delete_secret pf None (mg_rollback io (sr_name entry)) (sr_reference entry) s)) (rev applied) s"

fun apply_migration ::
  "platform \<Rightarrow> migration_io \<Rightarrow> (string, secret_ref) hmap \<Rightarrow> (string \<times> string option) list \<Rightarrow>
   node_identity \<times> vault \<times> secret_rollback list \<Rightarrow> (node_identity \<times> vault \<times> secret_rollback list) \<times> (string + unit)" where
  "apply_migration pf io refs [] st = (st, Inr ())"
| "apply_migration pf io refs ((name, v) # vs) st =
    (if v = None \<or> v = Some [] then apply_migration pf io refs vs st
     else case apply_secret_migration_entry pf io refs name (the v) st of
       (st, Inl e) \<Rightarrow> (st, Inl e)
     | (st, Inr _) \<Rightarrow> apply_migration pf io refs vs st)"

text \<open>\<^verbatim>\<open>migrate_node_secret_values\<close> as \<^verbatim>\<open>run_node_secret_migration\<close> calls it, with \<^const>\<open>save_node\<close> as the commit.\<close>

definition migrate_node_secret_values ::
  "platform \<Rightarrow> migration_io \<Rightarrow> (string, secret_ref) hmap \<Rightarrow> node_identity \<Rightarrow> vault \<Rightarrow> vault \<times> node_identity \<times> (string + unit)" where
  "migrate_node_secret_values pf io refs node s =
    (case apply_migration pf io refs [(''node_token'', ni_node_token node), (''node_hmac_key'', ni_node_hmac_key node)] (node, s, []) of
       ((_, s, applied), Inl e) \<Rightarrow> (rollback_secret_writes pf io applied s, node, Inl e)
     | ((migrated, s, applied), Inr _) \<Rightarrow>
         (if ni_node_token migrated \<noteq> None \<or> ni_node_hmac_key migrated \<noteq> None
          then (rollback_secret_writes pf io applied s, node, Inl ''legacy secret migration remained incomplete'')
          else case save_node pf (mg_commit io) migrated (vt_files s) of
            (trace, Inl _) \<Rightarrow> (rollback_secret_writes pf io applied (with_files s trace), node, Inl ''credential migration commit failed'')
          | (trace, Inr _) \<Rightarrow> (with_files s trace, migrated, Inr ())))"

subsection \<open>Replacing a file\<close>

text \<open>Every state a run leaves behind has \<open>P\<close>, and one that succeeds ends in a state with \<open>R\<close>.\<close>

definition traced :: "(files \<Rightarrow> bool) \<Rightarrow> (files \<Rightarrow> bool) \<Rightarrow> files \<Rightarrow> files list \<times> ('e + unit) \<Rightarrow> bool" where
  "traced P R fs run \<longleftrightarrow> list_all P (fst run) \<and> (isl (snd run) \<or> R (final_files fs (fst run)))"

lemma traced_Nil: "R fs \<Longrightarrow> traced P R fs (run_ops pf outs [] fs)"
  by (simp add: traced_def final_files_def)

lemma traced_Cons:
  assumes call: "\<And>out fs' ok. exec_op pf out op fs = (fs', ok) \<Longrightarrow> P fs' \<and> (ok \<longrightarrow> Q fs')"
    and rest: "\<And>fs' outs. Q fs' \<Longrightarrow> traced P R fs' (run_ops pf outs ops fs')"
  shows "traced P R fs (run_ops pf outs ((op, e) # ops) fs)"
proof -
  obtain fs' ok where step: "exec_op pf (case outs of [] \<Rightarrow> Done | out # _ \<Rightarrow> out) op fs = (fs', ok)" by fastforce
  from call [OF this] have P: "P fs'" and Q: "ok \<Longrightarrow> Q fs'" by auto
  obtain trace r where run: "run_ops pf (tl outs) ops fs' = (trace, r)" by fastforce
  show ?thesis
  proof (cases ok)
    case False
    with step P show ?thesis by (simp add: traced_def)
  next
    case True
    with rest [OF Q [OF True], of "tl outs"] run step P show ?thesis by (auto simp: traced_def final_files_def)
  qed
qed

text \<open>The states of a replacement of the file at \<open>p\<close> through the file at \<open>t\<close>: before the rename the old file is in place, and what is in
  the temporary file satisfies \<open>Q\<close>; after it the new file is there, complete and for its owner only.\<close>

definition elsewhere :: "path \<Rightarrow> path \<Rightarrow> files \<Rightarrow> files \<Rightarrow> bool" where
  "elsewhere p t fs0 fs \<longleftrightarrow> (\<forall>q. q \<noteq> p \<and> q \<noteq> t \<longrightarrow> hget fs q = hget fs0 q)"

definition staged :: "platform \<Rightarrow> path \<Rightarrow> path \<Rightarrow> files \<Rightarrow> (file_info \<Rightarrow> bool) \<Rightarrow> files \<Rightarrow> bool" where
  "staged pf p t fs0 Q fs \<longleftrightarrow> elsewhere p t fs0 fs \<and> hget fs p = hget fs0 p \<and>
     (\<exists>f. hget fs t = Some f \<and> fi_kind f = Regular \<and> fi_uid f = pf_euid pf \<and> Q f)"

definition installed :: "platform \<Rightarrow> string \<Rightarrow> file_info \<Rightarrow> bool" where
  "installed pf v f \<longleftrightarrow> fi_kind f = Regular \<and> owner_only pf f \<and> fi_data f = v"

definition replaced :: "platform \<Rightarrow> path \<Rightarrow> path \<Rightarrow> files \<Rightarrow> string \<Rightarrow> files \<Rightarrow> bool" where
  "replaced pf p t fs0 v fs \<longleftrightarrow> elsewhere p t fs0 fs \<and> hget fs t = None \<and> (\<exists>f. hget fs p = Some f \<and> installed pf v f)"

definition replacing :: "platform \<Rightarrow> path \<Rightarrow> path \<Rightarrow> files \<Rightarrow> string \<Rightarrow> files \<Rightarrow> bool" where
  "replacing pf p t fs0 v fs \<longleftrightarrow> elsewhere p t fs0 fs \<and>
     (hget fs p = hget fs0 p \<or> (\<exists>f. hget fs p = Some f \<and> installed pf v f)) \<and>
     (\<forall>f. hget fs t = Some f \<longrightarrow> fi_data f = [] \<or> owner_only pf f)"

lemma staged_mono: "staged pf p t fs0 Q fs \<Longrightarrow> (\<And>f. Q f \<Longrightarrow> Q' f) \<Longrightarrow> staged pf p t fs0 Q' fs"
  unfolding staged_def by blast

lemma replacing_staged: "staged pf p t fs0 (\<lambda>f. fi_data f = [] \<or> fi_mode f AND 63 = 0) fs \<Longrightarrow> replacing pf p t fs0 v fs"
  by (auto simp: staged_def replacing_def owner_only_def)

lemma replacing_replaced: "replaced pf p t fs0 v fs \<Longrightarrow> replacing pf p t fs0 v fs"
  by (auto simp: replaced_def replacing_def)

lemma owner_mode: "(384 AND m) AND 63 = (0 :: u32)"
proof -
  have "(384 AND m) AND 63 = m AND (384 AND 63)" by (simp only: and.assoc and.left_commute and.commute)
  then show ?thesis by simp
qed

lemma create_stage:
  assumes "exec_op pf out (CreateNew t mode) fs = (fs', ok)" and "t \<noteq> p" and "hget fs t = None"
  shows "if ok then staged pf p t fs (\<lambda>f. fi_data f = [] \<and> fi_mode f = mode AND NOT (pf_umask pf)) fs' else fs' = fs"
  using assms by (cases out) (auto simp: staged_def elsewhere_def update_conv')

lemma narrow_stage:
  assumes "exec_op pf out (SetPermissions t mode) fs = (fs', ok)" and "t \<noteq> p" and "staged pf p t fs0 (\<lambda>f. fi_data f = []) fs"
  shows "if ok then staged pf p t fs0 (\<lambda>f. fi_data f = [] \<and> fi_mode f = mode) fs' else fs' = fs"
  using assms by (cases out) (auto simp: staged_def elsewhere_def update_conv')

lemma write_stage:
  assumes "exec_op pf out (WriteAll t v) fs = (fs', ok)" and "t \<noteq> p" and "staged pf p t fs0 (\<lambda>f. fi_mode f AND 63 = 0) fs"
  shows "staged pf p t fs0 (\<lambda>f. (ok \<longrightarrow> fi_data f = v) \<and> fi_mode f AND 63 = 0) fs'"
  using assms by (cases out) (auto simp: staged_def elsewhere_def update_conv')

lemma sync_stage:
  assumes "exec_op pf out op fs = (fs', ok)" and "op = SyncFile q \<or> op = SyncDirectory q"
  shows "fs' = fs"
  using assms by (cases out) auto

lemma rename_stage:
  assumes "exec_op pf out (Rename t p) fs = (fs', ok)" and "t \<noteq> p"
    and "staged pf p t fs0 (\<lambda>f. fi_data f = v \<and> fi_mode f AND 63 = 0) fs"
  shows "if ok then replaced pf p t fs0 v fs' else fs' = fs"
  using assms
  by (cases out) (auto simp: staged_def replaced_def installed_def owner_only_def elsewhere_def update_conv' delete_conv' split: option.splits if_splits)

lemma settle_stage:
  assumes "exec_op pf out (SetPermissions p 384) fs = (fs', ok)" and "t \<noteq> p" and "replaced pf p t fs0 v fs"
  shows "replaced pf p t fs0 v fs'"
  using assms by (cases out) (auto simp: replaced_def installed_def owner_only_def elsewhere_def update_conv')

lemma remove_stage:
  assumes "exec_op pf out (RemoveFile t) fs = (fs', ok)" and "t \<noteq> p" and "replacing pf p t fs0 v fs"
  shows "replacing pf p t fs0 v fs' \<and> (out = Done \<longrightarrow> hget fs' t = None)"
  using assms by (cases out) (auto simp: replacing_def elsewhere_def delete_conv')


text \<open>The two programs.  The part from the write on is the same in both.\<close>

definition complete :: "string \<Rightarrow> file_info \<Rightarrow> bool" where
  "complete v f \<longleftrightarrow> fi_data f = v \<and> fi_mode f AND 63 = 0"

lemma replacing_complete: "staged pf p t fs0 (complete v) fs \<Longrightarrow> replacing pf p t fs0 v fs"
  by (rule replacing_staged) (erule staged_mono, simp add: complete_def)

lemma settle_tail_traced:
  assumes "t \<noteq> p" and "replaced pf p t fs0 v fs"
  shows "traced (replacing pf p t fs0 v) (replaced pf p t fs0 v) fs (run_ops pf outs [(SetPermissions p 384, e4), (SyncDirectory d, e5)] fs)"
  using assms
  by (intro traced_Cons [where Q = "replaced pf p t fs0 v"] traced_Nil)
     (auto dest: sync_stage settle_stage [OF _ assms(1)] intro: replacing_replaced)

lemma rename_tail_traced:
  assumes t: "t \<noteq> p" and staged: "staged pf p t fs0 (complete v) fs"
  shows "traced (replacing pf p t fs0 v) (replaced pf p t fs0 v) fs
    (run_ops pf outs [(Rename t p, e3), (SetPermissions p 384, e4), (SyncDirectory d, e5)] fs)"
proof (rule traced_Cons [where Q = "replaced pf p t fs0 v"])
  fix out fs' ok assume "exec_op pf out (Rename t p) fs = (fs', ok)"
  from rename_stage [OF this t] staged have "if ok then replaced pf p t fs0 v fs' else fs' = fs" by (simp add: complete_def [abs_def])
  with staged show "replacing pf p t fs0 v fs' \<and> (ok \<longrightarrow> replaced pf p t fs0 v fs')"
    by (cases ok) (simp_all add: replacing_complete replacing_replaced)
qed (rule settle_tail_traced [OF t])

lemma write_tail_traced:
  assumes t: "t \<noteq> p" and staged: "staged pf p t fs0 (\<lambda>f. fi_mode f AND 63 = 0) fs"
  shows "traced (replacing pf p t fs0 v) (replaced pf p t fs0 v) fs
    (run_ops pf outs [(WriteAll t v, e1), (SyncFile t, e2), (Rename t p, e3), (SetPermissions p 384, e4), (SyncDirectory d, e5)] fs)"
proof (rule traced_Cons [where Q = "staged pf p t fs0 (complete v)"])
  fix out fs' ok assume "exec_op pf out (WriteAll t v) fs = (fs', ok)"
  note w = write_stage [OF this t staged]
  have "replacing pf p t fs0 v fs'" by (rule replacing_staged) (rule staged_mono [OF w], simp)
  moreover have "staged pf p t fs0 (complete v) fs'" if ok by (rule staged_mono [OF w]) (simp add: that complete_def)
  ultimately show "replacing pf p t fs0 v fs' \<and> (ok \<longrightarrow> staged pf p t fs0 (complete v) fs')" by blast
next
  fix fs' outs assume "staged pf p t fs0 (complete v) fs'"
  then show "traced (replacing pf p t fs0 v) (replaced pf p t fs0 v) fs'
      (run_ops pf outs [(SyncFile t, e2), (Rename t p, e3), (SetPermissions p 384, e4), (SyncDirectory d, e5)] fs')"
    by (intro traced_Cons [where Q = "staged pf p t fs0 (complete v)"] rename_tail_traced [OF t])
       (auto dest: sync_stage intro: replacing_complete)
qed

lemma replacing_same: "hget fs t = None \<Longrightarrow> replacing pf p t fs v fs"
  by (simp add: replacing_def elsewhere_def)

lemma protected_ops_traced:
  assumes t: "t \<noteq> p" and fresh: "hget fs t = None"
  shows "traced (replacing pf p t fs v) (replaced pf p t fs v) fs (run_ops pf outs (protected_ops d t p v) fs)"
  unfolding protected_ops_def
proof (rule traced_Cons [where Q = "staged pf p t fs (\<lambda>f. fi_mode f AND 63 = 0)"])
  let ?Q = "staged pf p t fs (\<lambda>f. fi_mode f AND 63 = 0)"
  fix out fs' ok assume "exec_op pf out (CreateNew t 384) fs = (fs', ok)"
  note c = create_stage [OF this t fresh]
  show "replacing pf p t fs v fs' \<and> (ok \<longrightarrow> ?Q fs')"
  proof (cases ok)
    case True
    with c have "staged pf p t fs (\<lambda>f. fi_data f = [] \<and> fi_mode f = 384 AND NOT (pf_umask pf)) fs'" by simp
    then have "?Q fs'" by (rule staged_mono) (simp add: owner_mode)
    then show ?thesis by (auto intro: replacing_staged elim: staged_mono)
  next
    case False
    with c show ?thesis by (simp add: replacing_same [OF fresh])
  qed
qed (rule write_tail_traced [OF t])

lemma atomic_ops_traced:
  assumes t: "t \<noteq> p" and fresh: "hget fs t = None"
  shows "traced (replacing pf p t fs v) (replaced pf p t fs v) fs (run_ops pf outs (atomic_ops d t p v) fs)"
  unfolding atomic_ops_def
proof (rule traced_Cons [where Q = "staged pf p t fs (\<lambda>f. fi_data f = [])"])
  let ?Q = "staged pf p t fs (\<lambda>f. fi_data f = [])"
  fix out fs' ok assume "exec_op pf out (CreateNew t 438) fs = (fs', ok)"
  note c = create_stage [OF this t fresh]
  show "replacing pf p t fs v fs' \<and> (ok \<longrightarrow> ?Q fs')"
  proof (cases ok)
    case True
    with c have "?Q fs'" by (auto elim: staged_mono)
    then show ?thesis by (auto intro: replacing_staged elim: staged_mono)
  next
    case False
    with c show ?thesis by (simp add: replacing_same [OF fresh])
  qed
next
  fix fs1 outs assume empty: "staged pf p t fs (\<lambda>f. fi_data f = []) fs1"
  let ?Q = "staged pf p t fs (\<lambda>f. fi_mode f AND 63 = 0)"
  show "traced (replacing pf p t fs v) (replaced pf p t fs v) fs1
      (run_ops pf outs [(SetPermissions t 384, True), (WriteAll t v, True), (SyncFile t, True), (Rename t p, True),
        (SetPermissions p 384, False), (SyncDirectory d, False)] fs1)"
  proof (rule traced_Cons [where Q = ?Q])
    fix out fs' ok assume "exec_op pf out (SetPermissions t 384) fs1 = (fs', ok)"
    note n = narrow_stage [OF this t empty]
    show "replacing pf p t fs v fs' \<and> (ok \<longrightarrow> ?Q fs')"
    proof (cases ok)
      case True
      with n have "?Q fs'" by (auto elim!: staged_mono)
      then show ?thesis by (auto intro: replacing_staged elim: staged_mono)
    next
      case False
      with n empty show ?thesis by (auto intro: replacing_staged elim: staged_mono)
    qed
  qed (rule write_tail_traced [OF t])
qed

subsection \<open>Secrets are replaced whole\<close>

definition scratch_of :: "path \<Rightarrow> string \<Rightarrow> path" where
  "scratch_of p uuid = temporary_path (butlast p) (last p) uuid"

lemma scratch_other: "p \<noteq> [] \<Longrightarrow> scratch_of p uuid \<noteq> p"
proof
  assume "p \<noteq> []" and "scratch_of p uuid = p"
  then have "''.'' @ last p @ ''.'' @ uuid @ ''.tmp'' = last p" by (metis last_snoc scratch_of_def temporary_path_def)
  then have "length (''.'' @ last p @ ''.'' @ uuid @ ''.tmp'') = length (last p)" by (rule arg_cong)
  then show False by simp
qed

lemma replacing_final: "list_all (replacing pf p t fs v) trace \<Longrightarrow> hget fs t = None \<Longrightarrow> replacing pf p t fs v (final_files fs trace)"
  by (auto simp: final_files_def list_all_iff replacing_same)

lemma final_snoc [simp]: "final_files fs (trace @ [x]) = x"
  by (simp add: final_files_def)

lemma write_protected_traced:
  assumes wr: "write_protected_file pf call p v fs = (trace, r)" and fresh: "hget fs (scratch_of p (ic_uuid call)) = None"
  shows "traced (replacing pf p (scratch_of p (ic_uuid call)) fs v) (replaced pf p (scratch_of p (ic_uuid call)) fs v) fs (trace, r)"
    and "isl r \<and> ic_cleanup call = Done \<Longrightarrow> hget (final_files fs trace) (scratch_of p (ic_uuid call)) = None"
proof -
  let ?t = "scratch_of p (ic_uuid call)"
  have "traced (replacing pf p ?t fs v) (replaced pf p ?t fs v) fs (trace, r) \<and>
      (isl r \<and> ic_cleanup call = Done \<longrightarrow> hget (final_files fs trace) ?t = None)"
  proof (cases "trace = [] \<and> isl r")
    case True
    with fresh show ?thesis by (simp add: traced_def final_files_def)
  next
    case False
    obtain tr e where run: "run_ops pf (ic_outcomes call) (protected_ops (butlast p) ?t p v) fs = (tr, e)" by fastforce
    from False wr run have ne: "p \<noteq> []" and
      res: "(trace, r) = (case e of Inr _ \<Rightarrow> (tr, e) | Inl _ \<Rightarrow> (tr @ [fst (exec_op pf (ic_cleanup call) (RemoveFile ?t) (final_files fs tr))], e))"
      by (auto simp: write_protected_file_def path_parent_def path_file_name_def scratch_of_def split: option.splits if_splits sum.splits)
    note t = scratch_other [OF ne, of "ic_uuid call"]
    from protected_ops_traced [OF t fresh, of pf v "ic_outcomes call" "butlast p"] run
    have T: "traced (replacing pf p ?t fs v) (replaced pf p ?t fs v) fs (tr, e)" by simp
    then have "replacing pf p ?t fs v (final_files fs tr)" by (auto simp: traced_def intro: replacing_final fresh)
    with remove_stage [OF _ t] have "replacing pf p ?t fs v (fst (exec_op pf (ic_cleanup call) (RemoveFile ?t) (final_files fs tr))) \<and>
        (ic_cleanup call = Done \<longrightarrow> hget (fst (exec_op pf (ic_cleanup call) (RemoveFile ?t) (final_files fs tr))) ?t = None)"
      by (metis prod.collapse)
    with T res show ?thesis by (cases e) (auto simp: traced_def)
  qed
  then show "traced (replacing pf p ?t fs v) (replaced pf p ?t fs v) fs (trace, r)"
    and "isl r \<and> ic_cleanup call = Done \<Longrightarrow> hget (final_files fs trace) ?t = None" by blast+
qed

lemma atomic_write_traced:
  assumes wr: "atomic_write_owner_only pf call p v fs = (trace, r)" and fresh: "hget fs (scratch_of p (ic_uuid call)) = None"
  shows "traced (replacing pf p (scratch_of p (ic_uuid call)) fs v) (replaced pf p (scratch_of p (ic_uuid call)) fs v) fs (trace, r)"
proof (cases "trace = [] \<and> isl r")
  case True
  with fresh show ?thesis by (simp add: traced_def final_files_def)
next
  case False
  let ?t = "scratch_of p (ic_uuid call)"
  let ?gone = "\<lambda>tr. fst (exec_op pf (ic_cleanup call) (RemoveFile ?t) (final_files fs tr))"
  obtain tr e where run: "run_ops pf (ic_outcomes call) (atomic_ops (butlast p) ?t p v) fs = (tr, e)" by fastforce
  from False wr run have ne: "p \<noteq> []" and
    res: "(trace, r) = (case e of Inr _ \<Rightarrow> (tr, Inr ()) | Inl armed \<Rightarrow> (if armed then tr @ [?gone tr] else tr, Inl OsError))"
    by (auto simp: atomic_write_owner_only_def path_parent_def path_file_name_def scratch_of_def split: option.splits if_splits sum.splits)
  note t = scratch_other [OF ne, of "ic_uuid call"]
  from atomic_ops_traced [OF t fresh, of pf v "ic_outcomes call" "butlast p"] run
  have T: "traced (replacing pf p ?t fs v) (replaced pf p ?t fs v) fs (tr, e)" by simp
  then have "replacing pf p ?t fs v (final_files fs tr)" by (auto simp: traced_def intro: replacing_final fresh)
  with remove_stage [OF _ t] have "replacing pf p ?t fs v (?gone tr)" by (metis prod.collapse)
  with T res show ?thesis by (cases e) (auto simp: traced_def)
qed

subsection \<open>A reference to a file holds what was stored last\<close>

lemma ends_with_snoc: "ends_with v [c] \<longleftrightarrow> v \<noteq> [] \<and> last v = c"
  unfolding ends_with_iff by (metis append_butlast_last_id last_snoc snoc_eq_iff_butlast)

lemma new_secret_exact: "new_secret v = Inr v \<longleftrightarrow> v \<noteq> [] \<and> \<not> ends_with v [CHR 0x0A]"
proof (cases "ends_with v [CHR 0x0A]")
  case True
  then obtain u where v: "v = u @ [CHR 0x0A]" by (auto simp: ends_with_iff)
  have "length (dropWhile (\<lambda>c. c = CHR 0x0D \<or> c = CHR 0x0A) (rev u)) < length v"
    by (rule le_less_trans [OF length_dropWhile_le]) (simp add: v)
  then have "rev (dropWhile (\<lambda>c. c = CHR 0x0D \<or> c = CHR 0x0A) (rev u)) \<noteq> v" by (metis length_rev less_irrefl)
  with True v show ?thesis by (auto simp: new_secret_def)
qed (simp add: new_secret_def)

lemma read_installed: "hget fs p = Some f \<Longrightarrow> installed pf v f \<Longrightarrow> read_protected_file pf True p fs = Inr v"
  by (simp add: read_protected_file_def installed_def)

lemma read_same: "hget fs p = hget fs' p \<Longrightarrow> read_protected_file pf r p fs = read_protected_file pf r p fs'"
  by (simp add: read_protected_file_def)

text \<open>A slot for a secret: what is read after a store that succeeded is what was stored, after one that failed it is that or what was there before.\<close>

locale secret_slot =
  fixes put :: "'c \<Rightarrow> string \<Rightarrow> 's \<Rightarrow> 's \<times> (string + unit)"
    and get :: "'s \<Rightarrow> string + string"
    and fresh :: "'c \<Rightarrow> 's \<Rightarrow> bool"
  assumes put_get: "fresh c s \<Longrightarrow> put c v s = (s', Inr ()) \<Longrightarrow> get s' = new_secret v"
    and put_failed: "fresh c s \<Longrightarrow> put c v s = (s', Inl e) \<Longrightarrow> get s' = get s \<or> get s' = new_secret v"
begin

lemma put_exact: "fresh c s \<Longrightarrow> put c v s = (s', Inr ()) \<Longrightarrow> get s' = Inr v \<longleftrightarrow> v \<noteq> [] \<and> \<not> ends_with v [CHR 0x0A]"
  by (simp add: put_get new_secret_exact)

lemma put_either: "fresh c s \<Longrightarrow> get (fst (put c v s)) = get s \<or> get (fst (put c v s)) = new_secret v"
proof -
  assume f: "fresh c s"
  obtain s' r where p: "put c v s = (s', r)" by fastforce
  show ?thesis
  proof (cases r)
    case (Inl e)
    with put_failed [OF f] p show ?thesis by simp
  next
    case (Inr u)
    with put_get [OF f] p show ?thesis by simp
  qed
qed

text \<open>Rotations: what is read afterwards is the value of the first reading or of one of the stores, never a mixture.\<close>

fun rotate :: "('c \<times> string) list \<Rightarrow> 's \<Rightarrow> 's" where
  "rotate [] s = s"
| "rotate ((c, v) # cs) s = rotate cs (fst (put c v s))"

fun all_fresh :: "('c \<times> string) list \<Rightarrow> 's \<Rightarrow> bool" where
  "all_fresh [] s = True"
| "all_fresh ((c, v) # cs) s \<longleftrightarrow> fresh c s \<and> all_fresh cs (fst (put c v s))"

lemma rotations_whole: "all_fresh cs s \<Longrightarrow> get (rotate cs s) \<in> insert (get s) (new_secret ` snd ` set cs)"
proof (induction cs s rule: rotate.induct)
  case (2 c v cs s)
  then have "get (rotate cs (fst (put c v s))) \<in> insert (get (fst (put c v s))) (new_secret ` snd ` set cs)" and "fresh c s" by simp_all
  with put_either [of c s v] show ?case by auto
qed simp

end

definition slot_fresh :: "string \<Rightarrow> io_call \<Rightarrow> vault \<Rightarrow> bool" where
  "slot_fresh p call s \<longleftrightarrow> hget (vt_files s) (scratch_of (path_of p) (ic_uuid call)) = None"

lemma file_store_outcome:
  assumes st: "store_secret pf ext call (FileRef p) v s = (s', r)" and fresh: "slot_fresh p call s"
  shows "elsewhere (path_of p) (scratch_of (path_of p) (ic_uuid call)) (vt_files s) (vt_files s')"
    and "vt_keyring s' = vt_keyring s \<and> vt_external s' = vt_external s"
    and "hget (vt_files s') (path_of p) = hget (vt_files s) (path_of p) \<and> isl r \<or>
      (\<exists>f. hget (vt_files s') (path_of p) = Some f \<and> installed pf v f)"
    and "v \<noteq> [] \<or> (isl r \<and> s' = s)"
proof -
  let ?t = "scratch_of (path_of p) (ic_uuid call)"
  have "elsewhere (path_of p) ?t (vt_files s) (vt_files s') \<and> vt_keyring s' = vt_keyring s \<and> vt_external s' = vt_external s \<and>
    (hget (vt_files s') (path_of p) = hget (vt_files s) (path_of p) \<and> isl r \<or>
      (\<exists>f. hget (vt_files s') (path_of p) = Some f \<and> installed pf v f)) \<and> (v \<noteq> [] \<or> (isl r \<and> s' = s))"
  proof (cases "v = []")
    case True
    with st show ?thesis by (auto simp: store_secret_def elsewhere_def)
  next
    case False
    obtain trace where wr: "write_protected_file pf call (path_of p) v (vt_files s) = (trace, r)" and s': "s' = with_files s trace"
      using st False by (auto simp: store_secret_def split: prod.splits)
    from write_protected_traced(1) [OF wr] fresh have T: "traced (replacing pf (path_of p) ?t (vt_files s) v)
        (replaced pf (path_of p) ?t (vt_files s) v) (vt_files s) (trace, r)" by (simp add: slot_fresh_def)
    then have R: "replacing pf (path_of p) ?t (vt_files s) v (vt_files s')"
      using fresh by (auto simp: traced_def s' with_files_def slot_fresh_def intro: replacing_final)
    have "replaced pf (path_of p) ?t (vt_files s) v (vt_files s')" if "\<not> isl r"
      using T that by (simp add: traced_def s' with_files_def)
    with R False show ?thesis by (auto simp: replacing_def replaced_def s' with_files_def)
  qed
  then show "elsewhere (path_of p) ?t (vt_files s) (vt_files s')"
    and "vt_keyring s' = vt_keyring s \<and> vt_external s' = vt_external s"
    and "hget (vt_files s') (path_of p) = hget (vt_files s) (path_of p) \<and> isl r \<or>
      (\<exists>f. hget (vt_files s') (path_of p) = Some f \<and> installed pf v f)"
    and "v \<noteq> [] \<or> (isl r \<and> s' = s)" by blast+
qed

abbreviation readable_call :: "io_call \<Rightarrow> io_call" where
  "readable_call call \<equiv> call\<lparr>ic_reads := True\<rparr>"

interpretation file_slot: secret_slot "\<lambda>call v s. store_secret pf ext call (FileRef p) v s"
  "\<lambda>s. resolve_secret pf ext (readable_call rd) (FileRef p) s" "slot_fresh p"
proof
  fix c s v s'
  assume "slot_fresh p c s" and st: "store_secret pf ext c (FileRef p) v s = (s', Inr ())"
  from file_store_outcome(3) [OF st this(1)] obtain f where "hget (vt_files s') (path_of p) = Some f" and "installed pf v f" by auto
  then show "resolve_secret pf ext (readable_call rd) (FileRef p) s' = new_secret v" by (simp add: read_installed)
next
  fix c s v s' e
  assume f: "slot_fresh p c s" and st: "store_secret pf ext c (FileRef p) v s = (s', Inl e)"
  from file_store_outcome(3) [OF st f]
  show "resolve_secret pf ext (readable_call rd) (FileRef p) s' = resolve_secret pf ext (readable_call rd) (FileRef p) s \<or>
    resolve_secret pf ext (readable_call rd) (FileRef p) s' = new_secret v"
    by (auto simp: read_installed dest: read_same [where pf = pf and r = True])
qed

subsection \<open>A node record survives a crash\<close>

lemma split_on_plain: "c \<notin> set s \<Longrightarrow> split_on c s = [s]"
  by (induction s) auto

lemma valid_name_chars:
  assumes "validate_name name = Inr ()"
  shows "name \<noteq> []" and "CHR ''/'' \<notin> set name"
proof -
  from assms show ne: "name \<noteq> []" by (auto simp: validate_name_def)
  have slash: "\<not> is_ascii_lower (CHR ''/'')" "\<not> is_ascii_digit (CHR ''/'')" by (simp_all add: ascii_defs)
  from assms have hd: "is_ascii_lower (hd name) \<or> is_ascii_digit (hd name)"
    and tl: "list_all (\<lambda>b. is_ascii_lower b \<or> is_ascii_digit b \<or> b = CHR ''.'' \<or> b = CHR ''_'' \<or> b = CHR ''-'') (tl name)"
    by (auto simp: validate_name_def split: if_splits)
  from hd slash have "hd name \<noteq> CHR ''/''" by metis
  moreover from tl slash have "CHR ''/'' \<notin> set (tl name)" by (auto simp: list_all_iff)
  ultimately show "CHR ''/'' \<notin> set name" using ne by (cases name) auto
qed

text \<open>A name that passes names a file in the directory of the nodes and nothing else.\<close>

lemma node_path_confined:
  assumes "node_path pf name fs = (fs', Inr p)"
  shows "p = config_base pf @ [''nodes'', name @ ''.json'']" and "CHR ''/'' \<notin> set (name @ ''.json'')" and "config_dir pf fs = (fs', Inr (config_base pf))"
proof -
  from assms obtain dir where v: "validate_name name = Inr ()" and d: "config_dir pf fs = (fs', Inr dir)"
      and p: "p = path_join (path_join dir ''nodes'') (name @ ''.json'')"
    by (auto simp: node_path_def split: sum.splits prod.splits)
  from d have dir: "dir = config_base pf" by (auto simp: config_dir_def split: sum.splits prod.splits)
  from valid_name_chars [OF v] show ns: "CHR ''/'' \<notin> set (name @ ''.json'')" by simp
  have "path_join q ''nodes'' = q @ [''nodes'']" for q by (simp add: path_join_def)
  moreover have "path_join q (name @ ''.json'') = q @ [name @ ''.json'']" for q
    using valid_name_chars(1) [OF v] by (simp add: path_join_def split_on_plain [OF ns])
  ultimately show "p = config_base pf @ [''nodes'', name @ ''.json'']" by (simp add: p dir)
  from d dir show "config_dir pf fs = (fs', Inr (config_base pf))" by simp
qed

text \<open>Making directories that are there changes nothing.\<close>

definition dirs_ready :: "path \<Rightarrow> files \<Rightarrow> bool" where
  "dirs_ready q fs \<longleftrightarrow> (\<forall>n \<in> {1..length q}. \<exists>f. hget fs (take n q) = Some f \<and> fi_kind f \<noteq> Regular)"

lemma dirs_ready_append: "dirs_ready (q @ r) fs \<Longrightarrow> dirs_ready q fs"
proof (unfold dirs_ready_def, rule ballI)
  fix n assume all: "\<forall>n \<in> {1..length (q @ r)}. \<exists>f. hget fs (take n (q @ r)) = Some f \<and> fi_kind f \<noteq> Regular" and n: "n \<in> {1..length q}"
  from n have "n \<in> {1..length (q @ r)}" and "take n (q @ r) = take n q" by simp_all
  with all show "\<exists>f. hget fs (take n q) = Some f \<and> fi_kind f \<noteq> Regular" by metis
qed

lemma create_ready: "dirs_ready q fs \<Longrightarrow> create_dir_all pf q fs = (fs, Inr ())"
proof -
  assume r: "dirs_ready q fs"
  have "fold (\<lambda>n fs. if hget fs (take n q) = None then hput (take n q) (d n) fs else fs) ns fs = fs" if "set ns \<subseteq> {1..length q}" for ns d
  proof -
    have there: "hget fs (take n q) \<noteq> None" if "n \<in> {1..length q}" for n using r that unfolding dirs_ready_def by fastforce
    from that show ?thesis
    proof (induction ns)
      case (Cons n ns)
      then have "hget fs (take n q) \<noteq> None" by (intro there) simp
      then obtain f where "hget fs (take n q) = Some f" by blast
      with Cons show ?case by simp
    qed simp
  qed
  moreover have "\<not> list_ex (\<lambda>n. case hget fs (take n q) of Some f \<Rightarrow> fi_kind f = Regular | None \<Rightarrow> False) [1..<Suc (length q)]"
    using r by (fastforce simp: dirs_ready_def list_ex_iff split: option.splits)
  ultimately show ?thesis by (simp del: upt_Suc add: create_dir_all_def atLeastLessThanSuc_atLeastAtMost)
qed

lemma fold_create:
  fixes d :: file_info and q :: path
  assumes "fi_kind d = Directory"
  defines "mk \<equiv> \<lambda>n fs. if hget fs (take n q) = None then hput (take n q) d fs else fs"
  shows "hget (fold mk ns fs) r = (if hget fs r = None \<and> (\<exists>n \<in> set ns. r = take n q) then Some d else hget fs r)"
proof (induction ns arbitrary: fs)
  case (Cons n ns)
  then show ?case by (auto simp: mk_def update_conv')
qed simp

lemma create_dir_all_effect:
  assumes "create_dir_all pf q fs = (fs', Inr ())"
  shows "dirs_ready q fs'" and "length q < length r \<Longrightarrow> hget fs' r = hget fs r" and "hget fs r \<noteq> None \<Longrightarrow> hget fs' r = hget fs r"
proof -
  let ?d = "\<lparr>fi_kind = Directory, fi_uid = pf_euid pf, fi_mode = 511 AND NOT (pf_umask pf), fi_data = []\<rparr>"
  from assms have nr: "\<not> list_ex (\<lambda>n. case hget fs (take n q) of Some f \<Rightarrow> fi_kind f = Regular | None \<Rightarrow> False) [1..<Suc (length q)]"
    and fs': "fs' = fold (\<lambda>n fs. if hget fs (take n q) = None then hput (take n q) ?d fs else fs) [1..<Suc (length q)] fs"
    by (auto simp: create_dir_all_def split: if_splits)
  have h: "hget fs' r = (if hget fs r = None \<and> (\<exists>n \<in> set [1..<Suc (length q)]. r = take n q) then Some ?d else hget fs r)" for r
    unfolding fs' by (rule fold_create) simp
  show "dirs_ready q fs'" unfolding dirs_ready_def
  proof
    fix n assume n: "n \<in> {1..length q}"
    show "\<exists>f. hget fs' (take n q) = Some f \<and> fi_kind f \<noteq> Regular"
    proof (cases "hget fs (take n q)")
      case None
      with n have "hget fs' (take n q) = Some ?d" by (auto simp: h)
      then show ?thesis by simp
    next
      case (Some f)
      with nr n have "fi_kind f \<noteq> Regular" by (fastforce simp: list_ex_iff)
      with Some show ?thesis by (simp add: h)
    qed
  qed
  show "hget fs' r = hget fs r" if "length q < length r"
  proof -
    from that have "r \<noteq> take n q" for n by (metis length_take min_le_iff_disj not_less order_refl)
    then show ?thesis by (simp add: h)
  qed
  show "hget fs r \<noteq> None \<Longrightarrow> hget fs' r = hget fs r" by (simp add: h)
qed

lemma config_dir_effect:
  assumes "config_dir pf fs = (fs', Inr (config_base pf))"
  shows "dirs_ready (config_base pf) fs'" and "dirs_ready (config_base pf @ [''nodes'']) fs'"
    and "Suc (length (config_base pf)) < length r \<Longrightarrow> hget fs' r = hget fs r" and "hget fs r \<noteq> None \<Longrightarrow> hget fs' r = hget fs r"
proof -
  have j: "path_join q ''nodes'' = q @ [''nodes'']" for q by (simp add: path_join_def)
  from assms obtain fs1 where c1: "create_dir_all pf (config_base pf) fs = (fs1, Inr ())"
      and c2: "create_dir_all pf (config_base pf @ [''nodes'']) fs1 = (fs', Inr ())"
    by (auto simp: config_dir_def j split: sum.splits prod.splits)
  note e1 = create_dir_all_effect [OF c1] and e2 = create_dir_all_effect [OF c2]
  show "dirs_ready (config_base pf @ [''nodes'']) fs'" by (rule e2(1))
  then show "dirs_ready (config_base pf) fs'" by (rule dirs_ready_append)
  show "hget fs' r = hget fs r" if "Suc (length (config_base pf)) < length r"
    using e2(2) [of r] e1(2) [of r] that by simp
  show "hget fs' r = hget fs r" if "hget fs r \<noteq> None"
    using e2(3) [of r] e1(3) [of r] that by simp
qed

lemma node_path_ready:
  assumes np: "node_path pf name fs = (fs1, Inr p)" and same: "elsewhere p t fs1 fs'" and t: "butlast t = config_base pf @ [''nodes'']" "t \<noteq> []"
  shows "node_path pf name fs' = (fs', Inr p)"
proof -
  note c = node_path_confined [OF np]
  have far: "take n (config_base pf @ [''nodes'']) \<noteq> p" "take n (config_base pf @ [''nodes'']) \<noteq> t" for n
  proof -
    have "length (take n (config_base pf @ [''nodes''])) \<le> Suc (length (config_base pf))" by simp
    moreover have "length p = Suc (Suc (length (config_base pf)))" by (simp add: c(1))
    moreover have "length t = Suc (Suc (length (config_base pf)))" using t by (metis Suc_length_conv append_butlast_last_id length_append_singleton)
    ultimately show "take n (config_base pf @ [''nodes'']) \<noteq> p" "take n (config_base pf @ [''nodes'']) \<noteq> t" by (metis Suc_n_not_le_n)+
  qed
  have near: "hget fs' (take n (config_base pf @ [''nodes''])) = hget fs1 (take n (config_base pf @ [''nodes'']))" for n
    using same far unfolding elsewhere_def by blast
  have r2: "dirs_ready (config_base pf @ [''nodes'']) fs'"
    using config_dir_effect(2) [OF c(3)] unfolding dirs_ready_def near .
  then have r1: "dirs_ready (config_base pf) fs'" by (rule dirs_ready_append)
  have "path_join (config_base pf) ''nodes'' = config_base pf @ [''nodes'']" by (simp add: path_join_def)
  then have "config_dir pf fs' = (fs', Inr (config_base pf))" by (simp add: config_dir_def create_ready [OF r1] create_ready [OF r2])
  moreover from np obtain dir where "validate_name name = Inr ()" and "config_dir pf fs = (fs1, Inr dir)"
      and "p = path_join (path_join dir ''nodes'') (name @ ''.json'')"
    by (auto simp: node_path_def split: sum.splits prod.splits)
  ultimately show ?thesis using c(3) by (simp add: node_path_def)
qed

lemma scratch_butlast [simp]: "butlast (scratch_of p uuid) = butlast p" "scratch_of p uuid \<noteq> []" "length (scratch_of p uuid) = Suc (length p - 1)"
  by (simp_all add: scratch_of_def temporary_path_def)

lemma save_node_traced:
  assumes np: "node_path pf (ni_name node) fs = (fs1, Inr p)" and fresh: "hget fs (scratch_of p (ic_uuid call)) = None"
    and pr: "pf_print_node pf node = Some enc" and sv: "save_node pf call node fs = (trace, r)"
  shows "list_all (replacing pf p (scratch_of p (ic_uuid call)) fs1 (enc @ [CHR 0x0A])) trace"
    and "\<not> isl r \<Longrightarrow> replaced pf p (scratch_of p (ic_uuid call)) fs1 (enc @ [CHR 0x0A]) (final_files fs trace)"
proof -
  let ?t = "scratch_of p (ic_uuid call)" and ?v = "enc @ [CHR 0x0A]"
  note c = node_path_confined [OF np]
  have fresh1: "hget fs1 ?t = None" using config_dir_effect(3) [OF c(3), of ?t] fresh by (simp add: c(1))
  obtain tr e where at': "atomic_write_owner_only pf call p ?v fs1 = (tr, e)" by fastforce
  from sv np pr at' have trace: "trace = fs1 # tr" and r: "isl r = isl e"
    by (auto simp: save_node_def split: sum.splits)
  from atomic_write_traced [OF at' fresh1] have T: "traced (replacing pf p ?t fs1 ?v) (replaced pf p ?t fs1 ?v) fs1 (tr, e)" .
  then show "list_all (replacing pf p ?t fs1 ?v) trace" by (simp add: traced_def trace replacing_same [OF fresh1])
  show "replaced pf p ?t fs1 ?v (final_files fs trace)" if "\<not> isl r"
    using T that r by (simp add: traced_def trace final_files_def)
qed

lemma load_elsewhere:
  assumes np: "node_path pf name fs = (fs1, Inr p)" and "elsewhere p (scratch_of p uuid) fs1 fs'" and "ic_reads rd"
  shows "snd (load_node pf rd name fs') = read_node pf True p fs'"
proof -
  have "butlast (scratch_of p uuid) = config_base pf @ [''nodes'']" by (simp add: node_path_confined(1) [OF np] butlast_append)
  from node_path_ready [OF np assms(2) this] assms(3) show ?thesis by (simp add: load_node_def)
qed

lemma read_node_installed: "hget fs p = Some f \<Longrightarrow> installed pf v f \<Longrightarrow> pf_parse_node pf v = Some node \<Longrightarrow> read_node pf True p fs = Inr (Some node)"
  by (simp add: read_node_def installed_def)

text \<open>C13. Replacing a saved node record never loses it: whatever system calls of \<^verbatim>\<open>save_node\<close> fail, and wherever the process
  stops in between, a later \<^verbatim>\<open>load_node\<close> of that name finds the record that was there before, as it was, or the new one; after a
  save that reported success it finds the new one.  A file that has come to hold the new record, or any part of it, can be read by its
  owner alone.  The codec has to read what it printed, and the random temporary name must not be in use.\<close>

theorem node_record_survives:
  assumes "node_path pf (ni_name node) fs = (fs1, Inr p)"
    and "hget fs (scratch_of p (ic_uuid call)) = None"
    and "pf_print_node pf node = Some enc" and "pf_parse_node pf (enc @ [CHR 0x0A]) = Some node"
    and "save_node pf call node fs = (trace, r)" and "ic_reads rd"
  shows "(\<forall>fs' \<in> set trace.
      snd (load_node pf rd (ni_name node) fs') \<in> {snd (load_node pf rd (ni_name node) fs), Inr (Some node)} \<and>
      (\<forall>q f. hget fs' q = Some f \<longrightarrow> hget fs1 q \<noteq> Some f \<longrightarrow> fi_data f = [] \<or> owner_only pf f)) \<and>
    (isl r \<or> snd (load_node pf rd (ni_name node) (final_files fs trace)) = Inr (Some node))"
proof -
  let ?t = "scratch_of p (ic_uuid call)" and ?v = "enc @ [CHR 0x0A]"
  note np = assms(1) and T = save_node_traced [OF assms(1,2,3,5)]
  have old: "snd (load_node pf rd (ni_name node) fs) = read_node pf True p fs1" using np assms(6) by (simp add: load_node_def)
  have "snd (load_node pf rd (ni_name node) fs') \<in> {snd (load_node pf rd (ni_name node) fs), Inr (Some node)} \<and>
      (\<forall>q f. hget fs' q = Some f \<longrightarrow> hget fs1 q \<noteq> Some f \<longrightarrow> fi_data f = [] \<or> owner_only pf f)" if "fs' \<in> set trace" for fs'
  proof
    from T(1) that have R: "replacing pf p ?t fs1 ?v fs'" by (simp add: list_all_iff)
    then have alt: "hget fs' p = hget fs1 p \<or> (\<exists>f. hget fs' p = Some f \<and> installed pf ?v f)" by (simp add: replacing_def)
    then have "read_node pf True p fs' = read_node pf True p fs1 \<or> read_node pf True p fs' = Inr (Some node)"
      by (auto simp: read_node_installed assms(4)) (simp_all add: read_node_def)
    with load_elsewhere [OF np _ assms(6)] R old
    show "snd (load_node pf rd (ni_name node) fs') \<in> {snd (load_node pf rd (ni_name node) fs), Inr (Some node)}"
      by (auto simp: replacing_def)
    show "\<forall>q f. hget fs' q = Some f \<longrightarrow> hget fs1 q \<noteq> Some f \<longrightarrow> fi_data f = [] \<or> owner_only pf f"
      using R unfolding replacing_def elsewhere_def installed_def by (metis option.inject)
  qed
  moreover have "snd (load_node pf rd (ni_name node) (final_files fs trace)) = Inr (Some node)" if "\<not> isl r"
    using T(2) [OF that] load_elsewhere [OF np _ assms(6)] by (auto simp: replaced_def read_node_installed assms(4))
  ultimately show ?thesis by blast
qed

subsection \<open>Migration\<close>

definition codec_lawful :: "platform \<Rightarrow> bool" where
  "codec_lawful pf \<longleftrightarrow> (\<forall>node enc. pf_print_node pf node = Some enc \<longrightarrow> pf_parse_node pf (enc @ [CHR 0x0A]) = Some node)"

text \<open>What a credential that was moved to a file leaves behind.\<close>

lemma migration_entry:
  assumes entry: "apply_secret_migration_entry pf io refs name v (node, s, applied) = ((node', s', applied'), Inr ())"
    and ref: "hget refs name = Some (FileRef a)" and fresh: "slot_fresh a (mg_store io name) s"
  shows "set_credential name None (node\<lparr>ni_secret_refs := hput name (FileRef a) (ni_secret_refs node)\<rparr>) = Some node'"
    and "elsewhere (path_of a) (scratch_of (path_of a) (ic_uuid (mg_store io name))) (vt_files s) (vt_files s')"
    and "\<exists>f. hget (vt_files s') (path_of a) = Some f \<and> installed pf v f" and "new_secret v = Inr v"
proof -
  from entry ref obtain u where st: "store_secret pf None (mg_store io name) (FileRef a) v s = (s', Inr u)"
      and got: "resolve_secret pf None (mg_store io name) (FileRef a) s' = Inr v"
      and set: "set_credential name None (node\<lparr>ni_secret_refs := hput name (FileRef a) (ni_secret_refs node)\<rparr>) = Some node'"
    by (auto simp: apply_secret_migration_entry_def Let_def split: if_splits prod.splits sum.splits option.splits)
  show "set_credential name None (node\<lparr>ni_secret_refs := hput name (FileRef a) (ni_secret_refs node)\<rparr>) = Some node'" by (rule set)
  show "elsewhere (path_of a) (scratch_of (path_of a) (ic_uuid (mg_store io name))) (vt_files s) (vt_files s')"
    by (rule file_store_outcome(1) [OF st fresh])
  from file_store_outcome(3) [OF st fresh] obtain f where f: "hget (vt_files s') (path_of a) = Some f" "installed pf v f" by auto
  then show "\<exists>f. hget (vt_files s') (path_of a) = Some f \<and> installed pf v f" by blast
  from got f show "new_secret v = Inr v"
    by (auto simp: bind_sum_Inr read_protected_file_def installed_def split: if_splits)
qed

lemma resolve_installed:
  "hget (vt_files s) (path_of a) = Some f \<Longrightarrow> installed pf v f \<Longrightarrow> new_secret v = Inr v \<Longrightarrow> ic_reads rd \<Longrightarrow>
   resolve_secret pf ext rd (FileRef a) s = Inr v"
  by (simp add: read_installed)

text \<open>A save touches its file and its temporary file; other files it only adds.\<close>

lemma save_node_keeps:
  assumes sv: "save_node pf call node fs = (trace, Inr p)" and fresh: "hget fs (scratch_of p (ic_uuid call)) = None"
    and q: "hget fs q = Some f" "q \<noteq> p" "q \<noteq> scratch_of p (ic_uuid call)"
  shows "hget (final_files fs trace) q = Some f"
proof -
  from sv obtain fs1 enc where np: "node_path pf (ni_name node) fs = (fs1, Inr p)" and pr: "pf_print_node pf node = Some enc"
    by (auto simp: save_node_def split: prod.splits sum.splits option.splits)
  from save_node_traced(2) [OF np fresh pr sv] have "elsewhere p (scratch_of p (ic_uuid call)) fs1 (final_files fs trace)"
    by (simp add: replaced_def)
  with config_dir_effect(4) [OF node_path_confined(3) [OF np], of q] q show ?thesis by (simp add: elsewhere_def)
qed

text \<open>C14. A migration of the two credentials of a saved node to files that reports success has lost nothing: the record
  holds neither of them in the clear any more, each reference resolves to the credential the record held before, and loading the
  node finds the migrated record.  The two references, the record and the temporary names have to be files of their own.\<close>

theorem migrated_credentials_resolve:
  assumes "hget refs ''node_token'' = Some (FileRef a)" and "hget refs ''node_hmac_key'' = Some (FileRef b)"
    and "ni_node_token node = Some tok" and "tok \<noteq> []" and "ni_node_hmac_key node = Some key" and "key \<noteq> []"
    and "codec_lawful pf" and "ic_reads rd"
    and "sa = scratch_of (path_of a) (ic_uuid (mg_store io ''node_token''))"
    and "sb = scratch_of (path_of b) (ic_uuid (mg_store io ''node_hmac_key''))"
    and "record = config_base pf @ [''nodes'', ni_name node @ ''.json'']" and "sr = scratch_of record (ic_uuid (mg_commit io))"
    and "distinct [path_of a, path_of b, record, sa, sb, sr]" and "\<forall>q \<in> {sa, sb, sr}. hget (vt_files s) q = None"
    and "migrate_node_secret_values pf io refs node s = (s', node', Inr ())"
  shows "ni_node_token node' = None \<and> ni_node_hmac_key node' = None \<and>
    resolve_identity_credential pf rd node' ''node_token'' None s' = Inr (Some tok) \<and>
    resolve_identity_credential pf rd node' ''node_hmac_key'' None s' = Inr (Some key) \<and>
    snd (load_node pf rd (ni_name node) (vt_files s')) = Inr (Some node')"
proof -
  let ?ia = "mg_store io ''node_token''" and ?ib = "mg_store io ''node_hmac_key''"
  from assms(1-6,15) obtain n1 s1 ap1 s2 ap2 trace p where
      e1: "apply_secret_migration_entry pf io refs ''node_token'' tok (node, s, []) = ((n1, s1, ap1), Inr ())"
      and e2: "apply_secret_migration_entry pf io refs ''node_hmac_key'' key (n1, s1, ap1) = ((node', s2, ap2), Inr ())"
      and sv: "save_node pf (mg_commit io) node' (vt_files s2) = (trace, Inr p)" and s': "s' = with_files s2 trace"
    by (auto simp: migrate_node_secret_values_def split: if_splits prod.splits sum.splits)
  have f1: "slot_fresh a ?ia s" using assms(9,14) by (simp add: slot_fresh_def)
  note E1 = migration_entry [OF e1 assms(1) f1]
  have f2: "slot_fresh b ?ib s1" using E1(2) assms(9,10,13,14) by (auto simp: slot_fresh_def elsewhere_def)
  note E2 = migration_entry [OF e2 assms(2) f2]
  have node': "node' = node\<lparr>ni_secret_refs := hput ''node_hmac_key'' (FileRef b) (hput ''node_token'' (FileRef a) (ni_secret_refs node)),
      ni_node_token := None, ni_node_hmac_key := None\<rparr>"
    using E1(1) E2(1) by (auto simp: set_credential_def)
  from sv obtain fs1 enc where np: "node_path pf (ni_name node') (vt_files s2) = (fs1, Inr p)" and pr: "pf_print_node pf node' = Some enc"
    by (auto simp: save_node_def split: prod.splits sum.splits option.splits)
  have p: "p = record" using node_path_confined(1) [OF np] assms(11) by (simp add: node')
  have fr: "hget (vt_files s2) (scratch_of p (ic_uuid (mg_commit io))) = None"
    using E1(2) E2(2) assms(9-14) by (auto simp: elsewhere_def p)
  obtain g where g: "hget (vt_files s2) (path_of a) = Some g" "installed pf tok g"
    using E1(3) E2(2) assms(9,10,13) by (auto simp: elsewhere_def)
  obtain h where h: "hget (vt_files s2) (path_of b) = Some h" "installed pf key h" using E2(3) by blast
  have "hget (vt_files s') (path_of a) = Some g" and "hget (vt_files s') (path_of b) = Some h"
    using save_node_keeps [OF sv fr g(1)] save_node_keeps [OF sv fr h(1)] assms(12,13) by (auto simp: s' with_files_def p)
  with g h E1(4) E2(4) assms(8) have "resolve_secret pf None rd (FileRef a) s' = Inr tok" and "resolve_secret pf None rd (FileRef b) s' = Inr key"
    by (simp_all only: resolve_installed)
  moreover have "snd (load_node pf rd (ni_name node') (vt_files s')) = Inr (Some node')"
  proof -
    from save_node_traced(2) [OF np fr pr sv] obtain f where "elsewhere p (scratch_of p (ic_uuid (mg_commit io))) fs1 (vt_files s')"
        and "hget (vt_files s') p = Some f" and "installed pf (enc @ [CHR 0x0A]) f"
      by (auto simp: replaced_def s' with_files_def)
    with load_elsewhere [OF np _ assms(8)] read_node_installed assms(7) pr show ?thesis by (metis codec_lawful_def)
  qed
  ultimately show ?thesis by (simp add: node' resolve_identity_credential_def update_conv')
qed

subsection \<open>Concrete runs\<close>

definition sample_dir :: file_info where
  "sample_dir = \<lparr>fi_kind = Directory, fi_uid = 7, fi_mode = 448, fi_data = []\<rparr>"

definition sample_files :: files where
  "sample_files = [([''/''], sample_dir), ([''/'', ''s''], sample_dir)]"

definition sample_node :: node_identity where
  "sample_node = \<lparr>ni_node_id = ''i'', ni_operator_id = [], ni_name = ''n'', ni_backend_url = [], ni_backend_type = [], ni_model = [], ni_intent = [],
     ni_region = [], ni_directory_url = [], ni_max_concurrent = 4, ni_port = 8020, ni_host = [], ni_public_endpoint = [],
     ni_auto_detect_nat = False, ni_external_ip_probe_url = [], ni_supported_receipt_profiles = [], ni_node_token = Some ''T'',
     ni_node_hmac_key = Some ''K'', ni_secret_refs = [], ni_created_at = []\<rparr>"

definition sample_migrated :: "secret_ref \<Rightarrow> secret_ref \<Rightarrow> node_identity" where
  "sample_migrated a b = sample_node\<lparr>ni_secret_refs := [(''node_token'', a), (''node_hmac_key'', b)], ni_node_token := None,
     ni_node_hmac_key := None\<rparr>"

text \<open>A codec that prints one record only.\<close>

definition sample_platform :: "node_identity \<Rightarrow> platform" where
  "sample_platform node = \<lparr>pf_euid = 7, pf_umask = 18, pf_var = (\<lambda>n. if n = ''HOME'' then Some ''/'' else None),
     pf_tool_lookup = (\<lambda>_ _ _. None), pf_tool_store = (\<lambda>_ _ _ k. (k, False)), pf_tool_clear = (\<lambda>_ _ k. (k, False)),
     pf_print_node = (\<lambda>n. if n = node then Some ''R'' else None), pf_parse_node = (\<lambda>t. if t = [CHR ''R'', CHR 0x0A] then Some node else None)\<rparr>"

definition sample_call :: "io_outcome list \<Rightarrow> io_call" where
  "sample_call outs = \<lparr>ic_uuid = ''u'', ic_outcomes = outs, ic_cleanup = Done, ic_reads = True\<rparr>"

definition sample_io :: "io_outcome list \<Rightarrow> migration_io" where
  "sample_io outs = \<lparr>mg_previous = (\<lambda>_. sample_call []), mg_store = (\<lambda>_. sample_call []), mg_rollback = (\<lambda>_. sample_call []),
     mg_commit = sample_call outs\<rparr>"

lemma sample_paths:
  "path_of ''/s/t'' = [''/'', ''s'', ''t'']" "path_of ''/s/k'' = [''/'', ''s'', ''k'']" "path_of ''/'' = [''/'']"
  "config_base (sample_platform node) = [''/'', ''.iicp'']"
  by (simp_all add: path_of_def starts_with_def config_base_def sample_platform_def path_join_def)

lemma sample_modes [simp]: "(384 :: u32) AND 4294967277 = 384" "(438 :: u32) AND 4294967277 = 420" "(511 :: u32) AND 4294967277 = 493"
  by simp_all

lemma sample_name: "validate_name ''n'' = Inr ()"
  by (simp add: validate_name_def ascii_defs)

definition sample_file :: "string \<Rightarrow> file_info" where
  "sample_file v = \<lparr>fi_kind = Regular, fi_uid = 7, fi_mode = 384, fi_data = v\<rparr>"

definition sample_config :: files where
  "sample_config = [([''/'', ''.iicp''], sample_dir\<lparr>fi_mode := 493\<rparr>), ([''/'', ''.iicp'', ''nodes''], sample_dir\<lparr>fi_mode := 493\<rparr>)]"

definition sample_state :: "files \<Rightarrow> vault" where
  "sample_state extra = \<lparr>vt_files = sample_files @ extra, vt_keyring = [], vt_external = []\<rparr>"

lemmas sample_eval = sample_files_def sample_dir_def sample_call_def sample_platform_def sample_state_def sample_file_def

lemmas store_eval = store_secret_def sample_paths write_protected_file_def path_parent_def path_file_name_def temporary_path_def protected_ops_def
  with_files_def final_files_def owner_only_def Let_def

lemmas read_eval = sample_paths read_protected_file_def owner_only_def new_secret_def ends_with_def

lemma sample_store_token:
  "store_secret (sample_platform node) None (sample_call []) (FileRef ''/s/t'') ''T'' (sample_state []) =
    (sample_state [([''/'', ''s'', ''t''], sample_file ''T'')], Inr ())"
  by (simp add: store_eval sample_eval)

lemma sample_store_key:
  "store_secret (sample_platform node) None (sample_call []) (FileRef ''/s/k'') ''K'' (sample_state [([''/'', ''s'', ''t''], sample_file ''T'')]) =
    (sample_state [([''/'', ''s'', ''t''], sample_file ''T''), ([''/'', ''s'', ''k''], sample_file ''K'')], Inr ())"
  by (simp add: store_eval sample_eval)

lemma sample_store_shared:
  "store_secret (sample_platform node) None (sample_call []) (FileRef ''/s/t'') ''K'' (sample_state [([''/'', ''s'', ''t''], sample_file ''T'')]) =
    (sample_state [([''/'', ''s'', ''t''], sample_file ''K'')], Inr ())"
  by (simp add: store_eval sample_eval)

lemma sample_resolve:
  "resolve_secret (sample_platform node) None (sample_call outs) (FileRef ''/s/t'') (sample_state []) = Inl SECRET_UNAVAILABLE"
  "resolve_secret (sample_platform node) None (sample_call outs) (FileRef ''/s/t'') (sample_state (([''/'', ''s'', ''t''], sample_file ''T'') # extra)) = Inr ''T''"
  "resolve_secret (sample_platform node) None (sample_call outs) (FileRef ''/s/t'') (sample_state (([''/'', ''s'', ''t''], sample_file ''K'') # extra)) = Inr ''K''"
  "resolve_secret (sample_platform node) None (sample_call outs) (FileRef ''/s/k'') (sample_state [([''/'', ''s'', ''t''], sample_file ''T'')]) =
    Inl SECRET_UNAVAILABLE"
  "resolve_secret (sample_platform node) None (sample_call outs) (FileRef ''/s/k'')
    (sample_state (([''/'', ''s'', ''t''], sample_file ''T'') # ([''/'', ''s'', ''k''], sample_file ''K'') # extra)) = Inr ''K''"
  by (simp_all add: read_eval sample_eval)

lemma sample_create:
  "create_dir_all (sample_platform node) [''/'', ''.iicp''] (sample_files @ [([''/'', ''s'', ''t''], f), ([''/'', ''s'', ''k''], g)]) =
    (sample_files @ [([''/'', ''s'', ''t''], f), ([''/'', ''s'', ''k''], g), ([''/'', ''.iicp''], sample_dir\<lparr>fi_mode := 493\<rparr>)], Inr ())"
  "create_dir_all (sample_platform node) [''/'', ''.iicp'', ''nodes'']
     (sample_files @ [([''/'', ''s'', ''t''], f), ([''/'', ''s'', ''k''], g), ([''/'', ''.iicp''], sample_dir\<lparr>fi_mode := 493\<rparr>)]) =
    (sample_files @ [([''/'', ''s'', ''t''], f), ([''/'', ''s'', ''k''], g)] @ sample_config, Inr ())"
  by (simp_all add: create_dir_all_def sample_eval sample_config_def)

lemma sample_node_path:
  "node_path (sample_platform node) ''n'' (sample_files @ [([''/'', ''s'', ''t''], f), ([''/'', ''s'', ''k''], g)]) =
    (sample_files @ [([''/'', ''s'', ''t''], f), ([''/'', ''s'', ''k''], g)] @ sample_config, Inr [''/'', ''.iicp'', ''nodes'', ''n.json''])"
  using sample_create [of node f g] by (simp add: node_path_def sample_name config_dir_def sample_paths path_join_def)

definition sample_saved :: "file_info \<Rightarrow> file_info \<Rightarrow> files" where
  "sample_saved f g = sample_files @ [([''/'', ''s'', ''t''], f), ([''/'', ''s'', ''k''], g)] @ sample_config @
     [([''/'', ''.iicp'', ''nodes'', ''n.json''], sample_file [CHR ''R'', CHR 0x0A])]"

lemmas atomic_eval = atomic_write_owner_only_def path_parent_def path_file_name_def temporary_path_def
  atomic_ops_def final_files_def Let_def

lemma sample_save:
  assumes "ni_name node = ''n''"
  shows "\<exists>trace. save_node (sample_platform node) (sample_call []) node (sample_files @ [([''/'', ''s'', ''t''], f), ([''/'', ''s'', ''k''], g)]) =
      (trace, Inr [''/'', ''.iicp'', ''nodes'', ''n.json'']) \<and> last trace = sample_saved f g \<and> trace \<noteq> []"
    and "\<exists>trace. save_node (sample_platform node) (sample_call [Done, Done, Done, Done, Done, Done, Refused 0]) node
      (sample_files @ [([''/'', ''s'', ''t''], f), ([''/'', ''s'', ''k''], g)]) = (trace, Inl OsError) \<and> last trace = sample_saved f g \<and> trace \<noteq> []"
  unfolding save_node_def assms sample_node_path by (simp_all add: atomic_eval sample_config_def sample_saved_def sample_eval)

lemma sample_io_simps [simp]:
  "mg_previous (sample_io outs) n = sample_call []" "mg_store (sample_io outs) n = sample_call []" "mg_rollback (sample_io outs) n = sample_call []"
  "mg_commit (sample_io outs) = sample_call outs" "ic_uuid (sample_call outs) = ''u''" "ic_reads (sample_call outs)"
  by (simp_all add: sample_io_def sample_call_def)

definition sample_refs :: "secret_ref \<Rightarrow> secret_ref \<Rightarrow> (string, secret_ref) hmap" where
  "sample_refs a b = [(''node_token'', a), (''node_hmac_key'', b)]"

lemma sample_apply:
  fixes node
  shows "apply_migration (sample_platform node) (sample_io outs) (sample_refs (FileRef ''/s/t'') (FileRef ''/s/k''))
      [(''node_token'', Some ''T''), (''node_hmac_key'', Some ''K'')] (sample_node, sample_state [], []) =
    ((sample_migrated (FileRef ''/s/t'') (FileRef ''/s/k''),
      sample_state [([''/'', ''s'', ''t''], sample_file ''T''), ([''/'', ''s'', ''k''], sample_file ''K'')],
      [\<lparr>sr_name = ''node_token'', sr_reference = FileRef ''/s/t'', sr_previous = None\<rparr>,
       \<lparr>sr_name = ''node_hmac_key'', sr_reference = FileRef ''/s/k'', sr_previous = None\<rparr>]), Inr ())"
    and "apply_migration (sample_platform node) (sample_io outs) (sample_refs (FileRef ''/s/t'') (FileRef ''/s/t''))
      [(''node_token'', Some ''T''), (''node_hmac_key'', Some ''K'')] (sample_node, sample_state [], []) =
    ((sample_migrated (FileRef ''/s/t'') (FileRef ''/s/t''), sample_state [([''/'', ''s'', ''t''], sample_file ''K'')],
      [\<lparr>sr_name = ''node_token'', sr_reference = FileRef ''/s/t'', sr_previous = None\<rparr>,
       \<lparr>sr_name = ''node_hmac_key'', sr_reference = FileRef ''/s/t'', sr_previous = Some ''T''\<rparr>]), Inr ())"
  by (simp_all del: resolve_secret.simps add: apply_secret_migration_entry_def sample_refs_def sample_store_token sample_store_key sample_store_shared sample_resolve
    set_credential_def sample_migrated_def sample_node_def Let_def)

lemma sample_migrate:
  fixes pf defines "pf \<equiv> sample_platform (sample_migrated (FileRef ''/s/t'') (FileRef ''/s/k''))"
  shows "migrate_node_secret_values pf (sample_io []) (sample_refs (FileRef ''/s/t'') (FileRef ''/s/k'')) sample_node (sample_state []) =
    (\<lparr>vt_files = sample_saved (sample_file ''T'') (sample_file ''K''), vt_keyring = [], vt_external = []\<rparr>,
     sample_migrated (FileRef ''/s/t'') (FileRef ''/s/k''), Inr ())"
proof -
  let ?m = "sample_migrated (FileRef ''/s/t'') (FileRef ''/s/k'')"
  have "ni_name ?m = ''n''" "ni_node_token ?m = None" "ni_node_hmac_key ?m = None" by (simp_all add: sample_migrated_def sample_node_def)
  moreover have "ni_node_token sample_node = Some ''T''" "ni_node_hmac_key sample_node = Some ''K''" by (simp_all add: sample_node_def)
  moreover have "vt_files (sample_state extra) = sample_files @ extra" for extra by (simp add: sample_state_def)
  moreover obtain trace where "save_node pf (sample_call []) ?m (sample_files @ [([''/'', ''s'', ''t''], sample_file ''T''), ([''/'', ''s'', ''k''], sample_file ''K'')]) =
      (trace, Inr [''/'', ''.iicp'', ''nodes'', ''n.json''])" and "last trace = sample_saved (sample_file ''T'') (sample_file ''K'')" and "trace \<noteq> []"
    using sample_save(1) [of ?m "sample_file ''T''" "sample_file ''K''"] calculation(1) unfolding pf_def by blast
  ultimately show ?thesis
    using sample_apply(1) [of ?m "[]"]
    by (simp add: migrate_node_secret_values_def pf_def with_files_def final_files_def sample_state_def)
qed

lemma sample_codec: "codec_lawful (sample_platform node)"
  by (simp add: codec_lawful_def sample_platform_def)

lemma sample_scratch:
  "scratch_of [''/'', ''s'', ''t''] ''u'' = [''/'', ''s'', ''.t.u.tmp'']" "scratch_of [''/'', ''s'', ''k''] ''u'' = [''/'', ''s'', ''.k.u.tmp'']"
  "scratch_of [''/'', ''.iicp'', ''nodes'', ''n.json''] ''u'' = [''/'', ''.iicp'', ''nodes'', ''.n.json.u.tmp'']"
  by (simp_all add: scratch_of_def temporary_path_def)

theorem node_record_survives_witness:
  "\<exists>trace. save_node (sample_platform sample_node) (sample_call []) sample_node
      (sample_files @ [([''/'', ''s'', ''t''], sample_file ''T''), ([''/'', ''s'', ''k''], sample_file ''K'')]) =
      (trace, Inr [''/'', ''.iicp'', ''nodes'', ''n.json'']) \<and>
    snd (load_node (sample_platform sample_node) (sample_call []) ''n''
      (final_files (sample_files @ [([''/'', ''s'', ''t''], sample_file ''T''), ([''/'', ''s'', ''k''], sample_file ''K'')]) trace)) = Inr (Some sample_node)"
proof -
  let ?pf = "sample_platform sample_node" and ?p = "[''/'', ''.iicp'', ''nodes'', ''n.json'']"
  let ?fs = "sample_files @ [([''/'', ''s'', ''t''], sample_file ''T''), ([''/'', ''s'', ''k''], sample_file ''K'')]"
  have n: "ni_name sample_node = ''n''" by (simp add: sample_node_def)
  from sample_save(1) [OF n] obtain trace where sv: "save_node ?pf (sample_call []) sample_node ?fs = (trace, Inr ?p)" by blast
  have np: "node_path ?pf (ni_name sample_node) ?fs = (?fs @ sample_config, Inr ?p)" by (simp add: n sample_node_path)
  have fresh: "hget ?fs (scratch_of ?p (ic_uuid (sample_call []))) = None" by (simp add: sample_scratch sample_files_def)
  have codec: "pf_print_node ?pf sample_node = Some ''R''" "pf_parse_node ?pf (''R'' @ [CHR 0x0A]) = Some sample_node"
    by (simp_all add: sample_platform_def)
  from node_record_survives [OF np fresh codec sv, of "sample_call []"] sv show ?thesis by (auto simp: n)
qed

theorem migrated_credentials_resolve_witness:
  "let pf = sample_platform (sample_migrated (FileRef ''/s/t'') (FileRef ''/s/k'')); io = sample_io [];
       (s, node, r) = migrate_node_secret_values pf io (sample_refs (FileRef ''/s/t'') (FileRef ''/s/k'')) sample_node (sample_state [])
   in r = Inr () \<and> ni_node_token node = None \<and> ni_node_hmac_key node = None \<and>
      resolve_identity_credential pf (sample_call []) node ''node_token'' None s = Inr (Some ''T'') \<and>
      resolve_identity_credential pf (sample_call []) node ''node_hmac_key'' None s = Inr (Some ''K'') \<and>
      snd (load_node pf (sample_call []) ''n'' (vt_files s)) = Inr (Some node)"
proof -
  let ?pf = "sample_platform (sample_migrated (FileRef ''/s/t'') (FileRef ''/s/k''))" and ?r = "[''/'', ''.iicp'', ''nodes'', ''n.json'']"
  have names: "ni_name sample_node = ''n''" "ni_node_token sample_node = Some ''T''" "ni_node_hmac_key sample_node = Some ''K''"
    by (simp_all add: sample_node_def)
  have refs: "hget (sample_refs (FileRef ''/s/t'') (FileRef ''/s/k'')) ''node_token'' = Some (FileRef ''/s/t'')"
    "hget (sample_refs (FileRef ''/s/t'') (FileRef ''/s/k'')) ''node_hmac_key'' = Some (FileRef ''/s/k'')" by (simp_all add: sample_refs_def)
  have rec: "?r = config_base ?pf @ [''nodes'', ni_name sample_node @ ''.json'']" by (simp add: sample_paths names)
  have ne: "''T'' \<noteq> ([] :: string)" "''K'' \<noteq> ([] :: string)" by simp_all
  have reads: "ic_reads (sample_call [])" by simp
  have apart: "distinct [path_of ''/s/t'', path_of ''/s/k'', ?r, scratch_of (path_of ''/s/t'') (ic_uuid (mg_store (sample_io []) ''node_token'')),
      scratch_of (path_of ''/s/k'') (ic_uuid (mg_store (sample_io []) ''node_hmac_key'')), scratch_of ?r (ic_uuid (mg_commit (sample_io [])))]"
    by (simp add: sample_paths sample_scratch)
  have fresh: "\<forall>q \<in> {scratch_of (path_of ''/s/t'') (ic_uuid (mg_store (sample_io []) ''node_token'')),
      scratch_of (path_of ''/s/k'') (ic_uuid (mg_store (sample_io []) ''node_hmac_key'')), scratch_of ?r (ic_uuid (mg_commit (sample_io [])))}.
      hget (vt_files (sample_state [])) q = None"
    by (simp add: sample_paths sample_scratch sample_state_def sample_files_def)
  from migrated_credentials_resolve [OF refs(1,2) names(2) ne(1) names(3) ne(2) sample_codec reads refl refl rec refl apart fresh sample_migrate]
  show ?thesis by (simp add: sample_migrate names)
qed

text \<open>A commit that fails after the record has been replaced, in the last synchronisation of the directory, makes the migration take the secrets back:
  the credentials are then neither in the record nor in the store.\<close>

lemma late_commit_failure_loses_credentials:
  "let pf = sample_platform (sample_migrated (FileRef ''/s/t'') (FileRef ''/s/k'')); io = sample_io [Done, Done, Done, Done, Done, Done, Refused 0];
       (s, node, r) = migrate_node_secret_values pf io (sample_refs (FileRef ''/s/t'') (FileRef ''/s/k'')) sample_node (sample_state []);
       saved = sample_migrated (FileRef ''/s/t'') (FileRef ''/s/k'')
   in r = Inl ''credential migration commit failed'' \<and> snd (load_node pf (sample_call []) ''n'' (vt_files s)) = Inr (Some saved) \<and>
      ni_node_token saved = None \<and> ni_node_hmac_key saved = None \<and>
      isl (resolve_identity_credential pf (sample_call []) saved ''node_token'' None s) \<and>
      isl (resolve_identity_credential pf (sample_call []) saved ''node_hmac_key'' None s)"
proof -
  let ?m = "sample_migrated (FileRef ''/s/t'') (FileRef ''/s/k'')" and ?outs = "[Done, Done, Done, Done, Done, Done, Refused 0]"
  let ?pf = "sample_platform ?m" and ?f = "sample_file ''T''" and ?g = "sample_file ''K''"
  have m: "ni_name ?m = ''n''" "ni_node_token ?m = None" "ni_node_hmac_key ?m = None"
    "hget (ni_secret_refs ?m) ''node_token'' = Some (FileRef ''/s/t'')" "hget (ni_secret_refs ?m) ''node_hmac_key'' = Some (FileRef ''/s/k'')"
    by (simp_all add: sample_migrated_def sample_node_def)
  have n: "ni_node_token sample_node = Some ''T''" "ni_node_hmac_key sample_node = Some ''K''" by (simp_all add: sample_node_def)
  obtain trace where sv: "save_node ?pf (sample_call ?outs) ?m (sample_files @ [([''/'', ''s'', ''t''], ?f), ([''/'', ''s'', ''k''], ?g)]) = (trace, Inl OsError)"
      and last: "last trace = sample_saved ?f ?g" "trace \<noteq> []"
    using sample_save(2) [OF m(1)] by blast
  define s where "s = \<lparr>vt_files = sample_files @ sample_config @ [([''/'', ''.iicp'', ''nodes'', ''n.json''], sample_file [CHR ''R'', CHR 0x0A])],
    vt_keyring = [], vt_external = []\<rparr>"
  have "migrate_node_secret_values ?pf (sample_io ?outs) (sample_refs (FileRef ''/s/t'') (FileRef ''/s/k'')) sample_node (sample_state []) =
      (s, sample_node, Inl ''credential migration commit failed'')"
    using sample_apply(1) [of ?m ?outs] sv last
    by (simp add: migrate_node_secret_values_def m n with_files_def final_files_def rollback_secret_writes_def delete_secret_def delete_protected_file_def
       sample_paths s_def sample_saved_def sample_config_def owner_only_def sample_eval)
  moreover have "snd (load_node ?pf (sample_call []) ''n'' (vt_files s)) = Inr (Some ?m)"
  proof -
    have "create_dir_all ?pf [''/'', ''.iicp''] (vt_files s) = (vt_files s, Inr ())" "create_dir_all ?pf [''/'', ''.iicp'', ''nodes''] (vt_files s) = (vt_files s, Inr ())"
      by (simp_all add: create_dir_all_def s_def sample_eval sample_config_def)
    then have "node_path ?pf ''n'' (vt_files s) = (vt_files s, Inr [''/'', ''.iicp'', ''nodes'', ''n.json''])"
      by (simp add: node_path_def sample_name config_dir_def sample_paths path_join_def)
    then show ?thesis by (simp add: load_node_def read_node_def s_def sample_eval sample_config_def)
  qed
  moreover have "isl (resolve_identity_credential ?pf (sample_call []) ?m ''node_token'' None s)"
    and "isl (resolve_identity_credential ?pf (sample_call []) ?m ''node_hmac_key'' None s)"
    by (simp_all add: resolve_identity_credential_def m s_def sample_paths read_protected_file_def sample_eval sample_config_def)
  ultimately show ?thesis by (simp add: m)
qed

text \<open>Two credentials with one reference: the migration reports success, and the token of the node is its other key.\<close>

lemma shared_reference_confuses_credentials:
  "\<exists>s. migrate_node_secret_values (sample_platform (sample_migrated (FileRef ''/s/t'') (FileRef ''/s/t''))) (sample_io [])
      (sample_refs (FileRef ''/s/t'') (FileRef ''/s/t'')) sample_node (sample_state []) =
      (s, sample_migrated (FileRef ''/s/t'') (FileRef ''/s/t''), Inr ()) \<and>
    resolve_identity_credential (sample_platform (sample_migrated (FileRef ''/s/t'') (FileRef ''/s/t''))) (sample_call [])
      (sample_migrated (FileRef ''/s/t'') (FileRef ''/s/t'')) ''node_token'' None s = Inr (Some ''K'')"
proof -
  let ?m = "sample_migrated (FileRef ''/s/t'') (FileRef ''/s/t'')"
  let ?pf = "sample_platform ?m" and ?fs = "sample_files @ [([''/'', ''s'', ''t''], sample_file ''K'')]"
  have m: "ni_name ?m = ''n''" "ni_node_token ?m = None" "ni_node_hmac_key ?m = None" "hget (ni_secret_refs ?m) ''node_token'' = Some (FileRef ''/s/t'')"
    by (simp_all add: sample_migrated_def sample_node_def)
  have n: "ni_node_token sample_node = Some ''T''" "ni_node_hmac_key sample_node = Some ''K''" by (simp_all add: sample_node_def)
  have "create_dir_all ?pf [''/'', ''.iicp''] ?fs = (?fs @ [([''/'', ''.iicp''], sample_dir\<lparr>fi_mode := 493\<rparr>)], Inr ())"
    "create_dir_all ?pf [''/'', ''.iicp'', ''nodes''] (?fs @ [([''/'', ''.iicp''], sample_dir\<lparr>fi_mode := 493\<rparr>)]) = (?fs @ sample_config, Inr ())"
    by (simp_all add: create_dir_all_def sample_eval sample_config_def)
  then have np: "node_path ?pf (ni_name ?m) ?fs = (?fs @ sample_config, Inr [''/'', ''.iicp'', ''nodes'', ''n.json''])"
    by (simp add: m node_path_def sample_name config_dir_def sample_paths path_join_def)
  have "\<exists>trace. save_node ?pf (sample_call []) ?m ?fs = (trace, Inr [''/'', ''.iicp'', ''nodes'', ''n.json'']) \<and> trace \<noteq> [] \<and>
      last trace = ?fs @ sample_config @ [([''/'', ''.iicp'', ''nodes'', ''n.json''], sample_file [CHR ''R'', CHR 0x0A])]"
    unfolding save_node_def np by (simp add: atomic_eval sample_config_def sample_eval)
  then obtain trace where sv: "save_node ?pf (sample_call []) ?m ?fs = (trace, Inr [''/'', ''.iicp'', ''nodes'', ''n.json''])" and "trace \<noteq> []"
      and "last trace = ?fs @ sample_config @ [([''/'', ''.iicp'', ''nodes'', ''n.json''], sample_file [CHR ''R'', CHR 0x0A])]" by blast
  with sample_apply(2) [of ?m "[]"] m n show ?thesis
    by (simp add: migrate_node_secret_values_def with_files_def final_files_def sample_state_def resolve_identity_credential_def sample_paths
       read_protected_file_def owner_only_def new_secret_def ends_with_def sample_eval)
qed

end
